(* ===== verification/Kernel_Prelude.thy ===== *)
theory Kernel_Prelude
  imports Main "HOL-Library.Word" "HOL-Library.Multiset"
begin

unbundle bit_operations_syntax

text \<open>
  Shared vocabulary of the development.

  The theory fixes how Rust values and library calls are read in HOL:
  fixed-width integers are words, the saturating and checked integer methods
  are defined on words, a \<open>Vec\<close> is a list, and the iterator and slice
  methods the kernel uses (\<open>find\<close>, \<open>iter_mut().find\<close>, \<open>position\<close>,
  \<open>min\<close>, \<open>min_by_key\<close>, \<open>swap_remove\<close>) are list functions. The lemmas below
  are the ones the component theories share. The locale at the end is the
  shape of every state machine of the development.
\<close>

section \<open>Integers\<close>

type_synonym u8 = "8 word"
type_synonym u16 = "16 word"
type_synonym u32 = "32 word"
type_synonym u64 = "64 word"
type_synonym i32 = "32 word"
type_synonym i64 = "64 word"

named_theorems sat_simps \<open>saturating and checked arithmetic, read as natural numbers\<close>

text \<open>Rust's \<open>T::MAX\<close> for an unsigned type is the all-ones word.\<close>

definition max_of :: "'a::len word" where
  "max_of = - 1"

definition sat_add :: "'a::len word \<Rightarrow> 'a word \<Rightarrow> 'a word" where
  "sat_add a b = (if unat a + unat b < 2 ^ LENGTH('a) then a + b else max_of)"

definition sat_sub :: "'a::len word \<Rightarrow> 'a word \<Rightarrow> 'a word" where
  "sat_sub a b = (if b \<le> a then a - b else 0)"

definition sat_mul :: "'a::len word \<Rightarrow> 'a word \<Rightarrow> 'a word" where
  "sat_mul a b = (if unat a * unat b < 2 ^ LENGTH('a) then a * b else max_of)"

definition checked_add :: "'a::len word \<Rightarrow> 'a word \<Rightarrow> 'a word option" where
  "checked_add a b = (if unat a + unat b < 2 ^ LENGTH('a) then Some (a + b) else None)"

definition checked_mul :: "'a::len word \<Rightarrow> 'a word \<Rightarrow> 'a word option" where
  "checked_mul a b = (if unat a * unat b < 2 ^ LENGTH('a) then Some (a * b) else None)"

lemma unat_max_of [sat_simps]: "unat (max_of :: 'a::len word) = 2 ^ LENGTH('a) - 1"
  by (simp add: max_of_def unsigned_minus_1_eq_mask mask_eq_exp_minus_1)

lemma le_max_of [simp]: "(a :: 'a::len word) \<le> max_of"
  by (simp add: max_of_def)

lemma unat_sat_add [sat_simps]:
  "unat (sat_add a b) = min (unat a + unat b) (2 ^ LENGTH('a) - 1)" for a b :: "'a::len word"
  by (auto simp: sat_add_def unat_max_of unat_word_ariths)

lemma unat_sat_sub [sat_simps]: "unat (sat_sub a b) = unat a - unat b"
  by (auto simp: sat_sub_def unat_sub word_le_nat_alt)

lemma unat_sat_mul [sat_simps]:
  "unat (sat_mul a b) = min (unat a * unat b) (2 ^ LENGTH('a) - 1)" for a b :: "'a::len word"
  by (auto simp: sat_mul_def unat_max_of unat_word_ariths)

lemma checked_add_Some [sat_simps]:
  "checked_add a b = Some c \<longleftrightarrow> unat c = unat a + unat b" for a b :: "'a::len word"
proof (cases "unat a + unat b < 2 ^ LENGTH('a)")
  case True
  then show ?thesis
    by (auto simp: checked_add_def unat_word_ariths word_unat_eq_iff)
next
  case False
  then show ?thesis
    by (metis checked_add_def option.distinct(1) unsigned_less)
qed

lemma checked_add_None [sat_simps]:
  "checked_add a b = None \<longleftrightarrow> 2 ^ LENGTH('a) \<le> unat a + unat b" for a b :: "'a::len word"
  by (auto simp: checked_add_def)

lemma sat_add_ge: "a \<le> sat_add a b"
proof -
  have "unat a \<le> unat (max_of :: 'a word)"
    using le_max_of [of a] by (simp only: word_le_nat_alt)
  then show ?thesis by (simp add: word_le_nat_alt unat_sat_add unat_max_of)
qed

lemma sat_sub_le: "sat_sub a b \<le> a"
  by (simp add: word_le_nat_alt unat_sat_sub)

lemma sat_sub_0 [simp]: "sat_sub a 0 = a" "sat_sub a a = 0"
  by (simp_all add: sat_sub_def)

lemma sat_sub_mono: "a \<le> b \<Longrightarrow> sat_sub a c \<le> sat_sub b c"
  by (simp add: word_le_nat_alt unat_sat_sub)

section \<open>Results\<close>

text \<open>
  A fallible operation returns \<open>Inl error\<close> or \<open>Inr value\<close>. An operation on
  \<open>&mut self\<close> returns the state it leaves behind in both cases, since Rust
  code may have changed fields before it returns an error.
\<close>

type_synonym ('e, 'a) result = "'e + 'a"

definition is_ok :: "'e + 'a \<Rightarrow> bool" where
  "is_ok r = (case r of Inl _ \<Rightarrow> False | Inr _ \<Rightarrow> True)"

lemma is_ok_simps [simp]: "is_ok (Inr x)" "\<not> is_ok (Inl e)"
  by (simp_all add: is_ok_def)

text \<open>\<open>Result::and_then\<close>, which is also how the \<open>?\<close> operator sequences calls, and \<open>Option::ok_or\<close>.\<close>

definition and_then :: "'e + 'a \<Rightarrow> ('a \<Rightarrow> 'e + 'b) \<Rightarrow> 'e + 'b" where
  "and_then r f = (case r of Inl e \<Rightarrow> Inl e | Inr x \<Rightarrow> f x)"

definition ok_or :: "'e \<Rightarrow> 'a option \<Rightarrow> 'e + 'a" where
  "ok_or e v = (case v of None \<Rightarrow> Inl e | Some x \<Rightarrow> Inr x)"

text \<open>\<open>if !c { return Err(e); }\<close> before the rest of a function.\<close>

definition guard_or :: "'e \<Rightarrow> bool \<Rightarrow> 'e + unit" where
  "guard_or e c = (if c then Inr () else Inl e)"

lemma and_then_simps [simp]: "and_then (Inr x) f = f x" "and_then (Inl e) f = Inl e"
  by (simp_all add: and_then_def)

lemma and_then_Inr: "and_then r f = Inr y \<longleftrightarrow> (\<exists>x. r = Inr x \<and> f x = Inr y)"
  by (cases r) auto

lemma and_then_Inl: "and_then r f = Inl e \<longleftrightarrow> r = Inl e \<or> (\<exists>x. r = Inr x \<and> f x = Inl e)"
  by (cases r) auto

lemma and_then_assoc: "and_then (and_then r f) g = and_then r (\<lambda>x. and_then (f x) g)"
  by (cases r) auto

lemma and_then_cong [fundef_cong]:
  "r = r' \<Longrightarrow> (\<And>x. r' = Inr x \<Longrightarrow> f x = f' x) \<Longrightarrow> and_then r f = and_then r' f'"
  by (cases r') auto

lemma ok_or_Inr [simp]: "ok_or e v = Inr x \<longleftrightarrow> v = Some x"
  by (cases v) (auto simp: ok_or_def)

lemma ok_or_Inl [simp]: "ok_or e v = Inl e' \<longleftrightarrow> v = None \<and> e' = e"
  by (cases v) (auto simp: ok_or_def)

lemma ok_or_simps [simp]: "ok_or e (Some x) = Inr x" "ok_or e None = Inl e"
  by (simp_all add: ok_or_def)

lemma guard_or_Inr [simp]: "guard_or e c = Inr u \<longleftrightarrow> c"
  by (simp add: guard_or_def)

lemma guard_or_Inl [simp]: "guard_or e c = Inl e' \<longleftrightarrow> \<not> c \<and> e' = e"
  by (auto simp: guard_or_def)

lemma guard_or_simps [simp]: "guard_or e True = Inr ()" "guard_or e False = Inl e"
  by (simp_all add: guard_or_def)

text \<open>
  \<open>Vec::try_reserve\<close> may fail. Whether it does is decided by the global
  allocator, which is not part of the kernel: an operation that reserves takes
  a function from the vector (a site of its component) and the vector's length
  to whether the reservation succeeds.
\<close>

type_synonym 'site allocator = "'site \<Rightarrow> nat \<Rightarrow> bool"

section \<open>Lists as vectors\<close>

text \<open>\<open>iter_mut().find(p)\<close> followed by an update of the element found.\<close>

primrec upd_first :: "('a \<Rightarrow> bool) \<Rightarrow> ('a \<Rightarrow> 'a) \<Rightarrow> 'a list \<Rightarrow> 'a list" where
  "upd_first p f [] = []"
| "upd_first p f (x # xs) = (if p x then f x # xs else x # upd_first p f xs)"

text \<open>\<open>iter().position(p)\<close>: the index of the first match.\<close>

primrec position :: "('a \<Rightarrow> bool) \<Rightarrow> 'a list \<Rightarrow> nat option" where
  "position p [] = None"
| "position p (x # xs) = (if p x then Some 0 else map_option Suc (position p xs))"

text \<open>\<open>Vec::swap_remove(i)\<close>: the last element takes the place of element \<open>i\<close>.\<close>

definition swap_remove :: "nat \<Rightarrow> 'a list \<Rightarrow> 'a list" where
  "swap_remove i xs = butlast (xs[i := last xs])"

text \<open>\<open>iter().min()\<close> and \<open>iter().max()\<close> on an ordered type.\<close>

definition iter_min :: "'a::linorder list \<Rightarrow> 'a option" where
  "iter_min xs = (if xs = [] then None else Some (fold min (tl xs) (hd xs)))"

definition iter_max :: "'a::linorder list \<Rightarrow> 'a option" where
  "iter_max xs = (if xs = [] then None else Some (fold max (tl xs) (hd xs)))"

text \<open>\<open>iter().min_by_key(k)\<close>: the first of the elements with the least key.\<close>

definition min_by_key :: "('a \<Rightarrow> 'k::linorder) \<Rightarrow> 'a list \<Rightarrow> 'a option" where
  "min_by_key k xs = (if xs = [] then None else Some (arg_min_list k xs))"

lemma length_upd_first [simp]: "length (upd_first p f xs) = length xs"
  by (induction xs) auto

lemma upd_first_None: "List.find p xs = None \<Longrightarrow> upd_first p f xs = xs"
  by (induction xs) (auto split: if_splits)

lemma map_upd_first:
  "(\<And>x. p x \<Longrightarrow> g (f x) = g x) \<Longrightarrow> map g (upd_first p f xs) = map g xs"
  by (induction xs) auto

lemma upd_first_distinct:
  assumes "distinct (map k xs)"
  shows "upd_first (\<lambda>x. k x = i) f xs = map (\<lambda>x. if k x = i then f x else x) xs"
  using assms
proof (induction xs)
  case (Cons x xs)
  have "map (\<lambda>x. if k x = i then f x else x) xs = xs" if "i \<notin> k ` set xs"
    using that by (intro map_idI) auto
  with Cons show ?case by auto
qed simp

lemma list_all2_upd_first:
  assumes "\<And>x. R x x" and "\<And>x. p x \<Longrightarrow> R x (f x)"
  shows "list_all2 R xs (upd_first p f xs)"
  by (induction xs) (auto simp: assms list.rel_refl)

lemma list_all2_map_self: "(\<And>x. x \<in> set xs \<Longrightarrow> R x (f x)) \<Longrightarrow> list_all2 R xs (map f xs)"
  by (induction xs) auto

lemma find_Some_in: "List.find p xs = Some x \<Longrightarrow> x \<in> set xs \<and> p x"
  by (auto simp: find_Some_iff)

lemma find_key_iff:
  assumes "distinct (map k xs)"
  shows "List.find (\<lambda>x. k x = i) xs = Some x \<longleftrightarrow> x \<in> set xs \<and> k x = i"
  using assms by (induction xs) (auto simp: rev_image_eqI)

lemma find_key_None: "List.find (\<lambda>x. k x = i) xs = None \<longleftrightarrow> i \<notin> k ` set xs"
  by (auto simp: find_None_iff)

lemma distinct_key_eq:
  "distinct (map k xs) \<Longrightarrow> x \<in> set xs \<Longrightarrow> y \<in> set xs \<Longrightarrow> k x = k y \<Longrightarrow> x = y"
  by (auto simp: distinct_map inj_on_def)

lemma position_Some:
  "position p xs = Some i \<longleftrightarrow> i < length xs \<and> p (xs ! i) \<and> (\<forall>j<i. \<not> p (xs ! j))"
proof (induction xs arbitrary: i)
  case (Cons x xs)
  show ?case
    by (cases i) (auto simp: Cons.IH less_Suc_eq_0_disj)
qed simp

lemma position_None: "position p xs = None \<longleftrightarrow> (\<forall>x\<in>set xs. \<not> p x)"
  by (induction xs) auto

lemma length_swap_remove [simp]: "length (swap_remove i xs) = length xs - 1"
  by (simp add: swap_remove_def)

lemma mset_swap_remove:
  assumes "i < length xs"
  shows "mset (swap_remove i xs) = mset xs - {# xs ! i #}"
proof -
  have ne: "xs \<noteq> []" using assms by auto
  let ?ys = "xs[i := last xs]"
  have "?ys \<noteq> []" using ne by simp
  then have "mset ?ys = mset (butlast ?ys) + {# last ?ys #}"
    by (metis append_butlast_last_id mset.simps(1,2) mset_append)
  moreover have "last ?ys = last xs"
    using assms ne by (simp add: last_list_update)
  moreover have "mset ?ys = add_mset (last xs) (mset xs - {# xs ! i #})"
    using assms by (rule mset_update)
  ultimately show ?thesis
    by (simp add: swap_remove_def)
qed

lemma set_swap_remove_subset: "set (swap_remove i xs) \<subseteq> set xs"
proof (cases "xs = []")
  case False
  then show ?thesis
    by (auto simp: swap_remove_def dest!: in_set_butlastD set_update_subset_insert [THEN subsetD])
qed (simp add: swap_remove_def)

lemma iter_min_eq: "iter_min xs = (if xs = [] then None else Some (Min (set xs)))"
  by (cases xs) (simp_all add: iter_min_def Min.set_eq_fold del: set_simps)

lemma iter_max_eq: "iter_max xs = (if xs = [] then None else Some (Max (set xs)))"
  by (cases xs) (simp_all add: iter_max_def Max.set_eq_fold del: set_simps)

lemma min_by_key_Some:
  assumes "min_by_key k xs = Some x"
  shows "x \<in> set xs" and "y \<in> set xs \<Longrightarrow> k x \<le> k y"
proof -
  from assms have ne: "xs \<noteq> []" and x: "x = arg_min_list k xs"
    by (auto simp: min_by_key_def split: if_splits)
  from ne x show "x \<in> set xs" by (simp add: arg_min_list_in)
  from ne x have "k x = Min (k ` set xs)" by (simp add: f_arg_min_list_f)
  then show "y \<in> set xs \<Longrightarrow> k x \<le> k y" by simp
qed

lemma min_by_key_None [simp]: "min_by_key k xs = None \<longleftrightarrow> xs = []"
  by (simp add: min_by_key_def)

section \<open>State machines\<close>

text \<open>
  A component that holds state is used through its operations. Every
  component of the development is an instance: an initial-state predicate, a
  total step function over its operations, the condition under which callers
  may invoke an operation, and an invariant.
\<close>

locale machine =
  fixes initial :: "'s \<Rightarrow> bool"
    and step :: "'op \<Rightarrow> 's \<Rightarrow> 's"
    and allowed :: "'op \<Rightarrow> 's \<Rightarrow> bool"
    and inv :: "'s \<Rightarrow> bool"
  assumes inv_initial: "initial s \<Longrightarrow> inv s"
    and inv_step: "inv s \<Longrightarrow> allowed x s \<Longrightarrow> inv (step x s)"
begin

inductive reachable :: "'s \<Rightarrow> bool" where
  start: "initial s \<Longrightarrow> reachable s"
| step: "reachable s \<Longrightarrow> allowed x s \<Longrightarrow> reachable (step x s)"

lemma reachable_inv: "reachable s \<Longrightarrow> inv s"
  by (induction rule: reachable.induct) (auto intro: inv_initial inv_step)

end

text \<open>A run of a machine: each operation is allowed where it is invoked.\<close>

fun run_ok :: "('op \<Rightarrow> 's \<Rightarrow> bool) \<Rightarrow> ('op \<Rightarrow> 's \<Rightarrow> 's) \<Rightarrow> 'op list \<Rightarrow> 's \<Rightarrow> bool" where
  "run_ok allowed step [] s \<longleftrightarrow> True"
| "run_ok allowed step (x # xs) s \<longleftrightarrow> allowed x s \<and> run_ok allowed step xs (step x s)"

context machine
begin

lemma run_inv: "inv s \<Longrightarrow> run_ok allowed step xs s \<Longrightarrow> inv (fold step xs s)"
  by (induction xs arbitrary: s) (auto intro: inv_step)

lemma run_reachable: "reachable s \<Longrightarrow> run_ok allowed step xs s \<Longrightarrow> reachable (fold step xs s)"
  by (induction xs arbitrary: s) (auto intro: reachable.step)

end

end
