(* ===== verification/Sched_Types.thy ===== *)
theory Sched_Types
  imports Kernel_Prelude
begin

text \<open>
  The data of the scheduler (\<open>kernel/core/src/sched.rs\<close> and
  \<open>sched/runtime.rs\<close>): constants, task and group records, the scheduler
  state, and the two constructors. CPU numbers (\<open>u8\<close> in the source, always
  below \<open>MAX_CPUS = 64\<close>) and vector lengths are natural numbers; every other
  integer keeps its width. A \<open>[T; N]\<close> array is a list of length \<open>N\<close>.
\<close>

section \<open>Constants\<close>

definition DEFAULT_QUANTUM_TICKS :: u8 where "DEFAULT_QUANTUM_TICKS = 3"
definition DEFAULT_FAIR_QUANTUM_NS :: u64 where "DEFAULT_FAIR_QUANTUM_NS = 4000000"
definition MAX_FAIR_GROUP_LAG_QUANTA :: u64 where "MAX_FAIR_GROUP_LAG_QUANTA = 8"
definition CPU_QUOTA_WINDOW_NS :: u64 where "CPU_QUOTA_WINDOW_NS = 100000000"
definition MAX_TASK_NAME :: nat where "MAX_TASK_NAME = 32"
definition MAX_CPUS :: nat where "MAX_CPUS = 64"
definition MAX_WAIT_MANY_ITEMS :: nat where "MAX_WAIT_MANY_ITEMS = 8"
definition FAIR_PRIORITY_WORDS :: nat where "FAIR_PRIORITY_WORDS = 4"

section \<open>Records\<close>

datatype scheduler_error = Full | InvalidTask | AlreadyExists | AccessDenied | ResourceExhausted

datatype task_state = Ready | Running | Blocked | Suspended | Quiesced | Stopped | Exited

datatype block_reason =
    Futex u64
  | FutexUntil u64 u64
  | HandleSignals u64 u32
  | WaitMany "(u64 \<times> u32) list" u8 u64
  | SleepUntil u64

record fair_profile =
  fp_priority :: u8
  fp_weight :: u32

record deadline_profile =
  dp_capacity_ns :: u64
  dp_deadline_ns :: u64
  dp_period_ns :: u64

datatype scheduling_profile = Fair fair_profile | Deadline deadline_profile

record effective_deadline =
  ed_profile :: deadline_profile
  ed_absolute_deadline_ns :: u64
  ed_remaining_budget_ns :: u64

text \<open>\<open>DeadlineProfile::valid\<close>.\<close>

definition deadline_valid :: "deadline_profile \<Rightarrow> bool" where
  "deadline_valid p \<longleftrightarrow>
     dp_capacity_ns p > 0 \<and> dp_capacity_ns p \<le> dp_deadline_ns p \<and>
     dp_deadline_ns p \<le> dp_period_ns p"

record scheduler_task =
  tk_id :: u64
  tk_process_id :: u64
  tk_resource_group_id :: u32
  tk_priority :: u8
  tk_base_priority :: u8
  tk_effective_priority :: u8
  tk_fair_weight :: u32
  tk_deadline :: "effective_deadline option"
  tk_state :: task_state
  tk_quantum_left :: u8
  tk_quantum_deadline_ns :: u64
  tk_assigned_cpu :: "nat option"
  tk_cpu_ticks :: u64
  tk_cpu_affinity_mask :: u64
  tk_block_reason :: "block_reason option"
  tk_exit_code :: i32
  tk_name :: "u8 list"
  tk_name_len :: nat

text \<open>\<open>SchedulerTask::new\<close>: the name is stored zero-padded in a 32-byte array.\<close>

definition scheduler_task_new ::
    "u64 \<Rightarrow> u64 \<Rightarrow> u32 \<Rightarrow> u8 \<Rightarrow> u8 list \<Rightarrow> scheduler_error + scheduler_task" where
  "scheduler_task_new i process_id resource_group_id priority name =
     (if i = 0 \<or> process_id = 0 \<or> name = [] \<or> length name > MAX_TASK_NAME then Inl InvalidTask
      else Inr \<lparr>
        tk_id = i,
        tk_process_id = process_id,
        tk_resource_group_id = resource_group_id,
        tk_priority = priority,
        tk_base_priority = priority,
        tk_effective_priority = priority,
        tk_fair_weight = 1,
        tk_deadline = None,
        tk_state = Ready,
        tk_quantum_left = DEFAULT_QUANTUM_TICKS,
        tk_quantum_deadline_ns = 0,
        tk_assigned_cpu = None,
        tk_cpu_ticks = 0,
        tk_cpu_affinity_mask = max_of,
        tk_block_reason = None,
        tk_exit_code = 0,
        tk_name = name @ replicate (MAX_TASK_NAME - length name) 0,
        tk_name_len = length name \<rparr>)"

record resource_group =
  rg_id :: u32
  rg_parent_id :: "u32 option"
  rg_cpu_shares :: u32
  rg_max_utilization_permille :: u16
  rg_allow_realtime :: bool
  rg_fair_vruntime :: u64
  rg_cpu_ticks :: u64
  rg_cpu_time_ns :: u64
  rg_quota_window_start_ns :: u64
  rg_quota_used_ns :: u64
  rg_runnable_tasks :: u16

record schedule_decision =
  sd_previous_task_id :: "u64 option"
  sd_next_task_id :: "u64 option"
  sd_cpu_id :: nat
  sd_switched :: bool

text \<open>
  \<open>runtime::Accounting\<close>: thread id, process id and accumulated execution time
  of every thread ever registered.
\<close>

record accounting =
  ac_last_ns :: "u64 option"
  ac_legacy :: bool
  ac_threads :: "(u64 \<times> u64 \<times> u64) list"

definition accounting_new :: accounting where
  "accounting_new = \<lparr> ac_last_ns = None, ac_legacy = False, ac_threads = [] \<rparr>"

record scheduler =
  sc_tasks :: "scheduler_task list"
  sc_runtime :: accounting
  sc_groups :: "resource_group list"
  sc_fair_task_cursors :: "(u32 \<times> nat \<times> u64 option) list"
  sc_current_task_ids :: "u64 option list"
  sc_total_ticks :: u64
  sc_now_ns :: u64
  sc_fair_ready_bitmap :: "u64 list"

text \<open>The vectors the scheduler grows with \<open>try_reserve\<close>.\<close>

datatype reserve_site =
    ReserveTasks | ReserveThreads | ReserveGroups | ReserveCursors | ReserveCurrent

definition scheduler_empty :: scheduler where
  "scheduler_empty = \<lparr>
     sc_tasks = [],
     sc_runtime = accounting_new,
     sc_groups = [],
     sc_fair_task_cursors = [],
     sc_current_task_ids = [],
     sc_total_ticks = 0,
     sc_now_ns = 0,
     sc_fair_ready_bitmap = replicate FAIR_PRIORITY_WORDS 0 \<rparr>"

definition with_cpu_count :: "reserve_site allocator \<Rightarrow> nat \<Rightarrow> scheduler_error + scheduler" where
  "with_cpu_count al max_cpus =
     (if max_cpus = 0 \<or> max_cpus > MAX_CPUS then Inl InvalidTask
      else if \<not> al ReserveCurrent max_cpus then Inl Full
      else Inr (scheduler_empty\<lparr> sc_current_task_ids := replicate max_cpus None \<rparr>))"

section \<open>Reading the state\<close>

definition task_of :: "scheduler \<Rightarrow> u64 \<Rightarrow> scheduler_task option" where
  "task_of s i = List.find (\<lambda>t. tk_id t = i) (sc_tasks s)"

definition resource_group_of :: "scheduler \<Rightarrow> u32 \<Rightarrow> resource_group option" where
  "resource_group_of s i = List.find (\<lambda>g. rg_id g = i) (sc_groups s)"

text \<open>
  The slot of one CPU. The source indexes the vector with a CPU number it has
  checked against the vector's length, or one below \<open>cpu_count\<close>.
\<close>

definition cur :: "scheduler \<Rightarrow> nat \<Rightarrow> u64 option" where
  "cur s cpu = (if cpu < length (sc_current_task_ids s) then sc_current_task_ids s ! cpu else None)"

definition set_cur :: "scheduler \<Rightarrow> nat \<Rightarrow> u64 option \<Rightarrow> scheduler" where
  "set_cur s cpu v = s\<lparr> sc_current_task_ids := (sc_current_task_ids s)[cpu := v] \<rparr>"

definition current_on_cpu :: "scheduler \<Rightarrow> nat \<Rightarrow> scheduler_task option" where
  "current_on_cpu s cpu = (case cur s cpu of None \<Rightarrow> None | Some i \<Rightarrow> task_of s i)"

definition cpu_count :: "scheduler \<Rightarrow> nat" where
  "cpu_count s = max (length (sc_current_task_ids s)) 1 mod 256"

definition cpu_mask :: "nat \<Rightarrow> u64" where
  "cpu_mask n = (if n \<ge> 64 then max_of else push_bit n 1 - 1)"

definition active_cpu_mask :: "scheduler \<Rightarrow> u64" where
  "active_cpu_mask s = cpu_mask (cpu_count s)"

definition ensure_cpu_id :: "scheduler \<Rightarrow> nat \<Rightarrow> bool" where
  "ensure_cpu_id s cpu \<longleftrightarrow> cpu < length (sc_current_task_ids s)"

definition block_states :: "scheduler \<Rightarrow> (u64 \<times> bool) list" where
  "block_states s = map (\<lambda>t. (tk_id t, tk_block_reason t \<noteq> None)) (sc_tasks s)"

text \<open>\<open>task_mut(id)\<close> followed by an update of the task.\<close>

definition task_upd :: "u64 \<Rightarrow> (scheduler_task \<Rightarrow> scheduler_task) \<Rightarrow> scheduler \<Rightarrow> scheduler" where
  "task_upd i f s = s\<lparr> sc_tasks := upd_first (\<lambda>t. tk_id t = i) f (sc_tasks s) \<rparr>"

lemma task_upd_sel [simp]:
  "sc_runtime (task_upd i f s) = sc_runtime s"
  "sc_groups (task_upd i f s) = sc_groups s"
  "sc_fair_task_cursors (task_upd i f s) = sc_fair_task_cursors s"
  "sc_current_task_ids (task_upd i f s) = sc_current_task_ids s"
  "sc_total_ticks (task_upd i f s) = sc_total_ticks s"
  "sc_now_ns (task_upd i f s) = sc_now_ns s"
  "sc_fair_ready_bitmap (task_upd i f s) = sc_fair_ready_bitmap s"
  by (simp_all add: task_upd_def)

lemma set_cur_sel [simp]:
  "sc_tasks (set_cur s c v) = sc_tasks s"
  "sc_runtime (set_cur s c v) = sc_runtime s"
  "sc_groups (set_cur s c v) = sc_groups s"
  "sc_fair_task_cursors (set_cur s c v) = sc_fair_task_cursors s"
  "sc_current_task_ids (set_cur s c v) = (sc_current_task_ids s)[c := v]"
  "sc_total_ticks (set_cur s c v) = sc_total_ticks s"
  "sc_now_ns (set_cur s c v) = sc_now_ns s"
  "sc_fair_ready_bitmap (set_cur s c v) = sc_fair_ready_bitmap s"
  by (simp_all add: set_cur_def)

lemma cpu_mask_bit: "bit (cpu_mask n) c \<longleftrightarrow> c < n \<and> c < 64"
proof (cases "n \<ge> 64")
  case True
  then show ?thesis by (auto simp: cpu_mask_def max_of_def)
next
  case False
  have "push_bit n (1 :: u64) - 1 = mask n"
    by (simp add: mask_eq_exp_minus_1 push_bit_eq_mult)
  with False show ?thesis by (auto simp: cpu_mask_def bit_mask_iff)
qed

end
