(* ===== verification/Sched_Core.thy ===== *)
theory Sched_Core
  imports Sched_Types
begin

text \<open>
  The scheduler's private machinery (\<open>kernel/core/src/sched.rs\<close>): the walks
  up the resource-group tree, group accounting, the runnable indexes, and the
  choice of the next task on a CPU. The public operations are in theory
  Sched_Ops.

  The three walks follow \<open>parent_id\<close> links in a \<open>while let\<close> loop. They are
  modelled with fuel \<open>Suc (length groups)\<close>; \<open>chain_ends\<close> says that a walk
  stops, and \<open>groups_acyclic\<close> that all of them do. Theory Sched_Groups proves
  that the fuel is enough exactly then, against the loops as partial functions.
\<close>

section \<open>Walks up the group tree\<close>

definition find_group :: "resource_group list \<Rightarrow> u32 \<Rightarrow> resource_group option" where
  "find_group gs i = List.find (\<lambda>g. rg_id g = i) gs"

fun chain_ends :: "nat \<Rightarrow> resource_group list \<Rightarrow> u32 option \<Rightarrow> bool" where
  "chain_ends n gs None = True"
| "chain_ends 0 gs (Some i) = False"
| "chain_ends (Suc n) gs (Some i) =
     (case find_group gs i of None \<Rightarrow> True | Some g \<Rightarrow> chain_ends n gs (rg_parent_id g))"

definition groups_acyclic :: "resource_group list \<Rightarrow> bool" where
  "groups_acyclic gs \<longleftrightarrow> (\<forall>g\<in>set gs. chain_ends (Suc (length gs)) gs (Some (rg_id g)))"

text \<open>The budget of one quota window and whether a group has used it up.\<close>

definition quota_budget :: "resource_group \<Rightarrow> u64" where
  "quota_budget g = sat_mul CPU_QUOTA_WINDOW_NS (ucast (rg_max_utilization_permille g)) div 1000"

definition quota_exhausted :: "resource_group \<Rightarrow> bool" where
  "quota_exhausted g \<longleftrightarrow> rg_max_utilization_permille g \<noteq> 0 \<and> rg_quota_used_ns g \<ge> quota_budget g"

fun group_has_quota_loop :: "nat \<Rightarrow> resource_group list \<Rightarrow> u32 option \<Rightarrow> bool" where
  "group_has_quota_loop n gs None = True"
| "group_has_quota_loop 0 gs (Some i) = False"
| "group_has_quota_loop (Suc n) gs (Some i) =
     (case find_group gs i of
        None \<Rightarrow> False
      | Some g \<Rightarrow> if quota_exhausted g then False
                 else group_has_quota_loop n gs (rg_parent_id g))"

definition group_has_quota :: "scheduler \<Rightarrow> u32 \<Rightarrow> bool" where
  "group_has_quota s i = group_has_quota_loop (Suc (length (sc_groups s))) (sc_groups s) (Some i)"

fun group_allows_realtime_loop :: "nat \<Rightarrow> resource_group list \<Rightarrow> u32 option \<Rightarrow> bool" where
  "group_allows_realtime_loop n gs None = True"
| "group_allows_realtime_loop 0 gs (Some i) = False"
| "group_allows_realtime_loop (Suc n) gs (Some i) =
     (case find_group gs i of
        None \<Rightarrow> False
      | Some g \<Rightarrow> if \<not> rg_allow_realtime g then False
                 else group_allows_realtime_loop n gs (rg_parent_id g))"

definition group_allows_realtime :: "scheduler \<Rightarrow> u32 \<Rightarrow> bool" where
  "group_allows_realtime s i =
     group_allows_realtime_loop (Suc (length (sc_groups s))) (sc_groups s) (Some i)"

section \<open>Group accounting\<close>

text \<open>One round of the loop of \<open>add_group_tick\<close>: what it does to the group.\<close>

definition charge_group :: "u64 \<Rightarrow> bool \<Rightarrow> u64 \<Rightarrow> resource_group \<Rightarrow> resource_group" where
  "charge_group now charge_fair_runtime elapsed_ns g =
     (let g1 = (if sat_sub now (rg_quota_window_start_ns g) \<ge> CPU_QUOTA_WINDOW_NS
                then g\<lparr> rg_quota_window_start_ns := now, rg_quota_used_ns := 0 \<rparr> else g);
          g2 = g1\<lparr> rg_cpu_ticks := sat_add (rg_cpu_ticks g1) 1,
                   rg_cpu_time_ns := sat_add (rg_cpu_time_ns g1) elapsed_ns,
                   rg_quota_used_ns := sat_add (rg_quota_used_ns g1) elapsed_ns \<rparr>
      in if charge_fair_runtime
         then g2\<lparr> rg_fair_vruntime := sat_add (rg_fair_vruntime g2)
                    (sat_mul (sat_mul elapsed_ns 1024) 1024 div ucast (rg_cpu_shares g2)) \<rparr>
         else g2)"

fun add_group_tick_loop ::
    "nat \<Rightarrow> u64 \<Rightarrow> bool \<Rightarrow> u64 \<Rightarrow> u32 option \<Rightarrow> resource_group list \<Rightarrow> resource_group list" where
  "add_group_tick_loop n now fair el None gs = gs"
| "add_group_tick_loop 0 now fair el (Some i) gs = gs"
| "add_group_tick_loop (Suc n) now fair el (Some i) gs =
     (case find_group gs i of
        None \<Rightarrow> gs
      | Some g \<Rightarrow> add_group_tick_loop n now fair el (rg_parent_id g)
                    (upd_first (\<lambda>g. rg_id g = i) (charge_group now fair el) gs))"

definition add_group_tick :: "u32 \<Rightarrow> bool \<Rightarrow> u64 \<Rightarrow> scheduler \<Rightarrow> scheduler" where
  "add_group_tick i fair el s =
     s\<lparr> sc_groups := add_group_tick_loop (Suc (length (sc_groups s))) (sc_now_ns s) fair el
                       (Some i) (sc_groups s) \<rparr>"

definition runnable_vruntimes :: "resource_group list \<Rightarrow> u64 list" where
  "runnable_vruntimes gs = map rg_fair_vruntime (filter (\<lambda>g. rg_runnable_tasks g \<noteq> 0) gs)"

definition max_group_lag :: u64 where
  "max_group_lag = sat_mul (sat_mul DEFAULT_FAIR_QUANTUM_NS 1024) MAX_FAIR_GROUP_LAG_QUANTA"

definition clamp_runnable_group_lag :: "scheduler \<Rightarrow> scheduler" where
  "clamp_runnable_group_lag s =
     (case iter_min (runnable_vruntimes (sc_groups s)) of
        None \<Rightarrow> s
      | Some min_vruntime \<Rightarrow>
          let max_vruntime = sat_add min_vruntime max_group_lag
          in s\<lparr> sc_groups := map (\<lambda>g. if rg_runnable_tasks g \<noteq> 0
                    then g\<lparr> rg_fair_vruntime := min (rg_fair_vruntime g) max_vruntime \<rparr>
                    else g) (sc_groups s) \<rparr>)"

definition add_group_tick_if_present :: "(u32 \<times> bool) option \<Rightarrow> u64 \<Rightarrow> scheduler \<Rightarrow> scheduler" where
  "add_group_tick_if_present tick_group elapsed_ns s =
     (case tick_group of
        None \<Rightarrow> s
      | Some (i, charge_fair_runtime) \<Rightarrow>
          let s1 = add_group_tick i charge_fair_runtime elapsed_ns s
          in if charge_fair_runtime then clamp_runnable_group_lag s1 else s1)"

section \<open>Runnable indexes\<close>

definition set_ready_priority :: "u64 list \<Rightarrow> u8 \<Rightarrow> u64 list" where
  "set_ready_priority bitmap priority =
     (let p = unat priority
      in bitmap[p div 64 := bitmap ! (p div 64) OR push_bit (p mod 64) 1])"

text \<open>\<open>u64::leading_zeros\<close>.\<close>

definition leading_zeros :: "'a::len word \<Rightarrow> nat" where
  "leading_zeros w = length (takeWhile (\<lambda>i. \<not> bit w i) (rev [0..<LENGTH('a)]))"

fun highest_ready_priority_loop :: "nat list \<Rightarrow> u64 list \<Rightarrow> u8 option" where
  "highest_ready_priority_loop [] bitmap = None"
| "highest_ready_priority_loop (word_index # rest) bitmap =
     (let w = bitmap ! word_index
      in if w \<noteq> 0 then Some (of_nat (word_index * 64 + (63 - leading_zeros w)))
         else highest_ready_priority_loop rest bitmap)"

definition highest_ready_priority :: "u64 list \<Rightarrow> u8 option" where
  "highest_ready_priority bitmap =
     highest_ready_priority_loop (rev [0..<FAIR_PRIORITY_WORDS]) bitmap"

text \<open>One task's contribution to \<open>rebuild_runnable_indexes\<close>.\<close>

definition index_task ::
    "scheduler_task \<Rightarrow> resource_group list \<times> u64 list \<Rightarrow> resource_group list \<times> u64 list" where
  "index_task t = (\<lambda>(gs, bm).
     ((if tk_state t = Ready \<or> tk_state t = Running
       then upd_first (\<lambda>g. rg_id g = tk_resource_group_id t)
              (\<lambda>g. g\<lparr> rg_runnable_tasks := sat_add (rg_runnable_tasks g) 1 \<rparr>) gs
       else gs),
      (if tk_state t = Ready \<and> tk_deadline t = None
       then set_ready_priority bm (tk_effective_priority t) else bm)))"

definition rebuild_runnable_indexes :: "scheduler \<Rightarrow> scheduler" where
  "rebuild_runnable_indexes s =
     (let (gs, bm) = fold index_task (sc_tasks s)
            (map (\<lambda>g. g\<lparr> rg_runnable_tasks := 0 \<rparr>) (sc_groups s),
             replicate FAIR_PRIORITY_WORDS 0)
      in s\<lparr> sc_groups := gs, sc_fair_ready_bitmap := bm \<rparr>)"

section \<open>Choosing the next task\<close>

definition task_can_run_on_cpu :: "scheduler_task \<Rightarrow> nat \<Rightarrow> bool" where
  "task_can_run_on_cpu t cpu \<longleftrightarrow> tk_cpu_affinity_mask t AND push_bit cpu 1 \<noteq> 0"

definition is_running_elsewhere :: "scheduler \<Rightarrow> u64 \<Rightarrow> nat \<Rightarrow> bool" where
  "is_running_elsewhere s i cpu =
     list_ex (\<lambda>(index, current). index \<noteq> cpu \<and> current = Some i)
       (enumerate 0 (sc_current_task_ids s))"

text \<open>The filter every selection applies to the task list.\<close>

definition dispatchable :: "scheduler \<Rightarrow> nat \<Rightarrow> scheduler_task \<Rightarrow> bool" where
  "dispatchable s cpu t \<longleftrightarrow>
     tk_state t = Ready \<and> task_can_run_on_cpu t cpu \<and> \<not> is_running_elsewhere s (tk_id t) cpu"

definition fair_dispatchable :: "scheduler \<Rightarrow> nat \<Rightarrow> u32 \<Rightarrow> scheduler_task \<Rightarrow> bool" where
  "fair_dispatchable s cpu group_id t \<longleftrightarrow>
     tk_resource_group_id t = group_id \<and> tk_deadline t = None \<and> dispatchable s cpu t"

definition deadline_key :: "scheduler_task \<Rightarrow> (u64 \<times> u64) option" where
  "deadline_key t =
     (case tk_deadline t of
        None \<Rightarrow> None
      | Some d \<Rightarrow> if ed_remaining_budget_ns d > 0
                 then Some (tk_id t, ed_absolute_deadline_ns d) else None)"

definition next_deadline_ready :: "scheduler \<Rightarrow> nat \<Rightarrow> u64 option" where
  "next_deadline_ready s cpu =
     map_option fst (min_by_key snd
       (List.map_filter deadline_key (filter (dispatchable s cpu) (sc_tasks s))))"

definition next_fair_group :: "scheduler \<Rightarrow> nat \<Rightarrow> u32 option" where
  "next_fair_group s cpu =
     map_option rg_id (min_by_key rg_fair_vruntime
       (filter (\<lambda>g. list_ex (fair_dispatchable s cpu (rg_id g)) (sc_tasks s))
         (filter (\<lambda>g. group_has_quota s (rg_id g)) (sc_groups s))))"

definition fair_ready_bitmap_for_group :: "scheduler \<Rightarrow> u32 \<Rightarrow> nat \<Rightarrow> u64 list" where
  "fair_ready_bitmap_for_group s group_id cpu =
     fold (\<lambda>t bm. if fair_dispatchable s cpu group_id t
                  then set_ready_priority bm (tk_effective_priority t) else bm)
       (sc_tasks s) (replicate FAIR_PRIORITY_WORDS 0)"

definition find_cursor :: "scheduler \<Rightarrow> u32 \<Rightarrow> nat \<Rightarrow> u64 option" where
  "find_cursor s group_id cpu =
     (case List.find (\<lambda>(g, c, _). g = group_id \<and> c = cpu) (sc_fair_task_cursors s) of
        None \<Rightarrow> None | Some (_, _, task_id) \<Rightarrow> task_id)"

definition set_cursor :: "u32 \<Rightarrow> nat \<Rightarrow> u64 \<Rightarrow> scheduler \<Rightarrow> scheduler" where
  "set_cursor group_id cpu i s =
     s\<lparr> sc_fair_task_cursors :=
          upd_first (\<lambda>(g, c, _). g = group_id \<and> c = cpu) (\<lambda>(g, c, _). (g, c, Some i))
            (sc_fair_task_cursors s) \<rparr>"

text \<open>Where the round-robin search starts: after the task the cursor names.\<close>

definition rr_start :: "scheduler \<Rightarrow> u64 option \<Rightarrow> nat" where
  "rr_start s previous =
     (case previous of
        None \<Rightarrow> 0
      | Some i \<Rightarrow>
          (case position (\<lambda>t. tk_id t = i) (sc_tasks s) of
             None \<Rightarrow> 0
           | Some index \<Rightarrow> if sc_tasks s = [] then 0 else (index + 1) mod length (sc_tasks s)))"

text \<open>The task the search looks at in round \<open>offset\<close>, and the test it applies.\<close>

definition rr_task :: "scheduler \<Rightarrow> nat \<Rightarrow> nat \<Rightarrow> scheduler_task" where
  "rr_task s start_index offset = sc_tasks s ! ((start_index + offset) mod length (sc_tasks s))"

definition rr_match :: "scheduler \<Rightarrow> nat \<Rightarrow> u32 \<Rightarrow> u8 \<Rightarrow> scheduler_task \<Rightarrow> bool" where
  "rr_match s cpu group_id priority t \<longleftrightarrow>
     fair_dispatchable s cpu group_id t \<and> tk_effective_priority t = priority"

definition next_fair_ready :: "scheduler \<Rightarrow> nat \<Rightarrow> scheduler \<times> u64 option" where
  "next_fair_ready s cpu =
     (case next_fair_group s cpu of
        None \<Rightarrow> (s, None)
      | Some group_id \<Rightarrow>
          (case highest_ready_priority (fair_ready_bitmap_for_group s group_id cpu) of
             None \<Rightarrow> (s, None)
           | Some priority \<Rightarrow>
               let start_index = rr_start s (find_cursor s group_id cpu)
               in case List.find (\<lambda>offset. rr_match s cpu group_id priority
                                             (rr_task s start_index offset))
                         [0..<length (sc_tasks s)] of
                    None \<Rightarrow> (s, None)
                  | Some offset \<Rightarrow>
                      let i = tk_id (rr_task s start_index offset)
                      in (set_cursor group_id cpu i s, Some i)))"

text \<open>The replenishment at the head of \<open>schedule_next_on_cpu\<close>.\<close>

definition refill_deadline :: "u64 \<Rightarrow> effective_deadline \<Rightarrow> effective_deadline" where
  "refill_deadline now d =
     (let start = sat_sub (ed_absolute_deadline_ns d) (dp_deadline_ns (ed_profile d));
          periods = sat_sub now start div dp_period_ns (ed_profile d)
      in if periods > 0
         then d\<lparr> ed_absolute_deadline_ns := sat_add (ed_absolute_deadline_ns d)
                   (sat_mul periods (dp_period_ns (ed_profile d))),
                 ed_remaining_budget_ns := dp_capacity_ns (ed_profile d) \<rparr>
         else d)"

definition refill_task :: "u64 \<Rightarrow> scheduler_task \<Rightarrow> scheduler_task" where
  "refill_task now t =
     (if tk_state t = Running then t
      else t\<lparr> tk_deadline := map_option (refill_deadline now) (tk_deadline t) \<rparr>)"

definition replenish :: "scheduler \<Rightarrow> scheduler" where
  "replenish s = s\<lparr> sc_tasks := map (refill_task (sc_now_ns s)) (sc_tasks s) \<rparr>"

definition select_next :: "scheduler \<Rightarrow> nat \<Rightarrow> scheduler \<times> u64 option" where
  "select_next s cpu =
     (case next_deadline_ready s cpu of
        Some i \<Rightarrow> (s, Some i)
      | None \<Rightarrow> next_fair_ready s cpu)"

definition start_running :: "u64 \<Rightarrow> nat \<Rightarrow> scheduler_task \<Rightarrow> scheduler_task" where
  "start_running now cpu t =
     t\<lparr> tk_state := Running, tk_quantum_left := DEFAULT_QUANTUM_TICKS,
        tk_quantum_deadline_ns := sat_add now DEFAULT_FAIR_QUANTUM_NS,
        tk_assigned_cpu := Some cpu \<rparr>"

definition schedule_next_on_cpu :: "scheduler \<Rightarrow> nat \<Rightarrow> scheduler \<times> u64 option" where
  "schedule_next_on_cpu s cpu =
     (let (s1, next) = select_next (replenish s) cpu;
          s2 = set_cur s1 cpu next
      in (case next of
            None \<Rightarrow> (s2, None)
          | Some next_id \<Rightarrow> (task_upd next_id (start_running (sc_now_ns s2) cpu) s2, Some next_id)))"

end
