(* ===== verification/Sched_Ops.thy ===== *)
theory Sched_Ops
  imports Sched_Core
begin

text \<open>
  The public operations of the scheduler: \<open>kernel/core/src/sched.rs\<close>, the
  execution-time accounting of \<open>sched/runtime.rs\<close> and the process-wide holds
  of \<open>sched/quiescence.rs\<close>. Every operation returns the state it leaves
  behind together with its result, also on the error paths.
\<close>

section \<open>Resource groups\<close>

definition new_group ::
    "scheduler \<Rightarrow> u32 \<Rightarrow> u32 option \<Rightarrow> u32 \<Rightarrow> u16 \<Rightarrow> bool \<Rightarrow> resource_group" where
  "new_group s i parent_id cpu_shares max_utilization_permille allow_realtime = \<lparr>
     rg_id = i,
     rg_parent_id = parent_id,
     rg_cpu_shares = cpu_shares,
     rg_max_utilization_permille = max_utilization_permille,
     rg_allow_realtime = allow_realtime,
     rg_fair_vruntime = (case iter_min (runnable_vruntimes (sc_groups s)) of
                           None \<Rightarrow> 0 | Some v \<Rightarrow> v),
     rg_cpu_ticks = 0,
     rg_cpu_time_ns = 0,
     rg_quota_window_start_ns = sc_now_ns s,
     rg_quota_used_ns = 0,
     rg_runnable_tasks = 0 \<rparr>"

definition ensure_resource_group_with_limits ::
    "reserve_site allocator \<Rightarrow> scheduler \<Rightarrow> u32 \<Rightarrow> u32 option \<Rightarrow> u32 \<Rightarrow> u16 \<Rightarrow> bool
      \<Rightarrow> scheduler \<times> (scheduler_error + unit)" where
  "ensure_resource_group_with_limits al s i parent_id cpu_shares max_utilization_permille
       allow_realtime =
     (if i = 0 \<or> cpu_shares = 0 \<or> max_utilization_permille > 1000 then (s, Inl InvalidTask)
      else if parent_id = Some i \<or>
              (case parent_id of None \<Rightarrow> False
               | Some parent \<Rightarrow> \<not> list_ex (\<lambda>g. rg_id g = parent) (sc_groups s))
           then (s, Inl InvalidTask)
      else (case find_group (sc_groups s) i of
              Some g \<Rightarrow>
                if rg_parent_id g \<noteq> parent_id \<and> rg_parent_id g \<noteq> None then (s, Inl AccessDenied)
                else (s\<lparr> sc_groups := upd_first (\<lambda>g. rg_id g = i)
                           (\<lambda>g. g\<lparr> rg_parent_id := parent_id,
                                   rg_cpu_shares := cpu_shares,
                                   rg_max_utilization_permille := max_utilization_permille,
                                   rg_allow_realtime := allow_realtime \<rparr>) (sc_groups s) \<rparr>,
                      Inr ())
            | None \<Rightarrow>
                if \<not> al ReserveGroups (length (sc_groups s)) then (s, Inl Full)
                else if \<not> al ReserveCursors (length (sc_fair_task_cursors s)) then (s, Inl Full)
                else (s\<lparr> sc_groups := sc_groups s @
                           [new_group s i parent_id cpu_shares max_utilization_permille
                              allow_realtime],
                         sc_fair_task_cursors := sc_fair_task_cursors s @
                           map (\<lambda>cpu. (i, cpu, None)) [0..<cpu_count s] \<rparr>,
                      Inr ())))"

definition ensure_resource_group ::
    "reserve_site allocator \<Rightarrow> scheduler \<Rightarrow> u32 \<Rightarrow> scheduler \<times> (scheduler_error + unit)" where
  "ensure_resource_group al s i =
     (if list_ex (\<lambda>g. rg_id g = i) (sc_groups s) then (s, Inr ())
      else ensure_resource_group_with_limits al s i None 1024 0 True)"

definition ensure_resource_group_with_shares ::
    "reserve_site allocator \<Rightarrow> scheduler \<Rightarrow> u32 \<Rightarrow> u32 \<Rightarrow> scheduler \<times> (scheduler_error + unit)" where
  "ensure_resource_group_with_shares al s i cpu_shares =
     ensure_resource_group_with_limits al s i None cpu_shares 0 True"

definition set_resource_group_shares ::
    "scheduler \<Rightarrow> u32 \<Rightarrow> u32 \<Rightarrow> scheduler \<times> (scheduler_error + unit)" where
  "set_resource_group_shares s i cpu_shares =
     (if cpu_shares = 0 then (s, Inl InvalidTask)
      else case find_group (sc_groups s) i of
             None \<Rightarrow> (s, Inl InvalidTask)
           | Some _ \<Rightarrow> (s\<lparr> sc_groups := upd_first (\<lambda>g. rg_id g = i)
                             (\<lambda>g. g\<lparr> rg_cpu_shares := cpu_shares \<rparr>) (sc_groups s) \<rparr>, Inr ()))"

definition set_resource_group_limits ::
    "scheduler \<Rightarrow> u32 \<Rightarrow> u32 \<Rightarrow> u16 \<Rightarrow> bool \<Rightarrow> scheduler \<times> (scheduler_error + unit)" where
  "set_resource_group_limits s i cpu_shares max_utilization_permille allow_realtime =
     (if cpu_shares = 0 \<or> max_utilization_permille > 1000 then (s, Inl InvalidTask)
      else case find_group (sc_groups s) i of
             None \<Rightarrow> (s, Inl InvalidTask)
           | Some _ \<Rightarrow>
               (s\<lparr> sc_groups := upd_first (\<lambda>g. rg_id g = i)
                     (\<lambda>g. g\<lparr> rg_cpu_shares := cpu_shares,
                             rg_max_utilization_permille := max_utilization_permille,
                             rg_allow_realtime := allow_realtime \<rparr>) (sc_groups s) \<rparr>, Inr ()))"

section \<open>Idle CPUs and new tasks\<close>

text \<open>The loop \<open>for cpu_id in 0..self.cpu_count()\<close> that fills idle CPUs.\<close>

definition fill_cpu :: "nat \<Rightarrow> scheduler \<Rightarrow> scheduler" where
  "fill_cpu cpu s = (if cur s cpu = None then fst (schedule_next_on_cpu s cpu) else s)"

definition fill_idle :: "scheduler \<Rightarrow> scheduler" where
  "fill_idle s = fold fill_cpu [0..<cpu_count s] s"

definition register ::
    "reserve_site allocator \<Rightarrow> accounting \<Rightarrow> u64 \<Rightarrow> u64 \<Rightarrow> accounting \<times> (scheduler_error + unit)" where
  "register al a i process =
     (if list_ex (\<lambda>t. fst t = i) (ac_threads a) then (a, Inl AlreadyExists)
      else if \<not> al ReserveThreads (length (ac_threads a)) then (a, Inl Full)
      else (a\<lparr> ac_threads := ac_threads a @ [(i, process, 0)] \<rparr>, Inr ()))"

text \<open>
  A group that becomes active again starts at the least virtual time of the
  runnable groups.
\<close>

definition rebase_group :: "u32 \<Rightarrow> scheduler \<Rightarrow> scheduler" where
  "rebase_group i s =
     (case iter_min (runnable_vruntimes (sc_groups s)) of
        None \<Rightarrow> s
      | Some baseline \<Rightarrow>
          s\<lparr> sc_groups := upd_first (\<lambda>g. rg_id g = i \<and> rg_runnable_tasks g = 0)
               (\<lambda>g. g\<lparr> rg_fair_vruntime := baseline \<rparr>) (sc_groups s) \<rparr>)"

definition add_task ::
    "reserve_site allocator \<Rightarrow> scheduler \<Rightarrow> scheduler_task \<Rightarrow> scheduler \<times> (scheduler_error + unit)" where
  "add_task al s task =
     (if list_ex (\<lambda>t. tk_id t = tk_id task) (sc_tasks s) then (s, Inl AlreadyExists)
      else
        let s1 = (if sc_current_task_ids s = [] then s\<lparr> sc_current_task_ids := [None] \<rparr> else s);
            task1 = task\<lparr> tk_cpu_affinity_mask :=
                            tk_cpu_affinity_mask task AND active_cpu_mask s1 \<rparr>
        in if tk_cpu_affinity_mask task1 = 0 then (s1, Inl InvalidTask)
           else case ensure_resource_group al s1 (tk_resource_group_id task1) of
             (s2, Inl e) \<Rightarrow> (s2, Inl e)
           | (s2, Inr _) \<Rightarrow>
               let s3 = rebase_group (tk_resource_group_id task1) s2
               in if \<not> al ReserveTasks (length (sc_tasks s3)) then (s3, Inl Full)
                  else case register al (sc_runtime s3) (tk_id task1) (tk_process_id task1) of
                    (_, Inl e) \<Rightarrow> (s3, Inl e)
                  | (rt, Inr _) \<Rightarrow>
                      (fill_idle (rebuild_runnable_indexes
                         (s3\<lparr> sc_runtime := rt, sc_tasks := sc_tasks s3 @ [task1] \<rparr>)), Inr ()))"

section \<open>Execution-time accounting\<close>

definition charge_thread :: "u64 \<Rightarrow> u64 \<Rightarrow> (u64 \<times> u64 \<times> u64) list \<Rightarrow> (u64 \<times> u64 \<times> u64) list" where
  "charge_thread elapsed i =
     upd_first (\<lambda>t. fst t = i) (\<lambda>(t, p, ns). (t, p, sat_add ns elapsed))"

definition charge_budget :: "u64 \<Rightarrow> scheduler_task \<Rightarrow> scheduler_task" where
  "charge_budget el t =
     t\<lparr> tk_deadline := map_option (\<lambda>d. d\<lparr> ed_remaining_budget_ns :=
                                           sat_sub (ed_remaining_budget_ns d) el \<rparr>) (tk_deadline t) \<rparr>"

definition account_cpu :: "u64 \<Rightarrow> u64 \<Rightarrow> nat \<Rightarrow> scheduler \<Rightarrow> scheduler" where
  "account_cpu elapsed budget_elapsed cpu s =
     (case cur s cpu of
        None \<Rightarrow> s
      | Some i \<Rightarrow>
          task_upd i (charge_budget budget_elapsed)
            (s\<lparr> sc_runtime := (sc_runtime s)\<lparr> ac_threads :=
                 charge_thread elapsed i (ac_threads (sc_runtime s)) \<rparr> \<rparr>))"

definition account_runtime :: "u64 \<Rightarrow> scheduler \<Rightarrow> scheduler" where
  "account_runtime now_ns s =
     (let last_ns = ac_last_ns (sc_runtime s)
      in if (case last_ns of None \<Rightarrow> False | Some l \<Rightarrow> now_ns < l) then s
         else
           let budget_elapsed = (case last_ns of Some l \<Rightarrow> now_ns - l
                                 | None \<Rightarrow> sat_sub now_ns (sc_now_ns s));
               elapsed = (case last_ns of Some l \<Rightarrow> now_ns - l | None \<Rightarrow> 0);
               s1 = s\<lparr> sc_runtime := (sc_runtime s)\<lparr> ac_last_ns := Some now_ns, ac_legacy := False \<rparr> \<rparr>
           in fold (account_cpu elapsed budget_elapsed) [0..<length (sc_current_task_ids s1)] s1)"

definition account_executing :: "nat \<Rightarrow> u64 \<Rightarrow> u64 \<Rightarrow> scheduler \<Rightarrow> scheduler" where
  "account_executing cpu thread now s =
     (if cpu \<ge> length (sc_current_task_ids s) then s
      else let saved = cur s cpu
           in set_cur (account_runtime now (set_cur s cpu (Some thread))) cpu saved)"

definition runtime_stats :: "scheduler \<Rightarrow> u64 \<Rightarrow> (u64 \<times> u64) option" where
  "runtime_stats s thread_id =
     (case List.find (\<lambda>t. fst t = thread_id) (ac_threads (sc_runtime s)) of
        None \<Rightarrow> None
      | Some (_, p, ns) \<Rightarrow>
          Some (ns, fold (\<lambda>t acc. sat_add acc (snd (snd t)))
                      (filter (\<lambda>t. fst (snd t) = p) (ac_threads (sc_runtime s))) 0))"

section \<open>Waking\<close>

text \<open>What \<open>wake_task\<close> does to the task it names.\<close>

definition wake_record :: "scheduler_task \<Rightarrow> scheduler_task" where
  "wake_record t =
     (if tk_state t = Blocked \<or> tk_state t = Suspended
      then t\<lparr> tk_state := Ready, tk_block_reason := None, tk_quantum_left := DEFAULT_QUANTUM_TICKS \<rparr>
      else if tk_state t = Quiesced \<or> tk_state t = Stopped then t\<lparr> tk_block_reason := None \<rparr>
      else t)"

definition wake_task :: "scheduler \<Rightarrow> u64 \<Rightarrow> scheduler \<times> (scheduler_error + unit)" where
  "wake_task s i =
     (case task_of s i of
        None \<Rightarrow> (s, Inl InvalidTask)
      | Some _ \<Rightarrow> (fill_idle (rebuild_runnable_indexes (task_upd i wake_record s)), Inr ()))"

text \<open>The loop \<open>for id in ids { if self.wake_task(id).is_ok() { woken += 1 } }\<close>.\<close>

definition wake_all :: "u64 list \<Rightarrow> scheduler \<Rightarrow> scheduler \<times> nat" where
  "wake_all ids s =
     fold (\<lambda>i (s, woken). let (s', r) = wake_task s i
                          in (s', if is_ok r then woken + 1 else woken)) ids (s, 0)"

definition wait_many_matches :: "(u64 \<times> u32) list \<Rightarrow> u8 \<Rightarrow> u64 \<Rightarrow> u32 \<Rightarrow> bool" where
  "wait_many_matches items item_count handle signals =
     list_ex (\<lambda>(waited, wanted). waited = handle \<and> wanted AND signals \<noteq> 0)
       (take (unat item_count) items)"

definition waits_for_handle :: "u64 \<Rightarrow> u32 \<Rightarrow> scheduler_task \<Rightarrow> bool" where
  "waits_for_handle handle signals t =
     (case tk_block_reason t of
        Some (HandleSignals waited wanted) \<Rightarrow> waited = handle \<and> wanted AND signals \<noteq> 0
      | Some (WaitMany items item_count _) \<Rightarrow> wait_many_matches items item_count handle signals
      | _ \<Rightarrow> False)"

definition wake_handle_waiters :: "scheduler \<Rightarrow> u64 \<Rightarrow> u32 \<Rightarrow> scheduler \<times> nat" where
  "wake_handle_waiters s handle signals =
     wake_all (map tk_id (filter (waits_for_handle handle signals) (sc_tasks s))) s"

text \<open>The time at which a task's wait ends, for the three timed waits.\<close>

definition wait_deadline :: "scheduler_task \<Rightarrow> u64 option" where
  "wait_deadline t =
     (case tk_block_reason t of
        Some (SleepUntil d) \<Rightarrow> Some d
      | Some (WaitMany _ _ d) \<Rightarrow> Some d
      | Some (FutexUntil _ d) \<Rightarrow> Some d
      | _ \<Rightarrow> None)"

definition wait_expired :: "u64 \<Rightarrow> scheduler_task \<Rightarrow> bool" where
  "wait_expired now t = (case wait_deadline t of None \<Rightarrow> False | Some d \<Rightarrow> d \<le> now)"

definition wake_expired_deadlines :: "scheduler \<Rightarrow> scheduler \<times> nat" where
  "wake_expired_deadlines s =
     wake_all (map tk_id (filter (wait_expired (sc_now_ns s)) (sc_tasks s))) s"

section \<open>Timer events\<close>

definition replenish_time :: "effective_deadline \<Rightarrow> u64" where
  "replenish_time d =
     sat_add (sat_sub (ed_absolute_deadline_ns d) (dp_deadline_ns (ed_profile d)))
       (dp_period_ns (ed_profile d))"

definition next_deadline_on_cpu :: "scheduler \<Rightarrow> nat \<Rightarrow> scheduler_error + u64 option" where
  "next_deadline_on_cpu s cpu =
     (if \<not> ensure_cpu_id s cpu then Inl InvalidTask
      else
        let running_deadline =
              (case current_on_cpu s cpu of
                 None \<Rightarrow> None
               | Some t \<Rightarrow>
                   (case tk_deadline t of
                      Some d \<Rightarrow> Some (sat_add (sc_now_ns s) (ed_remaining_budget_ns d))
                    | None \<Rightarrow> if tk_quantum_deadline_ns t \<noteq> 0
                              then Some (tk_quantum_deadline_ns t) else None));
            wake_deadline = iter_min (List.map_filter wait_deadline (sc_tasks s));
            replenish_deadline =
              iter_min (map replenish_time
                (filter (\<lambda>d. ed_remaining_budget_ns d = 0)
                  (List.map_filter tk_deadline
                    (filter (\<lambda>t. tk_state t = Ready \<and> task_can_run_on_cpu t cpu) (sc_tasks s)))));
            wake_deadline' = iter_min (map the (filter (\<lambda>x. x \<noteq> None)
                               [wake_deadline, replenish_deadline]))
        in Inr (case (running_deadline, wake_deadline') of
                  (Some a, Some b) \<Rightarrow> Some (min a b)
                | (Some a, None) \<Rightarrow> Some a
                | (None, Some a) \<Rightarrow> Some a
                | (None, None) \<Rightarrow> None))"

text \<open>
  The inner part of \<open>tick_at_on_cpu\<close> for the task that was running: its new
  record, and whether it keeps the CPU.
\<close>

definition tick_record :: "u64 \<Rightarrow> scheduler_task \<Rightarrow> scheduler_task" where
  "tick_record now t =
     (let t1 = t\<lparr> tk_cpu_ticks := sat_add (tk_cpu_ticks t) 1 \<rparr>
      in case tk_deadline t1 of
           Some _ \<Rightarrow> t1
         | None \<Rightarrow>
             let t2 = t1\<lparr> tk_quantum_left := sat_sub (tk_quantum_left t1) 1 \<rparr>
             in if tk_quantum_deadline_ns t2 = 0
                then t2\<lparr> tk_quantum_deadline_ns := sat_add now DEFAULT_FAIR_QUANTUM_NS \<rparr> else t2)"

definition continue_running :: "u64 \<Rightarrow> scheduler_task \<Rightarrow> bool" where
  "continue_running now t =
     (case tk_deadline t of
        Some d \<Rightarrow> ed_remaining_budget_ns d > 0 \<and> tk_state t = Running
      | None \<Rightarrow> tk_quantum_left t > 0 \<and> tk_quantum_deadline_ns t > now \<and> tk_state t = Running)"

definition preempt_record :: "scheduler_task \<Rightarrow> scheduler_task" where
  "preempt_record t =
     (if tk_state t = Running
      then t\<lparr> tk_state := Ready, tk_quantum_left := DEFAULT_QUANTUM_TICKS \<rparr> else t)"

definition decision :: "u64 option \<Rightarrow> u64 option \<Rightarrow> nat \<Rightarrow> schedule_decision" where
  "decision previous next cpu =
     \<lparr> sd_previous_task_id = previous, sd_next_task_id = next, sd_cpu_id = cpu,
       sd_switched = (previous \<noteq> next) \<rparr>"

definition tick_reschedule ::
    "u64 option \<Rightarrow> nat \<Rightarrow> scheduler \<Rightarrow> scheduler \<times> (scheduler_error + schedule_decision)" where
  "tick_reschedule previous cpu s =
     (let (s', next) = schedule_next_on_cpu s cpu in (s', Inr (decision previous next cpu)))"

definition tick_at_on_cpu ::
    "scheduler \<Rightarrow> nat \<Rightarrow> u64 \<Rightarrow> scheduler \<times> (scheduler_error + schedule_decision)" where
  "tick_at_on_cpu s cpu now =
     (if \<not> ensure_cpu_id s cpu then (s, Inl InvalidTask)
      else if now < sc_now_ns s then (s, Inl InvalidTask)
      else
        let elapsed_ns = sat_sub now (sc_now_ns s);
            s1 = account_runtime now s;
            s2 = s1\<lparr> sc_now_ns := now, sc_total_ticks := sat_add (sc_total_ticks s1) 1 \<rparr>;
            s3 = fst (wake_expired_deadlines s2);
            previous = cur s3 cpu
        in case previous of
             None \<Rightarrow> tick_reschedule previous cpu s3
           | Some current_id \<Rightarrow>
               (case task_of s3 current_id of
                  None \<Rightarrow> tick_reschedule previous cpu s3
                | Some t \<Rightarrow>
                    let t' = tick_record now t;
                        tick_group = Some (tk_resource_group_id t', tk_deadline t' = None);
                        s4 = task_upd current_id (tick_record now) s3
                    in if continue_running now t'
                       then (add_group_tick_if_present tick_group elapsed_ns s4,
                             Inr (decision previous previous cpu))
                       else tick_reschedule previous cpu
                              (add_group_tick_if_present tick_group elapsed_ns
                                (task_upd current_id preempt_record s4))))"

definition tick_on_cpu :: "scheduler \<Rightarrow> nat \<Rightarrow> scheduler \<times> (scheduler_error + schedule_decision)" where
  "tick_on_cpu s cpu = tick_at_on_cpu s cpu (sat_add (sc_now_ns s) 1)"

definition tick :: "scheduler \<Rightarrow> scheduler \<times> schedule_decision" where
  "tick s =
     (case tick_at_on_cpu s 0 (sat_add (sc_now_ns s) 1) of
        (s', Inr d) \<Rightarrow> (s', d)
      | (s', Inl _) \<Rightarrow> (s', \<lparr> sd_previous_task_id = None, sd_next_task_id = None, sd_cpu_id = 0,
                              sd_switched = False \<rparr>))"

section \<open>Blocking, suspending, exiting\<close>

definition block_record :: "block_reason \<Rightarrow> scheduler_task \<Rightarrow> scheduler_task" where
  "block_record reason t =
     t\<lparr> tk_state := Blocked, tk_block_reason := Some reason,
        tk_quantum_left := DEFAULT_QUANTUM_TICKS \<rparr>"

definition block_current_on_cpu ::
    "scheduler \<Rightarrow> nat \<Rightarrow> block_reason \<Rightarrow> scheduler \<times> (scheduler_error + schedule_decision)" where
  "block_current_on_cpu s cpu reason =
     (if \<not> ensure_cpu_id s cpu then (s, Inl InvalidTask)
      else case cur s cpu of
             None \<Rightarrow> (s, Inl InvalidTask)
           | Some current_id \<Rightarrow>
               (case task_of s current_id of
                  None \<Rightarrow> (s, Inl InvalidTask)
                | Some _ \<Rightarrow>
                    tick_reschedule (Some current_id) cpu
                      (set_cur (rebuild_runnable_indexes
                         (task_upd current_id (block_record reason) s)) cpu None)))"

definition block_current ::
    "scheduler \<Rightarrow> block_reason \<Rightarrow> scheduler \<times> (scheduler_error + schedule_decision)" where
  "block_current s reason = block_current_on_cpu s 0 reason"

text \<open>
  A loop over all CPUs that takes one task off the CPU it runs on. The three
  operations that use it differ in the condition and in what else they do to
  the task.
\<close>

definition vacate_cpu :: "(nat \<Rightarrow> bool) \<Rightarrow> (scheduler \<Rightarrow> scheduler) \<Rightarrow> u64 \<Rightarrow> nat \<Rightarrow> scheduler \<Rightarrow> scheduler" where
  "vacate_cpu cond f i cpu s =
     (if cur s cpu = Some i \<and> cond cpu
      then fst (schedule_next_on_cpu (set_cur (f s) cpu None) cpu) else s)"

definition suspend_record :: "scheduler_task \<Rightarrow> scheduler_task" where
  "suspend_record t =
     (if tk_state t \<noteq> Exited
      then t\<lparr> tk_state := Suspended, tk_quantum_left := DEFAULT_QUANTUM_TICKS \<rparr> else t)"

definition suspend_task :: "scheduler \<Rightarrow> u64 \<Rightarrow> scheduler \<times> (scheduler_error + unit)" where
  "suspend_task s i =
     (case task_of s i of
        None \<Rightarrow> (s, Inl InvalidTask)
      | Some _ \<Rightarrow>
          let s1 = task_upd i suspend_record s;
              s2 = fold (vacate_cpu (\<lambda>_. True) (\<lambda>s. s) i) [0..<cpu_count s1] s1
          in (rebuild_runnable_indexes s2, Inr ()))"

definition exit_record :: "i32 \<Rightarrow> scheduler_task \<Rightarrow> scheduler_task" where
  "exit_record exit_code t =
     t\<lparr> tk_state := Exited, tk_exit_code := exit_code, tk_quantum_left := 0,
        tk_block_reason := None \<rparr>"

definition clear_cpu :: "u64 \<Rightarrow> nat \<Rightarrow> scheduler \<Rightarrow> scheduler" where
  "clear_cpu i cpu s = (if cur s cpu = Some i then set_cur s cpu None else s)"

definition exit_task :: "scheduler \<Rightarrow> u64 \<Rightarrow> i32 \<Rightarrow> scheduler \<times> (scheduler_error + unit)" where
  "exit_task s i exit_code =
     (case task_of s i of
        None \<Rightarrow> (s, Inl InvalidTask)
      | Some _ \<Rightarrow>
          let s1 = task_upd i (exit_record exit_code) s;
              s2 = fold (clear_cpu i) [0..<cpu_count s1] s1
          in (fill_idle (rebuild_runnable_indexes s2), Inr ()))"

text \<open>\<open>exit_current_on_cpu\<close> leaves the block reason of the task alone.\<close>

definition exit_current_record :: "i32 \<Rightarrow> scheduler_task \<Rightarrow> scheduler_task" where
  "exit_current_record exit_code t =
     t\<lparr> tk_state := Exited, tk_exit_code := exit_code, tk_quantum_left := 0 \<rparr>"

definition exit_current_on_cpu ::
    "scheduler \<Rightarrow> nat \<Rightarrow> i32 \<Rightarrow> scheduler \<times> (scheduler_error + schedule_decision)" where
  "exit_current_on_cpu s cpu exit_code =
     (if \<not> ensure_cpu_id s cpu then (s, Inl InvalidTask)
      else case cur s cpu of
             None \<Rightarrow> (s, Inl InvalidTask)
           | Some current_id \<Rightarrow>
               (case task_of s current_id of
                  None \<Rightarrow> (s, Inl InvalidTask)
                | Some _ \<Rightarrow>
                    tick_reschedule (Some current_id) cpu
                      (set_cur (rebuild_runnable_indexes
                         (task_upd current_id (exit_current_record exit_code) s)) cpu None)))"

definition exit_current :: "scheduler \<Rightarrow> i32 \<Rightarrow> scheduler \<times> (scheduler_error + schedule_decision)" where
  "exit_current s exit_code = exit_current_on_cpu s 0 exit_code"

definition cleanup_exited :: "scheduler \<Rightarrow> scheduler \<times> nat" where
  "cleanup_exited s =
     (let kept = filter (\<lambda>t. tk_state t \<noteq> Exited) (sc_tasks s);
          removed = length (filter (\<lambda>t. tk_state t = Exited) (sc_tasks s));
          active_ids = map tk_id kept
      in (rebuild_runnable_indexes
            (s\<lparr> sc_tasks := kept,
                sc_current_task_ids :=
                  map (\<lambda>current. case current of None \<Rightarrow> None
                         | Some i \<Rightarrow> if i \<notin> set active_ids then None else Some i)
                    (sc_current_task_ids s) \<rparr>), removed))"

section \<open>Profiles and priorities\<close>

definition fair_profile_record :: "fair_profile \<Rightarrow> scheduler_task \<Rightarrow> scheduler_task" where
  "fair_profile_record p t =
     t\<lparr> tk_priority := fp_priority p, tk_base_priority := fp_priority p,
        tk_effective_priority := fp_priority p, tk_fair_weight := fp_weight p,
        tk_deadline := None, tk_quantum_left := DEFAULT_QUANTUM_TICKS \<rparr>"

definition set_fair_profile ::
    "scheduler \<Rightarrow> u64 \<Rightarrow> fair_profile \<Rightarrow> scheduler \<times> (scheduler_error + unit)" where
  "set_fair_profile s i p =
     (if fp_priority p = 0 \<or> fp_weight p = 0 then (s, Inl InvalidTask)
      else case task_of s i of
             None \<Rightarrow> (s, Inl InvalidTask)
           | Some _ \<Rightarrow> (rebuild_runnable_indexes (task_upd i (fair_profile_record p) s), Inr ()))"

text \<open>
  \<open>utilization_ppm\<close> computes in \<open>u128\<close>: a 64-bit capacity times a million
  does not overflow there, so it is a natural number.
\<close>

definition utilization_ppm :: "deadline_profile \<Rightarrow> nat" where
  "utilization_ppm p = unat (dp_capacity_ns p) * 1000000 div unat (dp_period_ns p)"

definition task_utilization :: "scheduler_task \<Rightarrow> nat" where
  "task_utilization t =
     (case tk_deadline t of None \<Rightarrow> 0 | Some d \<Rightarrow> utilization_ppm (ed_profile d))"

definition admitted_utilization :: "(scheduler_task \<Rightarrow> bool) \<Rightarrow> scheduler_task list \<Rightarrow> nat" where
  "admitted_utilization p ts =
     sum_list (map task_utilization (filter (\<lambda>t. p t \<and> tk_state t \<noteq> Exited) ts))"

definition deadline_profile_record :: "u64 \<Rightarrow> deadline_profile \<Rightarrow> scheduler_task \<Rightarrow> scheduler_task" where
  "deadline_profile_record now p t =
     t\<lparr> tk_deadline := Some \<lparr> ed_profile = p,
                             ed_absolute_deadline_ns = sat_add now (dp_deadline_ns p),
                             ed_remaining_budget_ns = dp_capacity_ns p \<rparr>,
        tk_effective_priority := max_of, tk_priority := max_of,
        tk_quantum_left := DEFAULT_QUANTUM_TICKS \<rparr>"

definition set_deadline_profile ::
    "scheduler \<Rightarrow> u64 \<Rightarrow> deadline_profile \<Rightarrow> scheduler \<times> (scheduler_error + unit)" where
  "set_deadline_profile s i p =
     (if \<not> deadline_valid p then (s, Inl InvalidTask)
      else case task_of s i of
             None \<Rightarrow> (s, Inl InvalidTask)
           | Some t \<Rightarrow>
               if \<not> group_allows_realtime s (tk_resource_group_id t) then (s, Inl AccessDenied)
               else if admitted_utilization (\<lambda>t. tk_id t \<noteq> i) (sc_tasks s) + utilization_ppm p
                       > 1000000 then (s, Inl ResourceExhausted)
               else (rebuild_runnable_indexes
                       (task_upd i (deadline_profile_record (sc_now_ns s) p) s), Inr ()))"

definition set_profile ::
    "scheduler \<Rightarrow> u64 \<Rightarrow> scheduling_profile \<Rightarrow> scheduler \<times> (scheduler_error + unit)" where
  "set_profile s i profile =
     (case profile of
        Fair p \<Rightarrow> set_fair_profile s i p
      | Deadline p \<Rightarrow> set_deadline_profile s i p)"

definition donate_record :: "u8 \<Rightarrow> scheduler_task \<Rightarrow> scheduler_task" where
  "donate_record donated t =
     (if tk_deadline t = None \<and> donated > tk_effective_priority t
      then t\<lparr> tk_effective_priority := donated, tk_priority := donated \<rparr> else t)"

definition donate_priority ::
    "scheduler \<Rightarrow> u64 \<Rightarrow> u8 \<Rightarrow> scheduler \<times> (scheduler_error + unit)" where
  "donate_priority s owner_id donated_priority =
     (case task_of s owner_id of
        None \<Rightarrow> (s, Inl InvalidTask)
      | Some _ \<Rightarrow>
          (rebuild_runnable_indexes (task_upd owner_id (donate_record donated_priority) s), Inr ()))"

definition restore_record :: "scheduler_task \<Rightarrow> scheduler_task" where
  "restore_record t =
     (if tk_deadline t = None
      then t\<lparr> tk_effective_priority := tk_base_priority t, tk_priority := tk_base_priority t \<rparr>
      else t)"

definition restore_base_priority :: "scheduler \<Rightarrow> u64 \<Rightarrow> scheduler \<times> (scheduler_error + unit)" where
  "restore_base_priority s i =
     (case task_of s i of
        None \<Rightarrow> (s, Inl InvalidTask)
      | Some _ \<Rightarrow> (rebuild_runnable_indexes (task_upd i restore_record s), Inr ()))"

section \<open>Yielding and affinity\<close>

definition run_target_record :: "scheduler_task \<Rightarrow> scheduler_task" where
  "run_target_record t = t\<lparr> tk_state := Running, tk_quantum_left := DEFAULT_QUANTUM_TICKS \<rparr>"

definition set_state :: "task_state \<Rightarrow> scheduler_task \<Rightarrow> scheduler_task" where
  "set_state st t = t\<lparr> tk_state := st \<rparr>"

text \<open>Undirected yield: the yielding task is parked while a peer is chosen.\<close>

definition yield_undirected :: "u64 option \<Rightarrow> nat \<Rightarrow> scheduler \<Rightarrow> scheduler \<times> u64 option" where
  "yield_undirected yielded cpu s =
     (let s1 = (case yielded of None \<Rightarrow> s | Some i \<Rightarrow> task_upd i (set_state Suspended) s);
          (s2, next) = schedule_next_on_cpu s1 cpu;
          s3 = (case yielded of None \<Rightarrow> s2 | Some i \<Rightarrow> task_upd i (set_state Ready) s2)
      in if next = None then schedule_next_on_cpu s3 cpu else (s3, next))"

definition yield_directed :: "u64 \<Rightarrow> nat \<Rightarrow> scheduler \<Rightarrow> scheduler \<times> u64 option" where
  "yield_directed i cpu s = (task_upd i run_target_record (set_cur s cpu (Some i)), Some i)"

definition yield_current_to_on_cpu ::
    "scheduler \<Rightarrow> nat \<Rightarrow> u64 option \<Rightarrow> scheduler \<times> (scheduler_error + schedule_decision)" where
  "yield_current_to_on_cpu s cpu target_id =
     (if \<not> ensure_cpu_id s cpu then (s, Inl InvalidTask)
      else if (case target_id of
                 None \<Rightarrow> False
               | Some i \<Rightarrow> (case task_of s i of None \<Rightarrow> True
                           | Some target \<Rightarrow> \<not> dispatchable s cpu target))
           then (s, Inl InvalidTask)
      else
        let previous = cur s cpu;
            running = (case current_on_cpu s cpu of
                         None \<Rightarrow> None
                       | Some t \<Rightarrow> if tk_state t = Running then Some t else None);
            yielded_group = map_option (\<lambda>t. (tk_resource_group_id t, tk_deadline t = None)) running;
            yielded_current = map_option tk_id running;
            s1 = (case yielded_current of None \<Rightarrow> s | Some i \<Rightarrow> task_upd i (set_state Ready) s);
            s2 = add_group_tick_if_present yielded_group DEFAULT_FAIR_QUANTUM_NS s1;
            (s3, next) = (case target_id of
                            Some i \<Rightarrow> yield_directed i cpu s2
                          | None \<Rightarrow> yield_undirected yielded_current cpu s2)
        in (rebuild_runnable_indexes s3, Inr (decision previous next cpu)))"

definition yield_current_to ::
    "scheduler \<Rightarrow> u64 option \<Rightarrow> scheduler \<times> (scheduler_error + schedule_decision)" where
  "yield_current_to s target_id = yield_current_to_on_cpu s 0 target_id"

definition yield_current_to_at_on_cpu ::
    "scheduler \<Rightarrow> nat \<Rightarrow> u64 option \<Rightarrow> u64 \<Rightarrow> scheduler \<times> (scheduler_error + schedule_decision)" where
  "yield_current_to_at_on_cpu s cpu target_id now =
     (if \<not> ensure_cpu_id s cpu then (s, Inl InvalidTask)
      else if now < sc_now_ns s then (s, Inl InvalidTask)
      else let s1 = (account_runtime now s)\<lparr> sc_now_ns := now \<rparr>;
               s2 = fst (wake_expired_deadlines s1)
           in yield_current_to_on_cpu s2 cpu target_id)"

definition set_cpu_affinity ::
    "scheduler \<Rightarrow> u64 \<Rightarrow> u64 \<Rightarrow> scheduler \<times> (scheduler_error + unit)" where
  "set_cpu_affinity s i affinity_mask =
     (if affinity_mask = 0 \<or> affinity_mask AND NOT (active_cpu_mask s) \<noteq> 0 then (s, Inl InvalidTask)
      else case task_of s i of
             None \<Rightarrow> (s, Inl InvalidTask)
           | Some _ \<Rightarrow>
               let s1 = task_upd i (\<lambda>t. t\<lparr> tk_cpu_affinity_mask := affinity_mask \<rparr>) s;
                   s2 = fold (vacate_cpu (\<lambda>cpu. affinity_mask AND push_bit cpu 1 = 0)
                                (task_upd i (set_state Ready)) i) [0..<cpu_count s1] s1
               in (rebuild_runnable_indexes s2, Inr ()))"

section \<open>Process-wide holds\<close>

definition hold_record :: "task_state \<Rightarrow> task_state list \<Rightarrow> u64 \<Rightarrow> scheduler_task \<Rightarrow> scheduler_task" where
  "hold_record held from process_id t =
     (if tk_process_id t = process_id \<and> tk_state t \<in> set from then t\<lparr> tk_state := held \<rparr> else t)"

definition vacate_state :: "task_state \<Rightarrow> nat \<Rightarrow> scheduler \<Rightarrow> scheduler" where
  "vacate_state held cpu s =
     (case current_on_cpu s cpu of
        None \<Rightarrow> s
      | Some t \<Rightarrow> if tk_state t = held then set_cur s cpu None else s)"

definition hold_process :: "task_state \<Rightarrow> task_state list \<Rightarrow> scheduler \<Rightarrow> u64 \<Rightarrow> scheduler" where
  "hold_process held from s process_id =
     (let s1 = s\<lparr> sc_tasks := map (hold_record held from process_id) (sc_tasks s) \<rparr>;
          s2 = fold (vacate_state held) [0..<length (sc_current_task_ids s1)] s1
      in fill_idle (rebuild_runnable_indexes s2))"

definition release_record :: "task_state \<Rightarrow> u64 \<Rightarrow> scheduler_task \<Rightarrow> scheduler_task" where
  "release_record held process_id t =
     (if tk_process_id t = process_id \<and> tk_state t = held
      then t\<lparr> tk_state := (if tk_block_reason t \<noteq> None then Blocked else Ready) \<rparr> else t)"

definition release_process :: "task_state \<Rightarrow> scheduler \<Rightarrow> u64 \<Rightarrow> scheduler" where
  "release_process held s process_id =
     fill_idle (rebuild_runnable_indexes
       (s\<lparr> sc_tasks := map (release_record held process_id) (sc_tasks s) \<rparr>))"

definition quiesce_process :: "scheduler \<Rightarrow> u64 \<Rightarrow> scheduler" where
  "quiesce_process = hold_process Quiesced [Ready, Running, Blocked]"

definition resume_quiesced_process :: "scheduler \<Rightarrow> u64 \<Rightarrow> scheduler" where
  "resume_quiesced_process = release_process Quiesced"

definition stop_process :: "scheduler \<Rightarrow> u64 \<Rightarrow> scheduler" where
  "stop_process = hold_process Stopped [Ready, Running, Blocked, Suspended]"

definition resume_stopped_process :: "scheduler \<Rightarrow> u64 \<Rightarrow> scheduler" where
  "resume_stopped_process = release_process Stopped"

end
