(* ===== verification/Sched_Place.thy ===== *)
theory Sched_Place
  imports Sched_Ops
begin

text \<open>
  Where tasks run. \<open>placed\<close> relates the task states to the per-CPU slots: a
  slot names a running task that may run on that CPU, every running task has a
  slot, and no task has two. The theory proves that each operation of
  Sched_Ops keeps it.
\<close>

section \<open>The placement invariant\<close>

definition slots_unique :: "u64 option list \<Rightarrow> bool" where
  "slots_unique cs \<longleftrightarrow>
     (\<forall>c<length cs. \<forall>d<length cs. cs ! c \<noteq> None \<longrightarrow> cs ! c = cs ! d \<longrightarrow> c = d)"

definition placed :: "scheduler_task list \<Rightarrow> u64 option list \<Rightarrow> bool" where
  "placed ts cs \<longleftrightarrow>
     distinct (map tk_id ts) \<and>
     (\<forall>c<length cs. \<forall>i. cs ! c = Some i \<longrightarrow>
        (\<exists>t\<in>set ts. tk_id t = i \<and> tk_state t = Running \<and> task_can_run_on_cpu t c)) \<and>
     (\<forall>t\<in>set ts. tk_state t = Running \<longrightarrow> Some (tk_id t) \<in> set cs) \<and>
     slots_unique cs"

abbreviation sched_placed :: "scheduler \<Rightarrow> bool" where
  "sched_placed s \<equiv> placed (sc_tasks s) (sc_current_task_ids s)"

definition cpus_ok :: "scheduler \<Rightarrow> bool" where
  "cpus_ok s \<longleftrightarrow> 1 \<le> length (sc_current_task_ids s) \<and> length (sc_current_task_ids s) \<le> MAX_CPUS"

lemma cpus_ok_count: "cpus_ok s \<Longrightarrow> cpu_count s = length (sc_current_task_ids s)"
  by (auto simp: cpus_ok_def cpu_count_def MAX_CPUS_def max_def)

lemma placedD_slot:
  assumes "placed ts cs" and "c < length cs" and "cs ! c = Some i"
  obtains t where "t \<in> set ts" "tk_id t = i" "tk_state t = Running" "task_can_run_on_cpu t c"
  using assms unfolding placed_def by blast

lemma placedD_running:
  assumes "placed ts cs" and "t \<in> set ts" and "tk_state t = Running"
  obtains c where "c < length cs" "cs ! c = Some (tk_id t)"
proof -
  from assms have "Some (tk_id t) \<in> set cs" by (simp add: placed_def)
  then show ?thesis using that by (auto simp: in_set_conv_nth)
qed

lemma placedD_distinct: "placed ts cs \<Longrightarrow> distinct (map tk_id ts)"
  by (simp add: placed_def)

lemma placedD_unique:
  "placed ts cs \<Longrightarrow> c < length cs \<Longrightarrow> d < length cs \<Longrightarrow> cs ! c = Some i \<Longrightarrow> cs ! d = Some i \<Longrightarrow> c = d"
  unfolding placed_def slots_unique_def by (metis option.distinct(1))

lemma placed_slot_state:
  assumes "placed ts cs" and "c < length cs" and "cs ! c = Some (tk_id t)" and "t \<in> set ts"
  shows "tk_state t = Running" and "task_can_run_on_cpu t c"
proof -
  from assms obtain u where u: "u \<in> set ts" "tk_id u = tk_id t" "tk_state u = Running"
      "task_can_run_on_cpu u c"
    by (auto elim: placedD_slot)
  with assms have "u = t" using distinct_key_eq [OF placedD_distinct] by metis
  with u show "tk_state t = Running" and "task_can_run_on_cpu t c" by auto
qed

lemma placed_not_running_slot:
  "placed ts cs \<Longrightarrow> t \<in> set ts \<Longrightarrow> tk_state t \<noteq> Running \<Longrightarrow> Some (tk_id t) \<notin> set cs"
  using placed_slot_state(1) by (metis in_set_conv_nth)

text \<open>
  The general step: tasks may stop running, and slots are cleared accordingly.
\<close>

lemma placed_shrink:
  assumes p: "placed ts cs"
    and ident: "\<And>t. t \<in> set ts \<Longrightarrow> tk_id (f t) = tk_id t"
    and run: "\<And>t. t \<in> set ts \<Longrightarrow> tk_state (f t) = Running \<Longrightarrow> tk_state t = Running"
    and len: "length cs' = length cs"
    and slot: "\<And>c t. c < length cs \<Longrightarrow> t \<in> set ts \<Longrightarrow> cs ! c = Some (tk_id t) \<Longrightarrow>
       cs' ! c = (if tk_state (f t) = Running then Some (tk_id t) else None)"
    and none: "\<And>c. c < length cs \<Longrightarrow> cs ! c = None \<Longrightarrow> cs' ! c = None"
    and can: "\<And>c t. c < length cs \<Longrightarrow> t \<in> set ts \<Longrightarrow> cs ! c = Some (tk_id t) \<Longrightarrow>
       tk_state (f t) = Running \<Longrightarrow> task_can_run_on_cpu (f t) c"
  shows "placed (map f ts) cs'"
proof -
  have orig: "\<exists>t\<in>set ts. tk_id t = i \<and> cs ! c = Some i \<and> tk_state (f t) = Running"
    if c: "c < length cs" and i: "cs' ! c = Some i" for c i
  proof (cases "cs ! c")
    case None
    then show ?thesis using none [OF c] i by simp
  next
    case (Some j)
    with p c obtain t where "t \<in> set ts" "tk_id t = j" by (auto elim: placedD_slot)
    with slot [OF c, of t] Some i show ?thesis by (auto split: if_splits)
  qed
  have "map tk_id (map f ts) = map tk_id ts" using ident by simp
  with placedD_distinct [OF p] have d: "distinct (map tk_id (map f ts))" by (simp only:)
  have a: "\<exists>t\<in>set (map f ts). tk_id t = i \<and> tk_state t = Running \<and> task_can_run_on_cpu t c"
    if "c < length cs'" and "cs' ! c = Some i" for c i
  proof -
    from orig [of c i] that len obtain t
      where "t \<in> set ts" "tk_id t = i" "cs ! c = Some i" "tk_state (f t) = Running" by auto
    with can [of c t] that len ident show ?thesis by auto
  qed
  have b: "Some (tk_id t') \<in> set cs'" if t': "t' \<in> set (map f ts)" "tk_state t' = Running" for t'
  proof -
    from t' obtain t where t: "t \<in> set ts" "t' = f t" by auto
    with t' run have "tk_state t = Running" by auto
    with p t obtain c where "c < length cs" "cs ! c = Some (tk_id t)" by (auto elim: placedD_running)
    with slot [of c t] t t' len have "cs' ! c = Some (tk_id t')" "c < length cs'" using ident by auto
    then show ?thesis by (metis nth_mem)
  qed
  have u: "slots_unique cs'"
    unfolding slots_unique_def
  proof (intro allI impI)
    fix c d assume cd: "c < length cs'" "d < length cs'" "cs' ! c \<noteq> None" "cs' ! c = cs' ! d"
    then obtain i where "cs' ! c = Some i" by auto
    with cd orig [of c i] orig [of d i] len show "c = d" using placedD_unique [OF p, of c d i] by auto
  qed
  show ?thesis using d a b u unfolding placed_def by blast
qed

lemma placed_map:
  assumes p: "placed ts cs"
    and "\<And>t. t \<in> set ts \<Longrightarrow> tk_id (f t) = tk_id t"
    and "\<And>t. t \<in> set ts \<Longrightarrow> tk_cpu_affinity_mask (f t) = tk_cpu_affinity_mask t"
    and "\<And>t. t \<in> set ts \<Longrightarrow> tk_state (f t) = Running \<longleftrightarrow> tk_state t = Running"
  shows "placed (map f ts) cs"
  using assms placed_slot_state [OF p]
  by (intro placed_shrink [OF p]) (auto simp: task_can_run_on_cpu_def)

lemma task_upd_map:
  "distinct (map tk_id (sc_tasks s)) \<Longrightarrow>
     sc_tasks (task_upd i f s) = map (\<lambda>t. if tk_id t = i then f t else t) (sc_tasks s)"
  by (simp add: task_upd_def upd_first_distinct)

lemma upd_first_twice:
  "(\<And>x. p x \<Longrightarrow> p (f x)) \<Longrightarrow> upd_first p g (upd_first p f xs) = upd_first p (\<lambda>x. g (f x)) xs"
  by (induction xs) auto

lemma task_upd_twice:
  "(\<And>t. tk_id (f t) = tk_id t) \<Longrightarrow> task_upd i g (task_upd i f s) = task_upd i (\<lambda>t. g (f t)) s"
  by (simp add: task_upd_def upd_first_twice)

lemma placed_task_upd:
  assumes "placed (sc_tasks s) cs"
    and "\<And>t. tk_id (f t) = tk_id t"
    and "\<And>t. tk_cpu_affinity_mask (f t) = tk_cpu_affinity_mask t"
    and "\<And>t. tk_state (f t) = Running \<longleftrightarrow> tk_state t = Running"
  shows "placed (sc_tasks (task_upd i f s)) cs"
  using assms by (simp add: task_upd_map placedD_distinct placed_map)

text \<open>A task leaves the CPU it runs on.\<close>

lemma placed_stop:
  assumes p: "placed ts cs" and c: "c < length cs" and i: "cs ! c = Some i"
    and "\<And>t. tk_id (f t) = tk_id t"
    and "\<And>t. tk_state (f t) \<noteq> Running"
  shows "placed (map (\<lambda>t. if tk_id t = i then f t else t) ts) (cs[c := None])"
  using assms(4,5) c i placed_slot_state [OF p] placedD_unique [OF p]
  by (intro placed_shrink [OF p]) (auto simp: nth_list_update split: if_splits)

text \<open>A ready task is put on a CPU that nothing else occupies.\<close>

lemma placed_start:
  assumes p: "placed ts (cs[cpu := None])" and c: "cpu < length cs"
    and t: "t \<in> set ts" "tk_state t \<noteq> Running" "task_can_run_on_cpu t cpu"
    and f: "\<And>t. tk_id (f t) = tk_id t" "\<And>t. tk_state (f t) = Running"
      "\<And>t. tk_cpu_affinity_mask (f t) = tk_cpu_affinity_mask t"
  shows "placed (map (\<lambda>u. if tk_id u = tk_id t then f u else u) ts) (cs[cpu := Some (tk_id t)])"
proof -
  let ?cs = "cs[cpu := Some (tk_id t)]" and ?g = "\<lambda>u. if tk_id u = tk_id t then f u else u"
  have d: "distinct (map tk_id ts)" using p by (rule placedD_distinct)
  have nin: "d < length cs \<Longrightarrow> d \<noteq> cpu \<Longrightarrow> cs ! d \<noteq> Some (tk_id t)" for d
    using placed_not_running_slot [OF p t(1,2)] by (metis length_list_update nth_list_update_neq nth_mem)
  have other: "\<exists>u\<in>set ts. tk_id u = i \<and> tk_state u = Running \<and> task_can_run_on_cpu u d"
    if "d < length cs" "d \<noteq> cpu" "cs ! d = Some i" for d i
  proof -
    from that have "d < length (cs[cpu := None])" "cs[cpu := None] ! d = Some i" by auto
    with p show ?thesis by (meson placedD_slot)
  qed
  have a: "\<exists>u\<in>set (map ?g ts). tk_id u = i \<and> tk_state u = Running \<and> task_can_run_on_cpu u d"
    if "d < length ?cs" and i: "?cs ! d = Some i" for d i
  proof (cases "d = cpu")
    case True
    with i c t f show ?thesis by (auto simp: task_can_run_on_cpu_def intro!: bexI [of _ "f t"])
  next
    case False
    with that other nin obtain u where "u \<in> set ts" "tk_id u = i" "tk_state u = Running"
        "task_can_run_on_cpu u d" "tk_id u \<noteq> tk_id t" by force
    then show ?thesis by force
  qed
  have b: "Some (tk_id u') \<in> set ?cs" if "u' \<in> set (map ?g ts)" "tk_state u' = Running" for u'
  proof -
    from that obtain u where u: "u \<in> set ts" "u' = ?g u" by auto
    show ?thesis
    proof (cases "tk_id u = tk_id t")
      case True
      with u f c show ?thesis by (auto intro: set_update_memI)
    next
      case False
      with u that p obtain d where "d < length cs" "cs[cpu := None] ! d = Some (tk_id u)"
        by (auto elim: placedD_running)
      then have "?cs ! d = Some (tk_id u)" "d < length ?cs"
        using c by (auto simp: nth_list_update split: if_splits)
      with False u show ?thesis by (metis nth_mem)
    qed
  qed
  have "slots_unique ?cs"
    unfolding slots_unique_def
  proof (intro allI impI)
    fix e d assume ed: "e < length ?cs" "d < length ?cs" "?cs ! e \<noteq> None" "?cs ! e = ?cs ! d"
    show "e = d"
    proof (cases "e = cpu \<or> d = cpu")
      case True
      with ed nin c show ?thesis by (metis length_list_update nth_list_update)
    next
      case False
      with ed show ?thesis using placedD_unique [OF p, of e d] by auto
    qed
  qed
  moreover have "map tk_id (map ?g ts) = map tk_id ts" using f by simp
  with d have "distinct (map tk_id (map ?g ts))" by (simp only:)
  ultimately show ?thesis using a b unfolding placed_def by blast
qed


section \<open>Choosing a task\<close>

lemma map_filter_in: "x \<in> set (List.map_filter f xs) \<longleftrightarrow> (\<exists>y\<in>set xs. f y = Some x)"
  by (induction xs) (auto simp: List.map_filter_simps split: option.splits)

lemma next_deadline_ready_in:
  assumes "next_deadline_ready s cpu = Some i"
  obtains t d where "t \<in> set (sc_tasks s)" "tk_id t = i" "dispatchable s cpu t"
    "tk_deadline t = Some d" "ed_remaining_budget_ns d > 0"
proof -
  from assms obtain p where m: "min_by_key snd (List.map_filter deadline_key
      (filter (dispatchable s cpu) (sc_tasks s))) = Some p" and i: "fst p = i"
    by (auto simp: next_deadline_ready_def)
  from min_by_key_Some(1) [OF m] obtain t where "t \<in> set (sc_tasks s)" "dispatchable s cpu t"
      "deadline_key t = Some p"
    by (auto simp: map_filter_in)
  with i that show ?thesis by (auto simp: deadline_key_def split: option.splits if_splits)
qed

lemma next_fair_ready_SomeE:
  assumes "next_fair_ready s cpu = (s', Some i)"
  obtains g p k where "next_fair_group s cpu = Some g"
    "highest_ready_priority (fair_ready_bitmap_for_group s g cpu) = Some p"
    "List.find (\<lambda>k. rr_match s cpu g p (rr_task s (rr_start s (find_cursor s g cpu)) k))
       [0..<length (sc_tasks s)] = Some k"
    "i = tk_id (rr_task s (rr_start s (find_cursor s g cpu)) k)"
    "s' = set_cursor g cpu i s"
  using assms by (auto simp: next_fair_ready_def Let_def split: option.splits)

lemma rr_task_in: "0 < length (sc_tasks s) \<Longrightarrow> rr_task s start k \<in> set (sc_tasks s)"
  by (simp add: rr_task_def)

lemma next_fair_ready_in:
  assumes "next_fair_ready s cpu = (s', r)"
  shows "\<exists>cursors. s' = s\<lparr> sc_fair_task_cursors := cursors \<rparr>"
    and "r = Some i \<Longrightarrow> \<exists>t\<in>set (sc_tasks s). tk_id t = i \<and> dispatchable s cpu t \<and> tk_deadline t = None"
proof -
  show "\<exists>cursors. s' = s\<lparr> sc_fair_task_cursors := cursors \<rparr>"
    using assms
    by (auto simp: next_fair_ready_def Let_def set_cursor_def split: option.splits
        intro: exI [of _ "sc_fair_task_cursors s"])
  assume "r = Some i"
  with assms obtain g p k where
    k: "List.find (\<lambda>k. rr_match s cpu g p (rr_task s (rr_start s (find_cursor s g cpu)) k))
       [0..<length (sc_tasks s)] = Some k"
    and i: "i = tk_id (rr_task s (rr_start s (find_cursor s g cpu)) k)"
    by (auto elim: next_fair_ready_SomeE)
  from find_Some_in [OF k] have "0 < length (sc_tasks s)"
      "rr_match s cpu g p (rr_task s (rr_start s (find_cursor s g cpu)) k)" by auto
  with i rr_task_in show
    "\<exists>t\<in>set (sc_tasks s). tk_id t = i \<and> dispatchable s cpu t \<and> tk_deadline t = None"
    by (auto simp: rr_match_def fair_dispatchable_def)
qed

lemma select_next_in:
  assumes "select_next s cpu = (s', r)"
  shows "\<exists>cursors. s' = s\<lparr> sc_fair_task_cursors := cursors \<rparr>"
    and "r = Some i \<Longrightarrow> \<exists>t\<in>set (sc_tasks s). tk_id t = i \<and> dispatchable s cpu t"
proof -
  show "\<exists>cursors. s' = s\<lparr> sc_fair_task_cursors := cursors \<rparr>"
    using assms next_fair_ready_in(1)
    by (auto simp: select_next_def split: option.splits intro: exI [of _ "sc_fair_task_cursors s"])
  assume "r = Some i"
  with assms show "\<exists>t\<in>set (sc_tasks s). tk_id t = i \<and> dispatchable s cpu t"
    by (auto simp: select_next_def split: option.splits
        elim!: next_deadline_ready_in dest!: next_fair_ready_in(2) [where i = i])
qed

text \<open>The effect of \<open>schedule_next_on_cpu\<close>, apart from the choice it makes.\<close>

lemma schedule_next_cases:
  assumes "schedule_next_on_cpu s cpu = (s', r)"
  obtains (idle) cursors where "r = None"
      "s' = (set_cur (replenish s) cpu None)\<lparr> sc_fair_task_cursors := cursors \<rparr>"
  | (run) cursors i t where "r = Some i"
      "s' = task_upd i (start_running (sc_now_ns s) cpu)
              ((set_cur (replenish s) cpu (Some i))\<lparr> sc_fair_task_cursors := cursors \<rparr>)"
      "t \<in> set (sc_tasks (replenish s))" "tk_id t = i" "dispatchable (replenish s) cpu t"
proof -
  obtain s1 next1 where sel: "select_next (replenish s) cpu = (s1, next1)" by fastforce
  obtain cursors where s1: "s1 = (replenish s)\<lparr> sc_fair_task_cursors := cursors \<rparr>"
    using select_next_in(1) [OF sel] by blast
  have cur: "set_cur s1 cpu next1 = (set_cur (replenish s) cpu next1)\<lparr> sc_fair_task_cursors := cursors \<rparr>"
    by (simp add: s1 set_cur_def)
  have now1: "sc_now_ns s1 = sc_now_ns s" by (simp add: s1 replenish_def)
  show ?thesis
  proof (cases next1)
    case None
    with assms sel cur show ?thesis
      by (intro idle) (auto simp: schedule_next_on_cpu_def)
  next
    case (Some i)
    with select_next_in(2) [OF sel] obtain t where
      "t \<in> set (sc_tasks (replenish s))" "tk_id t = i" "dispatchable (replenish s) cpu t" by blast
    with Some assms sel cur now1 show ?thesis
      by (intro run [of i cursors t]) (auto simp: schedule_next_on_cpu_def)
  qed
qed

lemma schedule_next_slots:
  "schedule_next_on_cpu s cpu = (s', r) \<Longrightarrow>
     sc_current_task_ids s' = (sc_current_task_ids s)[cpu := r]"
  by (erule schedule_next_cases) (simp_all add: replenish_def)

lemma schedule_next_same [simp]:
  "sc_now_ns (fst (schedule_next_on_cpu s cpu)) = sc_now_ns s"
  "sc_groups (fst (schedule_next_on_cpu s cpu)) = sc_groups s"
  "sc_runtime (fst (schedule_next_on_cpu s cpu)) = sc_runtime s"
  "length (sc_current_task_ids (fst (schedule_next_on_cpu s cpu))) = length (sc_current_task_ids s)"
proof -
  obtain s' r where e: "schedule_next_on_cpu s cpu = (s', r)" by fastforce
  from e show
    "sc_now_ns (fst (schedule_next_on_cpu s cpu)) = sc_now_ns s"
    "sc_groups (fst (schedule_next_on_cpu s cpu)) = sc_groups s"
    "sc_runtime (fst (schedule_next_on_cpu s cpu)) = sc_runtime s"
    "length (sc_current_task_ids (fst (schedule_next_on_cpu s cpu))) = length (sc_current_task_ids s)"
    by (auto elim!: schedule_next_cases simp: replenish_def)
qed

lemma cur_schedule_next:
  "d \<noteq> cpu \<Longrightarrow> cur (fst (schedule_next_on_cpu s cpu)) d = cur s d"
  using schedule_next_slots [of s cpu "fst (schedule_next_on_cpu s cpu)"
      "snd (schedule_next_on_cpu s cpu)"]
  by (simp add: cur_def)

lemma refill_task_sel [simp]:
  "tk_id (refill_task now t) = tk_id t"
  "tk_cpu_affinity_mask (refill_task now t) = tk_cpu_affinity_mask t"
  "tk_state (refill_task now t) = tk_state t"
  by (simp_all add: refill_task_def)

lemma placed_replenish: "placed (sc_tasks s) cs \<Longrightarrow> placed (sc_tasks (replenish s)) cs"
  by (simp add: replenish_def placed_map)

theorem schedule_next_placed:
  assumes p: "placed (sc_tasks s) ((sc_current_task_ids s)[cpu := None])"
    and c: "cpu < length (sc_current_task_ids s)"
  shows "sched_placed (fst (schedule_next_on_cpu s cpu))"
proof -
  obtain s' r where e: "schedule_next_on_cpu s cpu = (s', r)" by fastforce
  note p' = placed_replenish [OF p]
  from e have "sched_placed s'"
  proof (cases rule: schedule_next_cases)
    case idle
    with p' show ?thesis by (simp add: replenish_def)
  next
    case (run cursors i t)
    with p' c have "placed (map (\<lambda>u. if tk_id u = tk_id t then start_running (sc_now_ns s) cpu u else u)
        (sc_tasks (replenish s))) ((sc_current_task_ids s)[cpu := Some (tk_id t)])"
      by (intro placed_start) (auto simp: dispatchable_def start_running_def)
    with run placedD_distinct [OF p'] show ?thesis
      by (simp add: task_upd_def upd_first_distinct replenish_def)
  qed
  with e show ?thesis by simp
qed


section \<open>Parts of the state an operation leaves alone\<close>

lemma rebuild_sel [simp]:
  "sc_tasks (rebuild_runnable_indexes s) = sc_tasks s"
  "sc_current_task_ids (rebuild_runnable_indexes s) = sc_current_task_ids s"
  "sc_now_ns (rebuild_runnable_indexes s) = sc_now_ns s"
  "sc_runtime (rebuild_runnable_indexes s) = sc_runtime s"
  "sc_fair_task_cursors (rebuild_runnable_indexes s) = sc_fair_task_cursors s"
  by (simp_all add: rebuild_runnable_indexes_def Let_def split: prod.split)

lemma add_group_tick_if_present_sel [simp]:
  "sc_tasks (add_group_tick_if_present g e s) = sc_tasks s"
  "sc_current_task_ids (add_group_tick_if_present g e s) = sc_current_task_ids s"
  "sc_now_ns (add_group_tick_if_present g e s) = sc_now_ns s"
  "sc_runtime (add_group_tick_if_present g e s) = sc_runtime s"
  "sc_fair_task_cursors (add_group_tick_if_present g e s) = sc_fair_task_cursors s"
  by (simp_all add: add_group_tick_if_present_def add_group_tick_def clamp_runnable_group_lag_def
      Let_def split: option.split prod.split)

lemma ensure_group_limits_sel [simp]:
  "sc_tasks (fst (ensure_resource_group_with_limits al s i p sh m rt)) = sc_tasks s"
  "sc_current_task_ids (fst (ensure_resource_group_with_limits al s i p sh m rt)) =
     sc_current_task_ids s"
  "sc_runtime (fst (ensure_resource_group_with_limits al s i p sh m rt)) = sc_runtime s"
  "sc_now_ns (fst (ensure_resource_group_with_limits al s i p sh m rt)) = sc_now_ns s"
  by (simp_all add: ensure_resource_group_with_limits_def split: option.split)

lemma ensure_group_sel [simp]:
  "sc_tasks (fst (ensure_resource_group al s i)) = sc_tasks s"
  "sc_current_task_ids (fst (ensure_resource_group al s i)) = sc_current_task_ids s"
  "sc_runtime (fst (ensure_resource_group al s i)) = sc_runtime s"
  "sc_now_ns (fst (ensure_resource_group al s i)) = sc_now_ns s"
  by (simp_all add: ensure_resource_group_def)

lemma set_group_sel [simp]:
  "sc_tasks (fst (set_resource_group_shares s i sh)) = sc_tasks s"
  "sc_current_task_ids (fst (set_resource_group_shares s i sh)) = sc_current_task_ids s"
  "sc_tasks (fst (set_resource_group_limits s i sh m rt)) = sc_tasks s"
  "sc_current_task_ids (fst (set_resource_group_limits s i sh m rt)) = sc_current_task_ids s"
  by (simp_all add: set_resource_group_shares_def set_resource_group_limits_def split: option.split)

lemma rebase_group_sel [simp]:
  "sc_tasks (rebase_group i s) = sc_tasks s"
  "sc_current_task_ids (rebase_group i s) = sc_current_task_ids s"
  "sc_runtime (rebase_group i s) = sc_runtime s"
  "sc_now_ns (rebase_group i s) = sc_now_ns s"
  "sc_fair_task_cursors (rebase_group i s) = sc_fair_task_cursors s"
  by (simp_all add: rebase_group_def split: option.split)

section \<open>Loops over the CPUs\<close>

lemma fold_invariant:
  assumes "\<And>x s. x \<in> set xs \<Longrightarrow> P s \<Longrightarrow> P (f x s)" and "P s"
  shows "P (fold f xs s)"
  using assms by (induction xs arbitrary: s) auto

lemma fill_cpu_placed:
  assumes "sched_placed s" and "c < length (sc_current_task_ids s)"
  shows "sched_placed (fill_cpu c s)"
proof (cases "cur s c")
  case None
  with assms(2) have "(sc_current_task_ids s)[c := None] = sc_current_task_ids s"
    by (metis cur_def list_update_id)
  with assms None show ?thesis by (simp add: fill_cpu_def schedule_next_placed)
qed (use assms in \<open>simp add: fill_cpu_def\<close>)

lemma fill_cpu_len [simp]:
  "length (sc_current_task_ids (fill_cpu c s)) = length (sc_current_task_ids s)"
  "sc_now_ns (fill_cpu c s) = sc_now_ns s"
  "sc_groups (fill_cpu c s) = sc_groups s"
  "sc_runtime (fill_cpu c s) = sc_runtime s"
  by (simp_all add: fill_cpu_def)

lemma fill_idle_same [simp]:
  "length (sc_current_task_ids (fill_idle s)) = length (sc_current_task_ids s)"
  "sc_now_ns (fill_idle s) = sc_now_ns s"
  "sc_groups (fill_idle s) = sc_groups s"
  "sc_runtime (fill_idle s) = sc_runtime s"
  unfolding fill_idle_def
  by (rule fold_invariant [where P = "\<lambda>s'. length (sc_current_task_ids s') = length (sc_current_task_ids s)"]
      fold_invariant [where P = "\<lambda>s'. sc_now_ns s' = sc_now_ns s"]
      fold_invariant [where P = "\<lambda>s'. sc_groups s' = sc_groups s"]
      fold_invariant [where P = "\<lambda>s'. sc_runtime s' = sc_runtime s"]; simp)+

lemma cpus_ok_len: "length (sc_current_task_ids s') = length (sc_current_task_ids s) \<Longrightarrow> cpus_ok s' = cpus_ok s"
  by (simp add: cpus_ok_def)

lemma fill_idle_placed:
  assumes "sched_placed s" and "cpus_ok s"
  shows "sched_placed (fill_idle s)"
  unfolding fill_idle_def
  by (rule conjunct1 [OF fold_invariant [where P = "\<lambda>s'. sched_placed s' \<and>
          length (sc_current_task_ids s') = length (sc_current_task_ids s)"]])
    (use assms in \<open>auto simp: cpus_ok_count intro: fill_cpu_placed\<close>)

text \<open>A loop whose rounds each rewrite one slot, looking only at that slot.\<close>

lemma fold_slots:
  assumes step: "\<And>c s'. sc_tasks s' = sc_tasks s \<Longrightarrow>
      f c s' = set_cur s' c (g (cur s' c))"
    and n: "n = length (sc_current_task_ids s)"
  shows "fold f [0..<n] s = s\<lparr> sc_current_task_ids := map g (sc_current_task_ids s) \<rparr>"
proof -
  let ?cs = "sc_current_task_ids s"
  have "fold f [0..<k] s = s\<lparr> sc_current_task_ids := map g (take k ?cs) @ drop k ?cs \<rparr>"
    if "k \<le> length ?cs" for k
    using that
  proof (induction k)
    case (Suc k)
    then have k: "k < length ?cs" by simp
    have "map g (take (Suc k) ?cs) @ drop (Suc k) ?cs =
        (map g (take k ?cs) @ drop k ?cs)[k := g (?cs ! k)]"
      using k by (simp add: take_Suc_conv_app_nth list_update_append upd_conv_take_nth_drop min_def)
    with Suc k show ?case
      by (simp add: step set_cur_def cur_def nth_append)
  qed simp
  from this [of n] n show ?thesis by simp
qed

text \<open>The loop that takes one task off its CPU: only the slot of the task matters.\<close>

lemma fold_skip: "(\<And>c. c \<in> set xs \<Longrightarrow> f c s = s) \<Longrightarrow> fold f xs s = s"
  by (induction xs) auto

lemma fold_vacate_none:
  assumes "Some i \<notin> set (sc_current_task_ids s)"
  shows "fold (vacate_cpu cond f i) xs s = s"
  using assms by (intro fold_skip) (auto simp: vacate_cpu_def cur_def dest: nth_mem)

lemma fold_vacate:
  assumes p: "slots_unique (sc_current_task_ids s)"
    and c: "c < n" "c < length (sc_current_task_ids s)" "sc_current_task_ids s ! c = Some i"
    and f: "sc_current_task_ids (f s) = sc_current_task_ids s"
  shows "fold (vacate_cpu cond f i) [0..<n] s =
    (if cond c then fst (schedule_next_on_cpu (set_cur (f s) c None) c) else s)"
proof -
  have other: "cur s d \<noteq> Some i" if "d \<noteq> c" for d
    using p c that unfolding slots_unique_def cur_def by (metis option.distinct(1))
  have skip: "vacate_cpu cond f i d s = s" if "d \<noteq> c" for d
    using other [OF that] by (simp add: vacate_cpu_def)
  let ?s = "vacate_cpu cond f i c s"
  have cur': "cur ?s d = cur s d" if "d \<noteq> c" for d
    using that f by (simp add: vacate_cpu_def cur_schedule_next) (simp add: cur_def)
  have "vacate_cpu cond f i d ?s = ?s" if "d \<noteq> c" for d
    using other [OF that] cur' [OF that] by (simp add: vacate_cpu_def)
  moreover have "[0..<n] = [0..<c] @ c # [Suc c..<n]"
    using c(1) by (metis le_add_same_cancel1 less_imp_le upt_add_eq_append upt_conv_Cons zero_le
        le_add_diff_inverse)
  moreover have "fold (vacate_cpu cond f i) [0..<c] s = s"
    by (rule fold_skip) (auto intro: skip)
  moreover have "fold (vacate_cpu cond f i) [Suc c..<n] ?s = ?s"
    by (rule fold_skip) (use calculation(1) in auto)
  ultimately have "fold (vacate_cpu cond f i) [0..<n] s = ?s"
    by simp
  then show ?thesis using c by (simp add: vacate_cpu_def cur_def)
qed


section \<open>Every operation keeps the placement\<close>

text \<open>Accounting changes budgets only, whatever the slots hold at that moment.\<close>

lemma charge_budget_sel [simp]:
  "tk_id (charge_budget e t) = tk_id t" "tk_state (charge_budget e t) = tk_state t"
  "tk_cpu_affinity_mask (charge_budget e t) = tk_cpu_affinity_mask t"
  by (simp_all add: charge_budget_def)

lemma account_cpu_same [simp]:
  "sc_current_task_ids (account_cpu e b c s) = sc_current_task_ids s"
  "sc_now_ns (account_cpu e b c s) = sc_now_ns s"
  "sc_groups (account_cpu e b c s) = sc_groups s"
  "sc_fair_task_cursors (account_cpu e b c s) = sc_fair_task_cursors s"
  by (simp_all add: account_cpu_def split: option.split)

lemma account_cpu_placed: "placed (sc_tasks s) cs \<Longrightarrow> placed (sc_tasks (account_cpu e b c s)) cs"
  by (auto simp: account_cpu_def task_upd_def upd_first_distinct placedD_distinct placed_map
      split: option.split)

lemma account_runtime_same [simp]:
  "sc_current_task_ids (account_runtime now s) = sc_current_task_ids s"
  "sc_now_ns (account_runtime now s) = sc_now_ns s"
  "sc_groups (account_runtime now s) = sc_groups s"
  "sc_fair_task_cursors (account_runtime now s) = sc_fair_task_cursors s"
proof -
  have f: "sc_current_task_ids (fold (account_cpu e b) xs s0) = sc_current_task_ids s0 \<and>
      sc_now_ns (fold (account_cpu e b) xs s0) = sc_now_ns s0 \<and>
      sc_groups (fold (account_cpu e b) xs s0) = sc_groups s0 \<and>
      sc_fair_task_cursors (fold (account_cpu e b) xs s0) = sc_fair_task_cursors s0" for e b xs s0
    by (induction xs arbitrary: s0) auto
  show
    "sc_current_task_ids (account_runtime now s) = sc_current_task_ids s"
    "sc_now_ns (account_runtime now s) = sc_now_ns s"
    "sc_groups (account_runtime now s) = sc_groups s"
    "sc_fair_task_cursors (account_runtime now s) = sc_fair_task_cursors s"
    by (simp_all add: account_runtime_def Let_def f)
qed

lemma account_runtime_placed:
  assumes "placed (sc_tasks s) cs"
  shows "placed (sc_tasks (account_runtime now s)) cs"
proof -
  have "placed (sc_tasks (fold (account_cpu e b) xs s0)) cs"
    if "placed (sc_tasks s0) cs" for e b xs s0
    using that by (induction xs arbitrary: s0) (auto intro: account_cpu_placed)
  with assms show ?thesis by (simp add: account_runtime_def Let_def)
qed

lemma account_executing_placed: "sched_placed s \<Longrightarrow> sched_placed (account_executing c t now s)"
  by (simp add: account_executing_def Let_def account_runtime_placed)
    (simp add: cur_def account_runtime_placed)

lemma account_executing_slots [simp]:
  "sc_current_task_ids (account_executing c t now s) = sc_current_task_ids s"
  by (simp add: account_executing_def Let_def) (simp add: cur_def)

lemma wake_record_sel [simp]:
  "tk_id (wake_record t) = tk_id t" "tk_cpu_affinity_mask (wake_record t) = tk_cpu_affinity_mask t"
  "tk_state (wake_record t) = Running \<longleftrightarrow> tk_state t = Running"
  by (auto simp: wake_record_def)

lemma wake_task_same [simp]:
  "length (sc_current_task_ids (fst (wake_task s i))) = length (sc_current_task_ids s)"
  "sc_now_ns (fst (wake_task s i)) = sc_now_ns s"
  "sc_runtime (fst (wake_task s i)) = sc_runtime s"
  by (simp_all add: wake_task_def split: option.split)

lemma wake_task_placed:
  assumes "sched_placed s" and "cpus_ok s"
  shows "sched_placed (fst (wake_task s i))"
  using assms
  by (auto simp: wake_task_def cpus_ok_def intro!: fill_idle_placed placed_task_upd split: option.split)

lemma wake_all_eq: "fst (wake_all ids s) = fold (\<lambda>i s. fst (wake_task s i)) ids s"
proof -
  have "fst (fold (\<lambda>i (s, w). let (s', r) = wake_task s i in (s', if is_ok r then w + 1 else w)) ids (s, w))
      = fold (\<lambda>i s. fst (wake_task s i)) ids s" for w :: nat
    by (induction ids arbitrary: s w) (auto simp: case_prod_unfold Let_def)
  then show ?thesis by (simp add: wake_all_def)
qed

lemma wake_all_placed:
  assumes "sched_placed s" and "cpus_ok s"
  shows "sched_placed (fst (wake_all ids s))"
    and "length (sc_current_task_ids (fst (wake_all ids s))) = length (sc_current_task_ids s)"
    and "sc_now_ns (fst (wake_all ids s)) = sc_now_ns s"
proof -
  have "sched_placed s' \<and> length (sc_current_task_ids s') = length (sc_current_task_ids s) \<and>
      sc_now_ns s' = sc_now_ns s" if "s' = fold (\<lambda>i s. fst (wake_task s i)) ids s" for s'
    unfolding that
    by (rule fold_invariant)
      (use assms in \<open>auto intro!: wake_task_placed simp: cpus_ok_def\<close>)
  then show "sched_placed (fst (wake_all ids s))"
    and "length (sc_current_task_ids (fst (wake_all ids s))) = length (sc_current_task_ids s)"
    and "sc_now_ns (fst (wake_all ids s)) = sc_now_ns s"
    by (simp_all add: wake_all_eq)
qed

lemma wake_expired_placed:
  assumes "sched_placed s" and "cpus_ok s"
  shows "sched_placed (fst (wake_expired_deadlines s))"
    and "length (sc_current_task_ids (fst (wake_expired_deadlines s))) = length (sc_current_task_ids s)"
    and "sc_now_ns (fst (wake_expired_deadlines s)) = sc_now_ns s"
  unfolding wake_expired_deadlines_def using wake_all_placed [OF assms] by auto

lemma tick_record_sel [simp]:
  "tk_id (tick_record now t) = tk_id t" "tk_state (tick_record now t) = tk_state t"
  "tk_cpu_affinity_mask (tick_record now t) = tk_cpu_affinity_mask t"
  "tk_resource_group_id (tick_record now t) = tk_resource_group_id t"
  by (simp_all add: tick_record_def Let_def split: option.split)

lemma preempt_record_sel [simp]:
  "tk_id (preempt_record t) = tk_id t" "tk_state (preempt_record t) \<noteq> Running"
  "tk_cpu_affinity_mask (preempt_record t) = tk_cpu_affinity_mask t"
  by (simp_all add: preempt_record_def)

lemma tick_reschedule_placed:
  assumes "placed (sc_tasks s) ((sc_current_task_ids s)[cpu := None])"
    and "cpu < length (sc_current_task_ids s)"
  shows "sched_placed (fst (tick_reschedule prev cpu s))"
  using schedule_next_placed [OF assms]
  by (simp add: tick_reschedule_def Let_def case_prod_unfold)

lemma tick_reschedule_len [simp]:
  "length (sc_current_task_ids (fst (tick_reschedule prev cpu s))) = length (sc_current_task_ids s)"
  by (simp add: tick_reschedule_def Let_def case_prod_unfold)

text \<open>Taking the current task of a CPU out of the running state frees its slot.\<close>

lemma placed_task_upd_stop:
  assumes "sched_placed s" and "cur s c = Some i"
    and "\<And>t. tk_id (f t) = tk_id t" and "\<And>t. tk_state (f t) \<noteq> Running"
  shows "placed (sc_tasks (task_upd i f s)) ((sc_current_task_ids s)[c := None])"
  using assms
  by (auto simp: task_upd_map placedD_distinct cur_def split: if_splits intro: placed_stop)

lemma placed_idle_slot:
  "sched_placed s \<Longrightarrow> cur s c = None \<Longrightarrow> placed (sc_tasks s) ((sc_current_task_ids s)[c := None])"
  by (metis cur_def list_update_beyond list_update_id not_less)

lemma task_of_slot:
  assumes "sched_placed s" and "cur s c = Some i"
  obtains t where "task_of s i = Some t" "t \<in> set (sc_tasks s)" "tk_id t = i" "tk_state t = Running"
    "task_can_run_on_cpu t c" "c < length (sc_current_task_ids s)"
proof -
  from assms have c: "c < length (sc_current_task_ids s)" "sc_current_task_ids s ! c = Some i"
    by (auto simp: cur_def split: if_splits)
  with assms(1) obtain t where t: "t \<in> set (sc_tasks s)" "tk_id t = i" "tk_state t = Running"
      "task_can_run_on_cpu t c"
    by (auto elim: placedD_slot)
  then have "task_of s i = Some t"
    using placedD_distinct [OF assms(1)] by (simp add: task_of_def find_key_iff)
  with t c that show ?thesis by blast
qed

lemma tick_at_on_cpu_placed:
  assumes p: "sched_placed s" and ok: "cpus_ok s"
  shows "sched_placed (fst (tick_at_on_cpu s cpu now))"
proof (cases "ensure_cpu_id s cpu \<and> \<not> now < sc_now_ns s")
  case True
  define s2 where "s2 = (account_runtime now s)\<lparr> sc_now_ns := now,
      sc_total_ticks := sat_add (sc_total_ticks (account_runtime now s)) 1 \<rparr>"
  define s3 where "s3 = fst (wake_expired_deadlines s2)"
  have s2: "sched_placed s2" "cpus_ok s2"
    using p ok by (simp_all add: s2_def account_runtime_placed cpus_ok_def)
  then have s3: "sched_placed s3" "cpu < length (sc_current_task_ids s3)"
    using True wake_expired_placed(1,2) [OF s2]
    unfolding s3_def by (simp_all add: ensure_cpu_id_def) (simp add: s2_def)
  show ?thesis
  proof (cases "cur s3 cpu")
    case None
    then show ?thesis
      using True s3 placed_idle_slot [OF s3(1) None]
      by (simp add: tick_at_on_cpu_def Let_def s2_def [symmetric] s3_def [symmetric] tick_reschedule_placed)
  next
    case (Some i)
    with s3 obtain t where t: "task_of s3 i = Some t" by (auto elim: task_of_slot)
    have p4: "sched_placed (task_upd i (tick_record now) s3)"
      using s3 by (intro placed_task_upd) auto
    have "cur (task_upd i (tick_record now) s3) cpu = Some i"
      using Some by (simp add: cur_def split: if_splits)
    from placed_task_upd_stop [OF p4 this] have
      "placed (sc_tasks (task_upd i preempt_record (task_upd i (tick_record now) s3)))
         ((sc_current_task_ids s3)[cpu := None])" by simp
    with True s3 Some t p4 show ?thesis
      by (auto simp add: tick_at_on_cpu_def Let_def s2_def [symmetric] s3_def [symmetric]
          intro!: tick_reschedule_placed)
  qed
qed (use p in \<open>auto simp: tick_at_on_cpu_def\<close>)


lemma record_sel [simp]:
  "tk_id (block_record r t) = tk_id t" "tk_state (block_record r t) = Blocked"
  "tk_id (suspend_record t) = tk_id t" "tk_state (suspend_record t) \<noteq> Running"
  "tk_id (exit_record x t) = tk_id t" "tk_state (exit_record x t) = Exited"
  "tk_id (exit_current_record x t) = tk_id t" "tk_state (exit_current_record x t) = Exited"
  "tk_id (set_state st t) = tk_id t" "tk_state (set_state st t) = st"
  "tk_cpu_affinity_mask (set_state st t) = tk_cpu_affinity_mask t"
  by (simp_all add: block_record_def suspend_record_def exit_record_def exit_current_record_def
      set_state_def)

lemma stop_current_placed:
  assumes "sched_placed s" and "cur s cpu = Some i"
    and "\<And>t. tk_id (f t) = tk_id t" and "\<And>t. tk_state (f t) \<noteq> Running"
  shows "sched_placed (fst (tick_reschedule prev cpu
      (set_cur (rebuild_runnable_indexes (task_upd i f s)) cpu None)))"
  using placed_task_upd_stop [OF assms] assms(2)
  by (intro tick_reschedule_placed) (auto simp: cur_def split: if_splits)

lemma block_current_on_cpu_placed:
  "sched_placed s \<Longrightarrow> sched_placed (fst (block_current_on_cpu s cpu r))"
  by (auto simp: block_current_on_cpu_def intro!: stop_current_placed split: option.split)

lemma exit_current_on_cpu_placed:
  "sched_placed s \<Longrightarrow> sched_placed (fst (exit_current_on_cpu s cpu x))"
  by (auto simp: exit_current_on_cpu_def intro!: stop_current_placed split: option.split)

text \<open>A task that has no slot may change to any state but running.\<close>

lemma placed_upd_unslotted:
  assumes p: "placed (sc_tasks s) cs" and i: "Some i \<notin> set cs"
    and "\<And>t. tk_id (f t) = tk_id t" and "\<And>t. tk_state (f t) = Running \<Longrightarrow> tk_state t = Running"
  shows "placed (sc_tasks (task_upd i f s)) cs"
  unfolding task_upd_map [OF placedD_distinct [OF p]]
proof (rule placed_shrink [OF p])
  fix c t assume ct: "c < length cs" "t \<in> set (sc_tasks s)" "cs ! c = Some (tk_id t)"
  with i have "tk_id t \<noteq> i" by (metis nth_mem)
  with placed_slot_state [OF p ct(1,3,2)] ct show
    "cs ! c = (if tk_state (if tk_id t = i then f t else t) = Running then Some (tk_id t) else None)"
    "task_can_run_on_cpu (if tk_id t = i then f t else t) c" by auto
qed (use assms(3,4) in \<open>auto split: if_splits\<close>)

lemma slot_of_id:
  assumes "Some i \<in> set (sc_current_task_ids s)"
  obtains c where "c < length (sc_current_task_ids s)" "sc_current_task_ids s ! c = Some i" "cur s c = Some i"
  using assms by (auto simp: in_set_conv_nth cur_def)

lemma suspend_task_placed:
  assumes p: "sched_placed s" and ok: "cpus_ok s"
  shows "sched_placed (fst (suspend_task s i))"
proof -
  let ?s1 = "task_upd i suspend_record s"
  let ?loop = "fold (vacate_cpu (\<lambda>_. True) (\<lambda>s. s) i) [0..<cpu_count ?s1] ?s1"
  have n: "cpu_count ?s1 = length (sc_current_task_ids s)"
    using ok by (subst cpus_ok_count) (auto simp: cpus_ok_def)
  have "sched_placed ?loop"
  proof (cases "Some i \<in> set (sc_current_task_ids s)")
    case True
    then obtain c where c: "c < length (sc_current_task_ids s)" "sc_current_task_ids s ! c = Some i"
        "cur s c = Some i" by (rule slot_of_id)
    have "?loop = fst (schedule_next_on_cpu (set_cur ?s1 c None) c)"
      using c n p by (subst fold_vacate [where c = c]) (auto simp: placed_def)
    moreover have "placed (sc_tasks ?s1) ((sc_current_task_ids s)[c := None])"
      using p c by (intro placed_task_upd_stop) auto
    ultimately show ?thesis using c by (simp add: schedule_next_placed)
  next
    case False
    with p have "sched_placed ?s1" by (auto intro: placed_upd_unslotted)
    with False show ?thesis by (simp add: fold_vacate_none)
  qed
  with p show ?thesis by (auto simp: suspend_task_def Let_def split: option.split)
qed

lemma set_cpu_affinity_placed:
  assumes p: "sched_placed s" and ok: "cpus_ok s"
  shows "sched_placed (fst (set_cpu_affinity s i m))"
proof -
  let ?f = "\<lambda>t. t\<lparr> tk_cpu_affinity_mask := m \<rparr>"
  let ?s1 = "task_upd i ?f s"
  let ?cond = "\<lambda>cpu. m AND push_bit cpu 1 = 0"
  let ?loop = "fold (vacate_cpu ?cond (task_upd i (set_state Ready)) i) [0..<cpu_count ?s1] ?s1"
  have n: "cpu_count ?s1 = length (sc_current_task_ids s)"
    using ok by (subst cpus_ok_count) (auto simp: cpus_ok_def)
  have d: "distinct (map tk_id (sc_tasks s))" using p by (rule placedD_distinct)
  have "sched_placed ?loop"
  proof (cases "Some i \<in> set (sc_current_task_ids s)")
    case True
    then obtain c where c: "c < length (sc_current_task_ids s)" "sc_current_task_ids s ! c = Some i"
        "cur s c = Some i" by (rule slot_of_id)
    have loop: "?loop = (if ?cond c
        then fst (schedule_next_on_cpu (set_cur (task_upd i (set_state Ready) ?s1) c None) c) else ?s1)"
      using c n p by (subst fold_vacate [where c = c]) (auto simp: placed_def)
    show ?thesis
    proof (cases "?cond c")
      case True
      have "task_upd i (set_state Ready) ?s1 = task_upd i (\<lambda>t. set_state Ready (?f t)) s"
        by (rule task_upd_twice) simp
      moreover have "placed (sc_tasks (task_upd i (\<lambda>t. set_state Ready (?f t)) s))
          ((sc_current_task_ids s)[c := None])"
        using p c by (intro placed_task_upd_stop) auto
      ultimately show ?thesis using c True loop by (simp add: schedule_next_placed)
    next
      case False
      have "placed (map (\<lambda>t. if tk_id t = i then ?f t else t) (sc_tasks s)) (sc_current_task_ids s)"
        using False placed_slot_state [OF p] placedD_unique [OF p c(1) _ c(2)]
        by (intro placed_shrink [OF p])
          (auto simp: task_can_run_on_cpu_def split: if_splits)
      with d False loop show ?thesis by (simp add: task_upd_map)
    qed
  next
    case False
    with p have "sched_placed ?s1" by (auto intro: placed_upd_unslotted)
    with False show ?thesis by (simp add: fold_vacate_none)
  qed
  with p show ?thesis by (auto simp: set_cpu_affinity_def Let_def split: option.split)
qed

lemma exit_task_placed:
  assumes p: "sched_placed s" and ok: "cpus_ok s"
  shows "sched_placed (fst (exit_task s i x))"
proof -
  let ?s1 = "task_upd i (exit_record x) s"
  let ?g = "\<lambda>v. if v = Some i then None else v"
  have n: "cpu_count ?s1 = length (sc_current_task_ids ?s1)"
    using ok by (subst cpus_ok_count) (auto simp: cpus_ok_def)
  have loop: "fold (clear_cpu i) [0..<cpu_count ?s1] ?s1 =
      ?s1\<lparr> sc_current_task_ids := map ?g (sc_current_task_ids ?s1) \<rparr>"
    by (rule fold_slots [OF _ n]) (auto simp: clear_cpu_def set_cur_def cur_def list_update_beyond)
  have "placed (sc_tasks ?s1) (map ?g (sc_current_task_ids s))"
    unfolding task_upd_map [OF placedD_distinct [OF p]]
    using placed_slot_state [OF p]
    by (intro placed_shrink [OF p]) (auto split: if_splits)
  with p ok show ?thesis
    by (auto simp: exit_task_def Let_def loop cpus_ok_def intro!: fill_idle_placed split: option.split)
qed


lemma hold_record_sel [simp]:
  "tk_id (hold_record held from pr t) = tk_id t"
  "tk_cpu_affinity_mask (hold_record held from pr t) = tk_cpu_affinity_mask t"
  by (simp_all add: hold_record_def)

lemma release_record_sel [simp]:
  "tk_id (release_record held pr t) = tk_id t"
  "tk_cpu_affinity_mask (release_record held pr t) = tk_cpu_affinity_mask t"
  by (simp_all add: release_record_def)

text \<open>The slots after the loop of \<open>quiesce_process\<close> and \<open>stop_process\<close>.\<close>

definition drop_held :: "scheduler_task list \<Rightarrow> task_state \<Rightarrow> u64 option \<Rightarrow> u64 option" where
  "drop_held ts held v =
     (case v of None \<Rightarrow> None
      | Some i \<Rightarrow> (case List.find (\<lambda>t. tk_id t = i) ts of
                    None \<Rightarrow> v | Some t \<Rightarrow> if tk_state t = held then None else v))"

lemma set_cur_self: "set_cur s c (cur s c) = s"
  by (simp add: set_cur_def cur_def list_update_beyond)

lemma fold_vacate_state:
  "fold (vacate_state held) [0..<length (sc_current_task_ids s)] s =
     s\<lparr> sc_current_task_ids := map (drop_held (sc_tasks s) held) (sc_current_task_ids s) \<rparr>"
proof (rule fold_slots [OF _ refl])
  fix c and s' :: scheduler assume "sc_tasks s' = sc_tasks s"
  then show "vacate_state held c s' = set_cur s' c (drop_held (sc_tasks s) held (cur s' c))"
    using set_cur_self [of s' c]
    by (cases "cur s' c"; cases "List.find (\<lambda>t. tk_id t = the (cur s' c)) (sc_tasks s)")
      (auto simp: vacate_state_def drop_held_def current_on_cpu_def task_of_def)
qed

lemma hold_process_placed:
  assumes p: "sched_placed s" and ok: "cpus_ok s"
    and held: "held \<noteq> Running" "Running \<in> set from"
  shows "sched_placed (hold_process held from s pr)"
proof -
  let ?f = "hold_record held from pr"
  let ?ts = "map ?f (sc_tasks s)" and ?cs = "sc_current_task_ids s"
  have "map tk_id ?ts = map tk_id (sc_tasks s)" by simp
  with placedD_distinct [OF p] have d: "distinct (map tk_id ?ts)" by (simp only:)
  have slot: "drop_held ?ts held (?cs ! c) =
      (if tk_state (?f t) = Running then Some (tk_id t) else None)"
    if "c < length ?cs" "t \<in> set (sc_tasks s)" "?cs ! c = Some (tk_id t)" for c t
  proof -
    have "List.find (\<lambda>u. tk_id u = tk_id t) ?ts = Some (?f t)"
      using find_key_iff [OF d] that by auto
    with that placed_slot_state(1) [OF p that(1,3,2)] held show ?thesis
      by (auto simp: drop_held_def hold_record_def)
  qed
  have "placed ?ts (map (drop_held ?ts held) ?cs)"
  proof (rule placed_shrink [OF p])
    fix c t assume ct: "c < length ?cs" "t \<in> set (sc_tasks s)" "?cs ! c = Some (tk_id t)"
    from slot [OF ct] ct show "map (drop_held ?ts held) ?cs ! c =
        (if tk_state (?f t) = Running then Some (tk_id t) else None)" by simp
    from placed_slot_state(2) [OF p ct(1,3,2)] show "task_can_run_on_cpu (?f t) c"
      by (simp add: task_can_run_on_cpu_def)
  qed (use held in \<open>auto simp: hold_record_def drop_held_def split: if_splits\<close>)
  then show ?thesis
    using ok fold_vacate_state [of held "s\<lparr> sc_tasks := ?ts \<rparr>"]
    by (auto simp: hold_process_def Let_def cpus_ok_def intro!: fill_idle_placed)
qed

lemma release_process_placed:
  assumes "sched_placed s" and "cpus_ok s" and "held \<noteq> Running"
  shows "sched_placed (release_process held s pr)"
  using assms
  by (auto simp: release_process_def cpus_ok_def release_record_def
      intro!: fill_idle_placed placed_map split: if_splits)

lemma cleanup_exited_slots:
  assumes p: "sched_placed s"
  shows "sc_current_task_ids (fst (cleanup_exited s)) = sc_current_task_ids s"
proof -
  have "map (\<lambda>current. case current of None \<Rightarrow> None
          | Some i \<Rightarrow> if i \<notin> set (map tk_id (filter (\<lambda>t. tk_state t \<noteq> Exited) (sc_tasks s)))
                     then None else Some i) (sc_current_task_ids s) = sc_current_task_ids s"
  proof (rule map_idI)
    fix v assume "v \<in> set (sc_current_task_ids s)"
    then obtain c where c: "c < length (sc_current_task_ids s)" "v = sc_current_task_ids s ! c"
      by (auto simp: in_set_conv_nth)
    show "(case v of None \<Rightarrow> None
          | Some i \<Rightarrow> if i \<notin> set (map tk_id (filter (\<lambda>t. tk_state t \<noteq> Exited) (sc_tasks s)))
                     then None else Some i) = v"
    proof (cases v)
      case (Some i)
      with c have "sc_current_task_ids s ! c = Some i" by simp
      with p c obtain t where "t \<in> set (sc_tasks s)" "tk_id t = i" "tk_state t = Running"
        by (meson placedD_slot)
      with Some show ?thesis by force
    qed simp
  qed
  then show ?thesis
    by (simp only: cleanup_exited_def Let_def fst_conv rebuild_sel) simp
qed

lemma cleanup_exited_placed:
  assumes p: "sched_placed s"
  shows "sched_placed (fst (cleanup_exited s))"
proof -
  let ?ts = "filter (\<lambda>t. tk_state t \<noteq> Exited) (sc_tasks s)"
  have "sc_tasks (fst (cleanup_exited s)) = ?ts"
    by (simp add: cleanup_exited_def Let_def)
  moreover have "placed ?ts (sc_current_task_ids s)"
    unfolding placed_def
    using p by (auto simp: placed_def distinct_map_filter) (metis task_state.distinct)
  ultimately show ?thesis using cleanup_exited_slots [OF p] by simp
qed

lemma placed_append:
  assumes p: "placed ts cs" and "tk_state t \<noteq> Running" and "\<not> list_ex (\<lambda>u. tk_id u = tk_id t) ts"
  shows "placed (ts @ [t]) cs"
  using assms unfolding placed_def by (auto simp: list_ex_iff)

lemma register_err: "register al a i p = (a', Inl e) \<Longrightarrow> a' = a"
  by (auto simp: register_def split: if_splits)

lemma add_task_cases:
  assumes "sc_current_task_ids s \<noteq> []" and "add_task al s t = (s', r)"
  obtains (same) e where "r = Inl e" "sc_tasks s' = sc_tasks s"
      "sc_current_task_ids s' = sc_current_task_ids s" "sc_runtime s' = sc_runtime s"
      "s' = s \<or> s' = fst (ensure_resource_group al s (tk_resource_group_id t)) \<or>
       s' = rebase_group (tk_resource_group_id t)
              (fst (ensure_resource_group al s (tk_resource_group_id t)))"
  | (added) s3 t1 rt where "r = Inr ()"
      "t1 = t\<lparr> tk_cpu_affinity_mask := tk_cpu_affinity_mask t AND active_cpu_mask s \<rparr>"
      "tk_cpu_affinity_mask t1 \<noteq> 0" "\<not> list_ex (\<lambda>u. tk_id u = tk_id t) (sc_tasks s)"
      "snd (ensure_resource_group al s (tk_resource_group_id t)) = Inr ()"
      "s3 = rebase_group (tk_resource_group_id t)
              (fst (ensure_resource_group al s (tk_resource_group_id t)))"
      "register al (sc_runtime s) (tk_id t) (tk_process_id t) = (rt, Inr ())"
      "s' = fill_idle (rebuild_runnable_indexes
              (s3\<lparr> sc_runtime := rt, sc_tasks := sc_tasks s @ [t1] \<rparr>))"
proof (cases "list_ex (\<lambda>u. tk_id u = tk_id t) (sc_tasks s) \<or>
    tk_cpu_affinity_mask t AND active_cpu_mask s = 0")
  case True
  with assms obtain e where "r = Inl e" "s' = s"
    by (auto simp: add_task_def Let_def split: if_splits)
  then show ?thesis by (intro same) auto
next
  case False
  obtain s2 r2 where e: "ensure_resource_group al s (tk_resource_group_id t) = (s2, r2)" by fastforce
  obtain rt rr where g: "register al (sc_runtime s) (tk_id t) (tk_process_id t) = (rt, rr)" by fastforce
  note s2 = ensure_group_sel [of al s "tk_resource_group_id t", unfolded e fst_conv]
  show ?thesis
  proof (cases "r2 = Inr () \<and> al ReserveTasks (length (sc_tasks s)) \<and> rr = Inr ()")
    case True
    with False e g s2 assms show ?thesis
      by (intro added [of _ "rebase_group (tk_resource_group_id t) s2" rt]) (auto simp: add_task_def Let_def)
  next
    case F: False
    with False e g s2 assms obtain e1 where "r = Inl e1"
        "s' = s2 \<or> s' = rebase_group (tk_resource_group_id t) s2"
      by (auto simp: add_task_def Let_def split: sum.splits if_splits)
    with e s2 show ?thesis by (intro same [of e1]) auto
  qed
qed

lemma add_task_placed:
  assumes p: "sched_placed s" and ok: "cpus_ok s" and t: "tk_state t \<noteq> Running"
  shows "sched_placed (fst (add_task al s t))"
proof -
  obtain s' r where e: "add_task al s t = (s', r)" by fastforce
  have ne: "sc_current_task_ids s \<noteq> []" using ok by (auto simp: cpus_ok_def)
  from ne e have "sched_placed s'"
  proof (cases rule: add_task_cases)
    case same
    with p show ?thesis by simp
  next
    case (added s3 t1 rt)
    with p t have "placed (sc_tasks s @ [t1]) (sc_current_task_ids s)"
      by (intro placed_append) auto
    with added ok show ?thesis by (auto simp: cpus_ok_def intro!: fill_idle_placed)
  qed
  with e show ?thesis by simp
qed


text \<open>
  A yield first makes the current task ready while its slot still names it;
  the slot is then given to the target or to the task the policy selects.
\<close>

definition release_current :: "nat \<Rightarrow> scheduler \<Rightarrow> scheduler" where
  "release_current cpu s =
     (case cur s cpu of None \<Rightarrow> s | Some i \<Rightarrow> task_upd i (set_state Ready) s)"

lemma release_current_sel [simp]:
  "sc_current_task_ids (release_current cpu s) = sc_current_task_ids s"
  "sc_now_ns (release_current cpu s) = sc_now_ns s"
  "sc_groups (release_current cpu s) = sc_groups s"
  "sc_runtime (release_current cpu s) = sc_runtime s"
  by (simp_all add: release_current_def split: option.split)

lemma release_current_placed:
  assumes "sched_placed s" and "cpu < length (sc_current_task_ids s)"
  shows "placed (sc_tasks (release_current cpu s)) ((sc_current_task_ids s)[cpu := None])"
  using assms by (auto simp: release_current_def intro: placed_idle_slot placed_task_upd_stop split: option.split)

lemma yield_eq:
  assumes p: "sched_placed s" and c: "ensure_cpu_id s cpu"
    and t: "case target of None \<Rightarrow> True | Some i \<Rightarrow>
              (\<exists>t. task_of s i = Some t \<and> dispatchable s cpu t)"
  shows "\<exists>g. yield_current_to_on_cpu s cpu target =
    (let (s3, next) = (case target of Some i \<Rightarrow> yield_directed i cpu
                        (add_group_tick_if_present g DEFAULT_FAIR_QUANTUM_NS (release_current cpu s))
                      | None \<Rightarrow> yield_undirected (cur s cpu) cpu
                        (add_group_tick_if_present g DEFAULT_FAIR_QUANTUM_NS (release_current cpu s)))
     in (rebuild_runnable_indexes s3, Inr (decision (cur s cpu) next cpu)))"
proof -
  define running where "running = (case current_on_cpu s cpu of None \<Rightarrow> None
      | Some t \<Rightarrow> if tk_state t = Running then Some t else None)"
  have id1: "map_option tk_id running = cur s cpu"
  proof (cases "cur s cpu")
    case (Some i)
    from task_of_slot [OF p Some] obtain t where "task_of s i = Some t" "tk_id t = i" "tk_state t = Running"
      by blast
    with Some show ?thesis by (simp add: running_def current_on_cpu_def)
  qed (simp add: running_def current_on_cpu_def)
  from c t have "\<not> (case target of None \<Rightarrow> False
      | Some i \<Rightarrow> (case task_of s i of None \<Rightarrow> True | Some target \<Rightarrow> \<not> dispatchable s cpu target))"
    by (auto split: option.split)
  then show ?thesis
    using c
    by (intro exI [of _ "map_option (\<lambda>t. (tk_resource_group_id t, tk_deadline t = None)) running"])
      (cases target; simp add: yield_current_to_on_cpu_def Let_def running_def [symmetric]
        release_current_def id1 [symmetric])
qed

lemma schedule_next_not:
  assumes p: "placed (sc_tasks s) cs" and t: "t \<in> set (sc_tasks s)" "tk_state t \<noteq> Ready"
  shows "snd (schedule_next_on_cpu s cpu) \<noteq> Some (tk_id t)"
proof
  obtain s' r where e: "schedule_next_on_cpu s cpu = (s', r)" by fastforce
  assume "snd (schedule_next_on_cpu s cpu) = Some (tk_id t)"
  with e obtain u where u: "u \<in> set (sc_tasks (replenish s))" "tk_id u = tk_id t" "tk_state u = Ready"
    by (auto elim!: schedule_next_cases simp: dispatchable_def)
  then obtain v where "v \<in> set (sc_tasks s)" "tk_id v = tk_id t" "tk_state v = Ready"
    by (auto simp: replenish_def)
  with t distinct_key_eq [OF placedD_distinct [OF p]] show False by metis
qed

lemma yield_undirected_placed:
  assumes p: "placed (sc_tasks s) ((sc_current_task_ids s)[cpu := None])"
    and c: "cpu < length (sc_current_task_ids s)"
    and y: "case y of None \<Rightarrow> True | Some i \<Rightarrow> \<exists>t\<in>set (sc_tasks s). tk_id t = i \<and> tk_state t \<noteq> Running"
  shows "sched_placed (fst (yield_undirected y cpu s))"
proof -
  define s1 where "s1 = (case y of None \<Rightarrow> s | Some i \<Rightarrow> task_upd i (set_state Suspended) s)"
  obtain s2 nx where e: "schedule_next_on_cpu s1 cpu = (s2, nx)" by fastforce
  define s3 where "s3 = (case y of None \<Rightarrow> s2 | Some i \<Rightarrow> task_upd i (set_state Ready) s2)"
  have cs1: "sc_current_task_ids s1 = sc_current_task_ids s" by (simp add: s1_def split: option.split)
  have out: "Some i \<notin> set ((sc_current_task_ids s)[cpu := None])" if "y = Some i" for i
    using y placed_not_running_slot [OF p] by (auto simp: that)
  have p1: "placed (sc_tasks s1) ((sc_current_task_ids s)[cpu := None])"
    using p out by (auto simp: s1_def intro!: placed_upd_unslotted split: option.split)
  have p2: "sched_placed s2"
    using schedule_next_placed [of s1 cpu] e p1 c cs1 by simp
  have cs2: "sc_current_task_ids s2 = (sc_current_task_ids s)[cpu := nx]"
    using schedule_next_slots [OF e] cs1 by simp
  have nx: "nx \<noteq> y" if "y = Some i" for i
  proof -
    from y that obtain t where "t \<in> set (sc_tasks s)" "tk_id t = i" by auto
    then have "set_state Suspended t \<in> set (sc_tasks s1)"
      using that placedD_distinct [OF p] by (auto simp: s1_def task_upd_map)
    from schedule_next_not [OF p1 this, of cpu] e \<open>tk_id t = i\<close> that show ?thesis by auto
  qed
  have "Some i \<notin> set (sc_current_task_ids s2)" if "y = Some i" for i
    using out [OF that] nx [OF that] that cs2 c
    by (metis list_update_overwrite set_update_subset_insert insert_iff subsetD)
  then have p3: "sched_placed s3"
    using p2 by (auto simp: s3_def intro!: placed_upd_unslotted split: option.split)
  have "sched_placed (fst (schedule_next_on_cpu s3 cpu))" if "nx = None"
  proof -
    have "sc_current_task_ids s3 = (sc_current_task_ids s)[cpu := None]"
      using cs2 that by (simp add: s3_def split: option.split)
    with p3 c show ?thesis by (intro schedule_next_placed) auto
  qed
  with p3 e show ?thesis
    by (auto simp: yield_undirected_def Let_def s1_def [symmetric] s3_def [symmetric])
qed


lemma yield_directed_placed:
  assumes p: "placed (sc_tasks s) ((sc_current_task_ids s)[cpu := None])"
    and c: "cpu < length (sc_current_task_ids s)"
    and t: "t \<in> set (sc_tasks s)" "tk_state t \<noteq> Running" "task_can_run_on_cpu t cpu"
  shows "sched_placed (fst (yield_directed (tk_id t) cpu s))"
  using placed_start [OF p c t, of run_target_record] placedD_distinct [OF p]
  by (simp add: yield_directed_def task_upd_map run_target_record_def)

lemma yield_on_cpu_placed:
  assumes p: "sched_placed s"
  shows "sched_placed (fst (yield_current_to_on_cpu s cpu target))"
proof (cases "ensure_cpu_id s cpu \<and> (case target of None \<Rightarrow> True | Some i \<Rightarrow>
              (\<exists>t. task_of s i = Some t \<and> dispatchable s cpu t))")
  case True
  then have c: "cpu < length (sc_current_task_ids s)" by (simp add: ensure_cpu_id_def)
  from True yield_eq [OF p] obtain g where y: "yield_current_to_on_cpu s cpu target =
    (let (s3, next) = (case target of Some i \<Rightarrow> yield_directed i cpu
                        (add_group_tick_if_present g DEFAULT_FAIR_QUANTUM_NS (release_current cpu s))
                      | None \<Rightarrow> yield_undirected (cur s cpu) cpu
                        (add_group_tick_if_present g DEFAULT_FAIR_QUANTUM_NS (release_current cpu s)))
     in (rebuild_runnable_indexes s3, Inr (decision (cur s cpu) next cpu)))" by blast
  let ?s2 = "add_group_tick_if_present g DEFAULT_FAIR_QUANTUM_NS (release_current cpu s)"
  have p2: "placed (sc_tasks ?s2) ((sc_current_task_ids ?s2)[cpu := None])"
    "cpu < length (sc_current_task_ids ?s2)"
    using release_current_placed [OF p c] c by simp_all
  show ?thesis
  proof (cases target)
    case None
    have "case cur s cpu of None \<Rightarrow> True
      | Some i \<Rightarrow> \<exists>t\<in>set (sc_tasks ?s2). tk_id t = i \<and> tk_state t \<noteq> Running"
    proof (cases "cur s cpu")
      case (Some i)
      from task_of_slot [OF p Some] obtain t where "t \<in> set (sc_tasks s)" "tk_id t = i" by blast
      then have "set_state Ready t \<in> set (sc_tasks (release_current cpu s))"
        using Some placedD_distinct [OF p] by (auto simp: release_current_def task_upd_map)
      with \<open>tk_id t = i\<close> Some show ?thesis by (auto intro!: bexI [of _ "set_state Ready t"])
    qed simp
    from yield_undirected_placed [OF p2 this] None y show ?thesis
      by (simp add: Let_def case_prod_unfold)
  next
    case (Some i)
    with True obtain t where t: "task_of s i = Some t" "dispatchable s cpu t" by auto
    then have t': "t \<in> set (sc_tasks s)" "tk_id t = i" "tk_state t = Ready" "task_can_run_on_cpu t cpu"
      by (auto simp: task_of_def dispatchable_def dest: find_Some_in)
    have "cur s cpu \<noteq> Some i"
      using placed_slot_state(1) [OF p _ _ t'(1)] t' by (auto simp: cur_def split: if_splits)
    with t' have "t \<in> set (sc_tasks ?s2)"
      using placedD_distinct [OF p]
      by (auto simp: release_current_def task_upd_map split: option.split)
    from yield_directed_placed [OF p2 this] t' y Some show ?thesis
      by (simp add: Let_def case_prod_unfold)
  qed
next
  case False
  with p show ?thesis
    by (auto simp: yield_current_to_on_cpu_def split: option.splits)
qed

lemma yield_at_placed:
  assumes "sched_placed s" and "cpus_ok s"
  shows "sched_placed (fst (yield_current_to_at_on_cpu s cpu target now))"
  using assms
  by (auto simp: yield_current_to_at_on_cpu_def Let_def cpus_ok_def
      intro!: yield_on_cpu_placed wake_expired_placed(1) account_runtime_placed)

text \<open>Profiles and priorities do not touch states or slots.\<close>

lemma set_fair_profile_placed: "sched_placed s \<Longrightarrow> sched_placed (fst (set_fair_profile s i p))"
  by (auto simp: set_fair_profile_def fair_profile_record_def intro!: placed_task_upd split: option.split)

lemma set_deadline_profile_placed: "sched_placed s \<Longrightarrow> sched_placed (fst (set_deadline_profile s i p))"
  by (auto simp: set_deadline_profile_def deadline_profile_record_def intro!: placed_task_upd
      split: option.split)

lemma donate_priority_placed: "sched_placed s \<Longrightarrow> sched_placed (fst (donate_priority s i p))"
  by (auto simp: donate_priority_def donate_record_def intro!: placed_task_upd split: option.split if_splits)

lemma restore_base_priority_placed: "sched_placed s \<Longrightarrow> sched_placed (fst (restore_base_priority s i))"
  by (auto simp: restore_base_priority_def restore_record_def intro!: placed_task_upd split: option.split if_splits)

lemmas placed_ops =
  account_runtime_placed account_executing_placed wake_task_placed wake_all_placed(1)
  tick_at_on_cpu_placed block_current_on_cpu_placed exit_current_on_cpu_placed
  suspend_task_placed set_cpu_affinity_placed exit_task_placed hold_process_placed
  release_process_placed cleanup_exited_placed add_task_placed yield_on_cpu_placed yield_at_placed
  set_fair_profile_placed set_deadline_profile_placed donate_priority_placed
  restore_base_priority_placed

end
