(* ===== verification/Sched_Evolve.thy ===== *)
theory Sched_Evolve
  imports Sched_Place
begin

text \<open>
  What scheduling never changes. \<open>evolves s s'\<close> says that \<open>s'\<close> has the same
  tasks, groups, cursors and registered threads as \<open>s\<close>, up to the fields that
  scheduling is about: states, quanta, budgets, virtual times and counters. All
  operations but the ones that create, remove or reconfigure are such steps,
  so every invariant over the other fields needs one proof only.
\<close>

definition block_ok :: "block_reason \<Rightarrow> bool" where
  "block_ok r =
     (case r of
        WaitMany items n _ \<Rightarrow> length items = MAX_WAIT_MANY_ITEMS \<and> unat n \<le> MAX_WAIT_MANY_ITEMS
      | FutexUntil uaddr _ \<Rightarrow> uaddr \<noteq> 0 \<and> uaddr AND 3 = 0
      | _ \<Rightarrow> True)"

definition budget_step :: "effective_deadline option \<Rightarrow> effective_deadline option \<Rightarrow> bool" where
  "budget_step d d' =
     (case (d, d') of
        (None, None) \<Rightarrow> True
      | (Some d, Some d') \<Rightarrow>
          ed_profile d' = ed_profile d \<and>
          (ed_remaining_budget_ns d \<le> dp_capacity_ns (ed_profile d) \<longrightarrow>
           ed_remaining_budget_ns d' \<le> dp_capacity_ns (ed_profile d))
      | _ \<Rightarrow> False)"

definition task_core :: "scheduler_task \<Rightarrow> u64 \<times> u64 \<times> u32 \<times> u32 \<times> u64 \<times> u8 list \<times> nat" where
  "task_core t = (tk_id t, tk_process_id t, tk_resource_group_id t, tk_fair_weight t,
     tk_cpu_affinity_mask t, tk_name t, tk_name_len t)"

definition tstep :: "nat \<Rightarrow> scheduler_task \<Rightarrow> scheduler_task \<Rightarrow> bool" where
  "tstep n t t' \<longleftrightarrow>
     task_core t' = task_core t \<and>
     budget_step (tk_deadline t) (tk_deadline t') \<and>
     (tk_state t = Exited \<longrightarrow> tk_state t' = Exited) \<and>
     (tk_assigned_cpu t' = tk_assigned_cpu t \<or> (\<exists>c<n. tk_assigned_cpu t' = Some c)) \<and>
     (\<forall>r. tk_block_reason t' = Some r \<longrightarrow> tk_block_reason t = Some r \<or> block_ok r)"

definition group_core :: "resource_group \<Rightarrow> u32 \<times> u32 option \<times> u32 \<times> u16 \<times> bool" where
  "group_core g = (rg_id g, rg_parent_id g, rg_cpu_shares g, rg_max_utilization_permille g,
     rg_allow_realtime g)"

definition cursor_keys :: "scheduler \<Rightarrow> (u32 \<times> nat) list" where
  "cursor_keys s = map (\<lambda>(g, c, _). (g, c)) (sc_fair_task_cursors s)"

definition thread_keys :: "scheduler \<Rightarrow> (u64 \<times> u64) list" where
  "thread_keys s = map (\<lambda>(i, p, _). (i, p)) (ac_threads (sc_runtime s))"

definition evolves :: "scheduler \<Rightarrow> scheduler \<Rightarrow> bool" where
  "evolves s s' \<longleftrightarrow>
     list_all2 (tstep (length (sc_current_task_ids s))) (sc_tasks s) (sc_tasks s') \<and>
     map group_core (sc_groups s') = map group_core (sc_groups s) \<and>
     cursor_keys s' = cursor_keys s \<and>
     thread_keys s' = thread_keys s \<and>
     length (sc_current_task_ids s') = length (sc_current_task_ids s) \<and>
     (length (sc_fair_ready_bitmap s) = FAIR_PRIORITY_WORDS \<longrightarrow>
      length (sc_fair_ready_bitmap s') = FAIR_PRIORITY_WORDS)"

section \<open>A preorder\<close>

lemma budget_step_refl [simp]: "budget_step d d"
  by (simp add: budget_step_def split: option.split)

lemma budget_step_trans: "budget_step a b \<Longrightarrow> budget_step b c \<Longrightarrow> budget_step a c"
  by (auto simp: budget_step_def split: option.splits)

lemma tstep_refl [simp]: "tstep n t t"
  by (simp add: tstep_def)

lemma tstep_trans: "tstep n a b \<Longrightarrow> tstep n b c \<Longrightarrow> tstep n a c"
  unfolding tstep_def by (metis budget_step_trans)

lemma evolves_refl [simp]: "evolves s s"
  by (simp add: evolves_def list.rel_refl)

lemma evolves_trans [trans]: "evolves a b \<Longrightarrow> evolves b c \<Longrightarrow> evolves a c"
  unfolding evolves_def
  by (auto intro: list_all2_trans [of "tstep (length (sc_current_task_ids a))"
      "tstep (length (sc_current_task_ids a))"] tstep_trans)

lemma evolves_len: "evolves s s' \<Longrightarrow> length (sc_current_task_ids s') = length (sc_current_task_ids s)"
  by (simp add: evolves_def)

lemma evolves_ids: "evolves s s' \<Longrightarrow> map tk_id (sc_tasks s') = map tk_id (sc_tasks s)"
  unfolding evolves_def
  by (auto simp: list_all2_conv_all_nth tstep_def task_core_def intro!: nth_equalityI)

lemma evolves_distinct:
  "evolves s s' \<Longrightarrow> distinct (map tk_id (sc_tasks s)) \<Longrightarrow> distinct (map tk_id (sc_tasks s'))"
  by (simp only: evolves_ids)

lemma evolves_fold:
  assumes "\<And>x s'. x \<in> set xs \<Longrightarrow> evolves s s' \<Longrightarrow> P s' \<Longrightarrow> evolves s' (f x s') \<and> P (f x s')" and "P s"
  shows "evolves s (fold f xs s) \<and> P (fold f xs s)"
proof -
  have "evolves s (fold f ys s') \<and> P (fold f ys s')"
    if "set ys \<subseteq> set xs" "evolves s s'" "P s'" for ys s'
    using that
  proof (induction ys arbitrary: s')
    case (Cons y ys)
    with assms(1) [of y s'] have "evolves s (f y s')" "P (f y s')"
      by (auto intro: evolves_trans)
    with Cons show ?case by auto
  qed simp
  with assms(2) show ?thesis by (meson evolves_refl order_refl)
qed

section \<open>Primitive steps\<close>

lemma evolves_tasks:
  assumes "list_all2 (tstep (length (sc_current_task_ids s))) (sc_tasks s) ts"
  shows "evolves s (s\<lparr> sc_tasks := ts \<rparr>)"
  using assms by (simp add: evolves_def cursor_keys_def thread_keys_def)

lemma evolves_task_upd:
  assumes "\<And>t. t \<in> set (sc_tasks s) \<Longrightarrow> tk_id t = i \<Longrightarrow> tstep (length (sc_current_task_ids s)) t (f t)"
  shows "evolves s (task_upd i f s)"
proof -
  have "list_all2 (tstep n) xs (upd_first (\<lambda>t. tk_id t = i) f xs)"
    if "\<And>t. t \<in> set xs \<Longrightarrow> tk_id t = i \<Longrightarrow> tstep n t (f t)" for n xs
    using that by (induction xs) (auto simp: list.rel_refl)
  from this [OF assms] show ?thesis by (simp add: task_upd_def evolves_tasks)
qed

lemma evolves_map_tasks:
  assumes "\<And>t. t \<in> set (sc_tasks s) \<Longrightarrow> tstep (length (sc_current_task_ids s)) t (f t)"
  shows "evolves s (s\<lparr> sc_tasks := map f (sc_tasks s) \<rparr>)"
  using assms by (intro evolves_tasks list_all2_map_self)

lemma evolves_slots [simp]:
  "length cs = length (sc_current_task_ids s) \<Longrightarrow> evolves s (s\<lparr> sc_current_task_ids := cs \<rparr>)"
  by (simp add: evolves_def cursor_keys_def thread_keys_def list.rel_refl)

lemma evolves_set_cur [simp]: "evolves s (set_cur s c v)"
  by (simp add: set_cur_def)

lemma evolves_clock [simp]: "evolves s (s\<lparr> sc_now_ns := a \<rparr>)"
  "evolves s (s\<lparr> sc_now_ns := a, sc_total_ticks := b \<rparr>)"
  by (simp_all add: evolves_def cursor_keys_def thread_keys_def list.rel_refl)

lemma evolves_groups:
  "map group_core gs = map group_core (sc_groups s) \<Longrightarrow> evolves s (s\<lparr> sc_groups := gs \<rparr>)"
  by (simp add: evolves_def cursor_keys_def thread_keys_def list.rel_refl)

lemma evolves_cursor [simp]: "evolves s (set_cursor g c i s)"
proof -
  have "map (\<lambda>(g, c, _). (g, c)) (upd_first (\<lambda>(g', c', _). g' = g \<and> c' = c)
      (\<lambda>(g, c, _). (g, c, Some i)) xs) = map (\<lambda>(g, c, _). (g, c)) xs" for xs :: "(u32 \<times> nat \<times> u64 option) list"
    by (induction xs) auto
  then show ?thesis
    by (simp add: evolves_def set_cursor_def cursor_keys_def thread_keys_def list.rel_refl)
qed

lemma charge_group_core [simp]: "group_core (charge_group now fair e g) = group_core g"
  by (simp add: charge_group_def Let_def group_core_def)

lemma map_upd_first_core:
  "(\<And>x. k (f x) = k x) \<Longrightarrow> map k (upd_first p f xs) = map k xs"
  by (rule map_upd_first)

lemma add_group_tick_loop_core [simp]:
  "map group_core (add_group_tick_loop n now fair e i gs) = map group_core gs"
  by (induction n now fair e i gs rule: add_group_tick_loop.induct)
    (auto simp: map_upd_first_core split: option.split)

lemma evolves_group_tick [simp]: "evolves s (add_group_tick_if_present g e s)"
proof -
  have tick: "evolves s (add_group_tick i f e s)" for s i f
    unfolding add_group_tick_def by (rule evolves_groups) (rule add_group_tick_loop_core)
  have clamp: "evolves s (clamp_runnable_group_lag s)" for s
    by (auto simp: clamp_runnable_group_lag_def Let_def group_core_def intro!: evolves_groups split: option.split)
  show ?thesis
    using tick evolves_trans [OF tick clamp]
    by (auto simp: add_group_tick_if_present_def Let_def split: option.split)
qed

lemma set_ready_priority_len [simp]: "length (set_ready_priority bm p) = length bm"
  by (simp add: set_ready_priority_def Let_def)

lemma index_task_core:
  "map group_core (fst (index_task t p)) = map group_core (fst p)"
  "length (snd (index_task t p)) = length (snd p)"
  by (auto simp: index_task_def case_prod_unfold map_upd_first_core group_core_def)

lemma fold_index_task_core:
  "map group_core (fst (fold index_task ts p)) = map group_core (fst p)"
  "length (snd (fold index_task ts p)) = length (snd p)"
  by (induction ts arbitrary: p) (simp_all add: index_task_core)

lemma evolves_rebuild [simp]: "evolves s (rebuild_runnable_indexes s)"
proof -
  let ?r = "fold index_task (sc_tasks s) (map (\<lambda>g. g\<lparr> rg_runnable_tasks := 0 \<rparr>) (sc_groups s),
      replicate FAIR_PRIORITY_WORDS 0)"
  have "rebuild_runnable_indexes s = s\<lparr> sc_groups := fst ?r, sc_fair_ready_bitmap := snd ?r \<rparr>"
    by (simp add: rebuild_runnable_indexes_def case_prod_unfold Let_def)
  moreover have "map group_core (fst ?r) = map group_core (sc_groups s)"
    unfolding fold_index_task_core by (simp add: group_core_def)
  moreover have "length (snd ?r) = FAIR_PRIORITY_WORDS"
    unfolding fold_index_task_core by simp
  ultimately show ?thesis
    by (simp add: evolves_def cursor_keys_def thread_keys_def list.rel_refl)
qed


section \<open>Scheduling and accounting evolve the state\<close>

lemma refill_budget: "budget_step d (map_option (refill_deadline now) d)"
  by (auto simp: budget_step_def refill_deadline_def Let_def split: option.split)

lemma refill_tstep: "tstep n t (refill_task now t)"
  by (auto simp: tstep_def refill_task_def task_core_def refill_budget)

lemma evolves_replenish: "evolves s (replenish s)"
  unfolding replenish_def by (rule evolves_map_tasks) (rule refill_tstep)

lemma evolves_cursors:
  assumes "select_next s cpu = (s', r)"
  shows "evolves s s'"
proof -
  have "evolves s (fst (next_fair_ready s cpu))"
    by (simp add: next_fair_ready_def Let_def split: option.split)
  with assms show ?thesis by (auto simp: select_next_def split: option.splits)
qed

lemma distinct_task_eq:
  "distinct (map tk_id (sc_tasks s)) \<Longrightarrow> t \<in> set (sc_tasks s) \<Longrightarrow> u \<in> set (sc_tasks s) \<Longrightarrow>
     tk_id t = tk_id u \<Longrightarrow> t = u"
  by (rule distinct_key_eq)

lemma start_running_tstep:
  "tk_state t \<noteq> Exited \<Longrightarrow> cpu < n \<Longrightarrow> tstep n t (start_running now cpu t)"
  by (auto simp: tstep_def start_running_def task_core_def)

lemma evolves_schedule_next:
  assumes c: "cpu < length (sc_current_task_ids s)" and d: "distinct (map tk_id (sc_tasks s))"
  shows "evolves s (fst (schedule_next_on_cpu s cpu))"
proof -
  obtain s1 r where e: "select_next (replenish s) cpu = (s1, r)" by fastforce
  have s1: "evolves s s1" using evolves_replenish evolves_cursors [OF e] by (rule evolves_trans)
  have s2: "evolves s (set_cur s1 cpu r)" using s1 by (rule evolves_trans) simp
  show ?thesis
  proof (cases r)
    case None
    with s2 e show ?thesis by (simp add: schedule_next_on_cpu_def)
  next
    case (Some i)
    obtain cu where s1e: "s1 = (replenish s)\<lparr> sc_fair_task_cursors := cu \<rparr>"
      using select_next_in(1) [OF e] by blast
    from select_next_in(2) [OF e Some] obtain t where
      t: "t \<in> set (sc_tasks (replenish s))" "tk_id t = i" "tk_state t = Ready"
      by (auto simp: dispatchable_def)
    have d1: "distinct (map tk_id (sc_tasks s1))"
      using s1 d by (rule evolves_distinct)
    have "evolves (set_cur s1 cpu r) (task_upd i (start_running (sc_now_ns s1) cpu) (set_cur s1 cpu r))"
    proof (rule evolves_task_upd)
      fix u assume "u \<in> set (sc_tasks (set_cur s1 cpu r))" "tk_id u = i"
      with t d1 have "u = t" by (auto simp: s1e intro: distinct_key_eq)
      with t c s1 show "tstep (length (sc_current_task_ids (set_cur s1 cpu r))) u
          (start_running (sc_now_ns s1) cpu u)"
        by (intro start_running_tstep) (auto simp: evolves_len)
    qed
    with s2 Some e show ?thesis by (auto simp: schedule_next_on_cpu_def intro: evolves_trans)
  qed
qed

lemma evolves_fill_idle:
  assumes ok: "cpus_ok s" and d: "distinct (map tk_id (sc_tasks s))"
  shows "evolves s (fill_idle s)"
  unfolding fill_idle_def
proof (rule conjunct1 [OF evolves_fold [where P = "\<lambda>_. True"]])
  fix c s' assume "c \<in> set [0..<cpu_count s]" "evolves s s'"
  with ok d show "evolves s' (fill_cpu c s') \<and> True"
    by (auto simp: fill_cpu_def cpus_ok_count evolves_len evolves_distinct intro!: evolves_schedule_next)
qed simp

lemma evolves_fill_rebuild:
  assumes "evolves s s'" and "cpus_ok s" and "distinct (map tk_id (sc_tasks s))"
  shows "evolves s (fill_idle (rebuild_runnable_indexes s'))"
proof -
  have e: "evolves s (rebuild_runnable_indexes s')" using assms(1) by (rule evolves_trans) simp
  with assms have "cpus_ok (rebuild_runnable_indexes s')"
      "distinct (map tk_id (sc_tasks (rebuild_runnable_indexes s')))"
    by (auto simp: cpus_ok_def evolves_len evolves_distinct)
  with e show ?thesis by (meson evolves_fill_idle evolves_trans)
qed

lemma wake_record_tstep: "tstep n t (wake_record t)"
  by (auto simp: tstep_def wake_record_def task_core_def)

lemma evolves_wake_task:
  assumes "cpus_ok s" and "distinct (map tk_id (sc_tasks s))"
  shows "evolves s (fst (wake_task s i))"
  using assms
  by (auto simp: wake_task_def intro!: evolves_fill_rebuild evolves_task_upd wake_record_tstep
      split: option.split)

lemma evolves_wake_all:
  assumes "cpus_ok s" and "distinct (map tk_id (sc_tasks s))"
  shows "evolves s (fst (wake_all ids s))"
  unfolding wake_all_eq
proof (rule conjunct1 [OF evolves_fold [where P = "\<lambda>_. True"]])
  fix i s' assume "evolves s s'"
  with assms show "evolves s' (fst (wake_task s' i)) \<and> True"
    by (auto simp: cpus_ok_def evolves_len evolves_distinct intro!: evolves_wake_task)
qed simp

lemma charge_thread_keys:
  "map (\<lambda>(i, p, _). (i, p)) (charge_thread e i ths) = map (\<lambda>(i, p, _). (i, p)) ths"
  unfolding charge_thread_def by (rule map_upd_first) (auto split: prod.split)

lemma charge_budget_tstep: "tstep n t (charge_budget e t)"
proof -
  have "budget_step (tk_deadline t) (map_option (\<lambda>d. d\<lparr> ed_remaining_budget_ns :=
      sat_sub (ed_remaining_budget_ns d) e \<rparr>) (tk_deadline t))"
    by (auto simp: budget_step_def intro: order_trans [OF sat_sub_le] split: option.split)
  then show ?thesis by (simp add: tstep_def charge_budget_def task_core_def)
qed

lemma evolves_runtime:
  "map (\<lambda>(i, p, _). (i, p)) (ac_threads rt) = thread_keys s \<Longrightarrow> evolves s (s\<lparr> sc_runtime := rt \<rparr>)"
  by (simp add: evolves_def cursor_keys_def thread_keys_def list.rel_refl)

lemma evolves_account_cpu: "evolves s (account_cpu e b c s)"
proof (cases "cur s c")
  case (Some i)
  let ?s1 = "s\<lparr> sc_runtime := (sc_runtime s)\<lparr> ac_threads :=
      charge_thread e i (ac_threads (sc_runtime s)) \<rparr> \<rparr>"
  have "evolves s ?s1"
    by (rule evolves_runtime) (simp add: charge_thread_keys thread_keys_def)
  moreover have "evolves ?s1 (task_upd i (charge_budget b) ?s1)"
    by (rule evolves_task_upd) (rule charge_budget_tstep)
  ultimately show ?thesis using Some by (auto simp: account_cpu_def intro: evolves_trans)
qed (simp add: account_cpu_def)

lemma evolves_account_runtime: "evolves s (account_runtime now s)"
proof -
  let ?s1 = "s\<lparr> sc_runtime := (sc_runtime s)\<lparr> ac_last_ns := Some now, ac_legacy := False \<rparr> \<rparr>"
  have "evolves s ?s1" by (rule evolves_runtime) (simp add: thread_keys_def)
  moreover have "evolves s0 (fold (account_cpu e b) xs s0)" for e b xs s0
    by (rule conjunct1 [OF evolves_fold [where P = "\<lambda>_. True"]]) (auto intro: evolves_account_cpu)
  ultimately have "evolves s (fold (account_cpu e b) xs ?s1)" for e b xs
    by (meson evolves_trans)
  then show ?thesis by (auto simp: account_runtime_def Let_def)
qed

lemma evolves_account_executing: "evolves s (account_executing c t now s)"
proof -
  have "evolves s (set_cur (account_runtime now (set_cur s c (Some t))) c v)" for v
    by (meson evolves_trans evolves_set_cur evolves_account_runtime)
  then show ?thesis by (auto simp: account_executing_def Let_def)
qed


section \<open>Operations that evolve the state\<close>

lemma evolves_tick_reschedule:
  assumes "evolves s s'" and "cpu < length (sc_current_task_ids s)" and "distinct (map tk_id (sc_tasks s))"
  shows "evolves s (fst (tick_reschedule prev cpu s'))"
proof -
  have "evolves s' (fst (schedule_next_on_cpu s' cpu))"
    using assms by (intro evolves_schedule_next) (auto simp: evolves_len evolves_distinct)
  with assms(1) show ?thesis
    by (auto simp: tick_reschedule_def case_prod_unfold Let_def intro: evolves_trans)
qed

lemma tick_record_tstep: "tstep n t (tick_record now t)"
  by (auto simp: tstep_def tick_record_def task_core_def Let_def split: option.split)

lemma preempt_record_tstep: "tstep n t (preempt_record t)"
  by (auto simp: tstep_def preempt_record_def task_core_def)

lemma evolves_tick:
  assumes ok: "cpus_ok s" and d: "distinct (map tk_id (sc_tasks s))"
  shows "evolves s (fst (tick_at_on_cpu s cpu now))"
proof (cases "ensure_cpu_id s cpu \<and> \<not> now < sc_now_ns s")
  case True
  define s2 where "s2 = (account_runtime now s)\<lparr> sc_now_ns := now,
      sc_total_ticks := sat_add (sc_total_ticks (account_runtime now s)) 1 \<rparr>"
  define s3 where "s3 = fst (wake_expired_deadlines s2)"
  have s2: "evolves s s2"
    unfolding s2_def by (rule evolves_trans [OF evolves_account_runtime [of s now]]) simp
  with ok d have "evolves s2 s3"
    unfolding s3_def wake_expired_deadlines_def
    by (intro evolves_wake_all) (auto simp: cpus_ok_def evolves_len evolves_distinct)
  with s2 have s3: "evolves s s3" by (rule evolves_trans)
  note simps = tick_at_on_cpu_def Let_def s2_def [symmetric] s3_def [symmetric]
  have cpu: "cpu < length (sc_current_task_ids s)" using True by (simp add: ensure_cpu_id_def)
  have tick: "evolves s (task_upd i (tick_record now) s3)" for i
    using s3 by (rule evolves_trans) (rule evolves_task_upd, rule tick_record_tstep)
  have pre: "evolves s (task_upd i preempt_record (task_upd i (tick_record now) s3))" for i
    using tick by (rule evolves_trans) (rule evolves_task_upd, rule preempt_record_tstep)
  have grp: "evolves s x \<Longrightarrow> evolves s (add_group_tick_if_present g e x)" for g e x
    by (erule evolves_trans) simp
  show ?thesis
    using True s3 tick pre cpu d
    by (auto simp: simps intro!: evolves_tick_reschedule grp split: option.split)
qed (auto simp: tick_at_on_cpu_def)

lemma evolves_stop_current:
  assumes "sched_placed s" and "cur s cpu = Some i"
    and "\<And>t. tk_state t = Running \<Longrightarrow> tstep (length (sc_current_task_ids s)) t (f t)"
  shows "evolves s (fst (tick_reschedule prev cpu
      (set_cur (rebuild_runnable_indexes (task_upd i f s)) cpu None)))"
proof (rule evolves_tick_reschedule)
  from assms(1,2) obtain t where t: "t \<in> set (sc_tasks s)" "tk_id t = i" "tk_state t = Running"
    by (rule task_of_slot)
  have "evolves s (task_upd i f s)"
  proof (rule evolves_task_upd)
    fix u assume "u \<in> set (sc_tasks s)" "tk_id u = i"
    with t placedD_distinct [OF assms(1)] have "u = t" by (auto intro: distinct_key_eq)
    with t assms(3) show "tstep (length (sc_current_task_ids s)) u (f u)" by simp
  qed
  then show "evolves s (set_cur (rebuild_runnable_indexes (task_upd i f s)) cpu None)"
    by (meson evolves_trans evolves_rebuild evolves_set_cur)
qed (use assms(1,2) placedD_distinct in \<open>auto simp: cur_def split: if_splits\<close>)

lemma evolves_block_current:
  "sched_placed s \<Longrightarrow> block_ok r \<Longrightarrow> evolves s (fst (block_current_on_cpu s cpu r))"
  by (auto simp: block_current_on_cpu_def block_record_def tstep_def task_core_def
      intro!: evolves_stop_current split: option.split)

lemma evolves_exit_current: "sched_placed s \<Longrightarrow> evolves s (fst (exit_current_on_cpu s cpu x))"
  by (auto simp: exit_current_on_cpu_def exit_current_record_def tstep_def task_core_def
      intro!: evolves_stop_current split: option.split)

lemma suspend_record_tstep: "tstep n t (suspend_record t)"
  by (auto simp: tstep_def suspend_record_def task_core_def)

lemma exit_record_tstep: "tstep n t (exit_record x t)"
  by (auto simp: tstep_def exit_record_def task_core_def)

lemma evolves_suspend_task:
  assumes ok: "cpus_ok s" and d: "distinct (map tk_id (sc_tasks s))"
  shows "evolves s (fst (suspend_task s i))"
proof -
  let ?s1 = "task_upd i suspend_record s"
  have s1: "evolves s ?s1" by (rule evolves_task_upd) (rule suspend_record_tstep)
  have "evolves ?s1 (fold (vacate_cpu (\<lambda>_. True) (\<lambda>s. s) i) [0..<cpu_count ?s1] ?s1)"
  proof (rule conjunct1 [OF evolves_fold [where P = "\<lambda>_. True"]])
    fix c s' assume c: "c \<in> set [0..<cpu_count ?s1]" and e: "evolves ?s1 s'"
    from c ok have "c < length (sc_current_task_ids s)"
      using cpus_ok_count [of ?s1] by (simp add: cpus_ok_def)
    with evolves_trans [OF s1 e] d show "evolves s' (vacate_cpu (\<lambda>_. True) (\<lambda>s. s) i c s') \<and> True"
      by (auto simp: vacate_cpu_def evolves_len evolves_distinct
          intro!: evolves_trans [OF evolves_set_cur evolves_schedule_next])
  qed simp
  with s1 have "evolves s (fold (vacate_cpu (\<lambda>_. True) (\<lambda>s. s) i) [0..<cpu_count ?s1] ?s1)"
    by (rule evolves_trans)
  then show ?thesis
    by (auto simp: suspend_task_def Let_def intro: evolves_trans [OF _ evolves_rebuild] split: option.split)
qed

lemma evolves_exit_task:
  assumes ok: "cpus_ok s" and d: "distinct (map tk_id (sc_tasks s))"
  shows "evolves s (fst (exit_task s i x))"
proof -
  let ?s1 = "task_upd i (exit_record x) s"
  have "evolves s ?s1" by (rule evolves_task_upd) (rule exit_record_tstep)
  moreover have "evolves ?s1 (fold (clear_cpu i) xs ?s1)" for xs
    by (rule conjunct1 [OF evolves_fold [where P = "\<lambda>_. True"]]) (auto simp: clear_cpu_def)
  ultimately have "evolves s (fold (clear_cpu i) [0..<cpu_count ?s1] ?s1)" by (rule evolves_trans)
  with ok d show ?thesis
    by (auto simp: exit_task_def Let_def intro!: evolves_fill_rebuild split: option.split)
qed

lemma evolves_hold_process:
  assumes ok: "cpus_ok s" and d: "distinct (map tk_id (sc_tasks s))" and f: "Exited \<notin> set from"
  shows "evolves s (hold_process held from s pr)"
proof -
  let ?s1 = "s\<lparr> sc_tasks := map (hold_record held from pr) (sc_tasks s) \<rparr>"
  have "evolves s ?s1"
    by (rule evolves_map_tasks) (use f in \<open>auto simp: tstep_def hold_record_def task_core_def\<close>)
  moreover have "evolves ?s1 (fold (vacate_state held) xs ?s1)" for xs
    by (rule conjunct1 [OF evolves_fold [where P = "\<lambda>_. True"]])
      (auto simp: vacate_state_def split: option.split)
  ultimately have "evolves s (fold (vacate_state held) xs ?s1)" for xs by (meson evolves_trans)
  with ok d show ?thesis
    by (auto simp: hold_process_def Let_def intro!: evolves_fill_rebuild)
qed

lemma evolves_release_process:
  assumes ok: "cpus_ok s" and d: "distinct (map tk_id (sc_tasks s))" and f: "held \<noteq> Exited"
  shows "evolves s (release_process held s pr)"
proof -
  have "evolves s (s\<lparr> sc_tasks := map (release_record held pr) (sc_tasks s) \<rparr>)"
    by (rule evolves_map_tasks) (use f in \<open>auto simp: tstep_def release_record_def task_core_def\<close>)
  with ok d show ?thesis by (auto simp: release_process_def intro!: evolves_fill_rebuild)
qed

lemma evolves_donate: "evolves s (fst (donate_priority s i p))"
  by (auto simp: donate_priority_def donate_record_def tstep_def task_core_def
      intro!: evolves_trans [OF evolves_task_upd evolves_rebuild] split: option.split)

lemma evolves_restore: "evolves s (fst (restore_base_priority s i))"
  by (auto simp: restore_base_priority_def restore_record_def tstep_def task_core_def
      intro!: evolves_trans [OF evolves_task_upd evolves_rebuild] split: option.split)


text \<open>Choosing a task ends none.\<close>

lemma in_set_upd_first: "x \<in> set (upd_first p f xs) \<Longrightarrow> x \<in> set xs \<or> (\<exists>y\<in>set xs. p y \<and> x = f y)"
  by (induction xs) (auto split: if_splits)

lemma schedule_next_exited:
  assumes "t' \<in> set (sc_tasks (fst (schedule_next_on_cpu s cpu)))" and "tk_state t' = Exited"
  shows "\<exists>t\<in>set (sc_tasks s). tk_id t = tk_id t' \<and> tk_state t = Exited"
proof -
  obtain s' r where e: "schedule_next_on_cpu s cpu = (s', r)" by fastforce
  from e have "t' \<in> set (sc_tasks (replenish s))"
  proof (cases rule: schedule_next_cases)
    case (run cursors i t)
    with assms e show ?thesis
      by (auto simp: task_upd_def start_running_def dest!: in_set_upd_first)
  qed (use assms e in simp)
  with assms(2) show ?thesis by (auto simp: replenish_def)
qed

lemma evolves_set_state:
  assumes "\<And>t. t \<in> set (sc_tasks s) \<Longrightarrow> tk_id t = i \<Longrightarrow> tk_state t \<noteq> Exited"
  shows "evolves s (task_upd i (set_state st) s)"
  using assms by (intro evolves_task_upd) (auto simp: tstep_def set_state_def task_core_def)

lemma evolves_yield_undirected:
  assumes c: "cpu < length (sc_current_task_ids s)" and d: "distinct (map tk_id (sc_tasks s))"
    and y: "\<And>t i. y = Some i \<Longrightarrow> t \<in> set (sc_tasks s) \<Longrightarrow> tk_id t = i \<Longrightarrow> tk_state t \<noteq> Exited"
  shows "evolves s (fst (yield_undirected y cpu s))"
proof -
  define s1 where "s1 = (case y of None \<Rightarrow> s | Some i \<Rightarrow> task_upd i (set_state Suspended) s)"
  obtain s2 nx where e: "schedule_next_on_cpu s1 cpu = (s2, nx)" by fastforce
  define s3 where "s3 = (case y of None \<Rightarrow> s2 | Some i \<Rightarrow> task_upd i (set_state Ready) s2)"
  have e1: "evolves s s1"
    using y by (auto simp: s1_def intro!: evolves_set_state split: option.split)
  with c d have "evolves s1 s2"
    using evolves_schedule_next [of cpu s1] e by (simp add: evolves_len evolves_distinct)
  with e1 have e2: "evolves s s2" by (rule evolves_trans)
  have "tk_state t \<noteq> Exited" if "y = Some i" "t \<in> set (sc_tasks s2)" "tk_id t = i" for t i
  proof
    assume "tk_state t = Exited"
    with schedule_next_exited [of t s1 cpu] e that obtain u where
      "u \<in> set (sc_tasks s1)" "tk_id u = i" "tk_state u = Exited" by auto
    with that d show False by (auto simp: s1_def task_upd_map split: if_splits)
  qed
  then have "evolves s2 s3"
    by (auto simp: s3_def intro!: evolves_set_state split: option.split)
  with e2 have e3: "evolves s s3" by (rule evolves_trans)
  with c d have "evolves s3 (fst (schedule_next_on_cpu s3 cpu))"
    by (intro evolves_schedule_next) (auto simp: evolves_len evolves_distinct)
  with e3 e show ?thesis
    by (auto simp: yield_undirected_def Let_def s1_def [symmetric] s3_def [symmetric]
        intro: evolves_trans)
qed

lemma release_current_in:
  assumes "u \<in> set (sc_tasks (release_current cpu s))"
  shows "\<exists>v\<in>set (sc_tasks s). tk_id v = tk_id u \<and> (v = u \<or> tk_state u = Ready)"
  using assms
  by (force simp: release_current_def task_upd_def split: option.splits dest: in_set_upd_first)

lemma evolves_yield_on_cpu:
  assumes p: "sched_placed s"
  shows "evolves s (fst (yield_current_to_on_cpu s cpu target))"
proof (cases "ensure_cpu_id s cpu \<and> (case target of None \<Rightarrow> True | Some i \<Rightarrow>
              (\<exists>t. task_of s i = Some t \<and> dispatchable s cpu t))")
  case True
  note d = placedD_distinct [OF p]
  have c: "cpu < length (sc_current_task_ids s)" using True by (simp add: ensure_cpu_id_def)
  from True yield_eq [OF p] obtain g where y: "yield_current_to_on_cpu s cpu target =
    (let (s3, next) = (case target of Some i \<Rightarrow> yield_directed i cpu
                        (add_group_tick_if_present g DEFAULT_FAIR_QUANTUM_NS (release_current cpu s))
                      | None \<Rightarrow> yield_undirected (cur s cpu) cpu
                        (add_group_tick_if_present g DEFAULT_FAIR_QUANTUM_NS (release_current cpu s)))
     in (rebuild_runnable_indexes s3, Inr (decision (cur s cpu) next cpu)))" by blast
  let ?s2 = "add_group_tick_if_present g DEFAULT_FAIR_QUANTUM_NS (release_current cpu s)"
  have run: "tk_state t = Running" if "cur s cpu = Some i" "t \<in> set (sc_tasks s)" "tk_id t = i" for t i
    using placed_slot_state(1) [OF p _ _ that(2), of cpu] that by (auto simp: cur_def split: if_splits)
  then have "evolves s (release_current cpu s)"
    by (auto simp: release_current_def intro!: evolves_set_state split: option.split)
  then have s2: "evolves s ?s2" by (rule evolves_trans) simp
  have "evolves ?s2 (fst (case target of Some i \<Rightarrow> yield_directed i cpu ?s2
      | None \<Rightarrow> yield_undirected (cur s cpu) cpu ?s2))"
  proof (cases target)
    case None
    have "tk_state t \<noteq> Exited" if "cur s cpu = Some i" "t \<in> set (sc_tasks ?s2)" "tk_id t = i" for t i
    proof -
      from that release_current_in [of t cpu s] obtain v
        where "v \<in> set (sc_tasks s)" "tk_id v = i" "v = t \<or> tk_state t = Ready" by auto
      with run that(1) show ?thesis by auto
    qed
    then have "evolves ?s2 (fst (yield_undirected (cur s cpu) cpu ?s2))"
      using c evolves_distinct [OF s2 d] by (intro evolves_yield_undirected) auto
    with None show ?thesis by simp
  next
    case (Some i)
    with True obtain t where "task_of s i = Some t" "dispatchable s cpu t" by auto
    then have t: "t \<in> set (sc_tasks s)" "tk_id t = i" "tk_state t = Ready"
      by (auto simp: task_of_def dispatchable_def dest: find_Some_in)
    have "tk_state u \<noteq> Exited" if "u \<in> set (sc_tasks ?s2)" "tk_id u = i" for u
    proof -
      from that release_current_in [of u cpu s] obtain v
        where v: "v \<in> set (sc_tasks s)" "tk_id v = i" "v = u \<or> tk_state u = Ready" by auto
      with t d have "v = t" by (auto intro: distinct_key_eq)
      with v t show ?thesis by auto
    qed
    then have "evolves (set_cur ?s2 cpu (Some i)) (task_upd i run_target_record (set_cur ?s2 cpu (Some i)))"
      by (intro evolves_task_upd) (auto simp: tstep_def run_target_record_def task_core_def)
    with evolves_set_cur [of ?s2 cpu "Some i"]
    have "evolves ?s2 (task_upd i run_target_record (set_cur ?s2 cpu (Some i)))"
      by (rule evolves_trans)
    with Some show ?thesis by (simp add: yield_directed_def)
  qed
  from evolves_trans [OF evolves_trans [OF s2 this] evolves_rebuild] show ?thesis
    unfolding y by (simp add: case_prod_unfold Let_def)
qed (auto simp: yield_current_to_on_cpu_def split: option.splits)

lemma evolves_yield_at:
  assumes p: "sched_placed s" and ok: "cpus_ok s"
  shows "evolves s (fst (yield_current_to_at_on_cpu s cpu target now))"
proof -
  let ?s1 = "(account_runtime now s)\<lparr> sc_now_ns := now \<rparr>"
  let ?s2 = "fst (wake_expired_deadlines ?s1)"
  have e1: "evolves s ?s1" by (rule evolves_trans [OF evolves_account_runtime [of s now]]) simp
  have p1: "sched_placed ?s1" using p by (simp add: account_runtime_placed)
  have ok1: "cpus_ok ?s1" using ok by (simp add: cpus_ok_def)
  have "evolves ?s1 ?s2"
    unfolding wake_expired_deadlines_def using ok1 placedD_distinct [OF p1] by (rule evolves_wake_all)
  moreover have "evolves ?s2 (fst (yield_current_to_on_cpu ?s2 cpu target))"
    by (rule evolves_yield_on_cpu) (rule wake_expired_placed(1) [OF p1 ok1])
  ultimately have "evolves s (fst (yield_current_to_on_cpu ?s2 cpu target))"
    using e1 by (meson evolves_trans)
  then show ?thesis by (auto simp: yield_current_to_at_on_cpu_def Let_def)
qed

end
