(* ===== verification/Sched_Index.thy ===== *)
theory Sched_Index
  imports Sched_Evolve
begin

text \<open>
  The runnable indexes. The per-group counter \<open>runnable_tasks\<close> is the number of
  ready and running tasks of the group at every operation boundary, and the
  four-word priority bitmap with its leading-zero search computes the highest
  effective priority among the eligible tasks.
\<close>

section \<open>The priority bitmap\<close>

definition bitmap_bits :: "u64 list \<Rightarrow> nat set" where
  "bitmap_bits bm = {p. p < 256 \<and> bit (bm ! (p div 64)) (p mod 64)}"

lemma bitmap_bits_empty [simp]: "bitmap_bits (replicate FAIR_PRIORITY_WORDS 0) = {}"
  by (auto simp: bitmap_bits_def FAIR_PRIORITY_WORDS_def nth_replicate)

lemma unat_u8_lt: "unat (p :: u8) < 256"
  by (rule order.strict_trans2 [OF unsigned_less]) simp

lemma div_mod_64_eq: "p div 64 = q div 64 \<Longrightarrow> p mod 64 = q mod 64 \<Longrightarrow> p = (q :: nat)"
  by (metis mult_div_mod_eq)

lemma bitmap_bits_set:
  assumes "length bm = FAIR_PRIORITY_WORDS"
  shows "bitmap_bits (set_ready_priority bm p) = insert (unat p) (bitmap_bits bm)"
proof -
  have len: "unat p div 64 < length bm" using unat_u8_lt [of p] assms by (simp add: FAIR_PRIORITY_WORDS_def)
  have one: "bit (push_bit (unat p mod 64) (1 :: u64)) k \<longleftrightarrow> k = unat p mod 64" if "k < 64" for k
    using that by (auto simp: bit_exp_iff)
  have "q \<in> bitmap_bits (set_ready_priority bm p) \<longleftrightarrow> q \<in> insert (unat p) (bitmap_bits bm)" for q
  proof (cases "q div 64 = unat p div 64")
    case True
    then have "bit (set_ready_priority bm p ! (q div 64)) (q mod 64) \<longleftrightarrow>
        bit (bm ! (q div 64)) (q mod 64) \<or> q mod 64 = unat p mod 64"
      using len one [of "q mod 64"] by (simp add: set_ready_priority_def Let_def bit_or_iff)
    with True unat_u8_lt [of p] div_mod_64_eq [of q "unat p"] show ?thesis
      by (auto simp: bitmap_bits_def)
  next
    case False
    then have "set_ready_priority bm p ! (q div 64) = bm ! (q div 64)"
      by (simp add: set_ready_priority_def Let_def)
    with False show ?thesis by (auto simp: bitmap_bits_def)
  qed
  then show ?thesis by blast
qed

lemma fold_bitmap_bits:
  assumes "length bm = FAIR_PRIORITY_WORDS"
  shows "bitmap_bits (fold (\<lambda>t bm. if P t then set_ready_priority bm (k t) else bm) ts bm) =
      bitmap_bits bm \<union> (\<lambda>t. unat (k t)) ` {t \<in> set ts. P t}"
    and "length (fold (\<lambda>t bm. if P t then set_ready_priority bm (k t) else bm) ts bm) = FAIR_PRIORITY_WORDS"
  using assms by (induction ts arbitrary: bm) (auto simp: bitmap_bits_set)

definition high_bit :: "u64 \<Rightarrow> nat" where
  "high_bit w = 63 - leading_zeros w"

lemma high_bit:
  assumes "w \<noteq> 0"
  shows "high_bit w < 64" and "bit w (high_bit w)" and "high_bit w < i \<Longrightarrow> \<not> bit w i"
proof -
  define xs where "xs = rev [0..<(64 :: nat)]"
  define k where "k = leading_zeros w"
  have k: "k = length (takeWhile (\<lambda>i. \<not> bit w i) xs)"
    by (simp add: k_def leading_zeros_def xs_def)
  have nth: "j < 64 \<Longrightarrow> xs ! j = 63 - j" for j
    by (simp add: xs_def rev_nth)
  from assms obtain n where n: "bit w n" by (auto simp: bit_eq_iff)
  with bit_imp_le_length [OF n] have n64: "n < 64" by simp
  have "k < length xs"
  proof (rule ccontr)
    assume "\<not> k < length xs"
    then have "takeWhile (\<lambda>i. \<not> bit w i) xs = xs"
      using k by (metis length_takeWhile_le order_antisym not_less takeWhile_eq_take take_all)
    then have "\<forall>x\<in>set xs. \<not> bit w x" by (simp add: takeWhile_eq_all_conv)
    with n n64 show False by (simp add: xs_def)
  qed
  then have k64: "k < 64" by (simp add: xs_def)
  show "high_bit w < 64" by (simp add: high_bit_def)
  show "bit w (high_bit w)"
    using nth_length_takeWhile [of "\<lambda>i. \<not> bit w i" xs] \<open>k < length xs\<close> nth [OF k64]
    by (simp add: k [symmetric] high_bit_def k_def [symmetric])
  show "\<not> bit w i" if "high_bit w < i"
  proof (cases "i < 64")
    case True
    with that k64 have j: "63 - i < k" "63 - i < 64" by (auto simp: high_bit_def k_def [symmetric])
    then have "takeWhile (\<lambda>i. \<not> bit w i) xs ! (63 - i) \<in> set (takeWhile (\<lambda>i. \<not> bit w i) xs)"
      by (intro nth_mem) (simp add: k [symmetric])
    then have "\<not> bit w (xs ! (63 - i))"
      using j by (metis k set_takeWhileD takeWhile_nth)
    with nth [OF j(2)] True show ?thesis by simp
  qed (use bit_imp_le_length in force)
qed

lemma highest_ready_priority_eq:
  "highest_ready_priority bm =
     (if bm ! 3 \<noteq> 0 then Some (of_nat (192 + high_bit (bm ! 3)))
      else if bm ! 2 \<noteq> 0 then Some (of_nat (128 + high_bit (bm ! 2)))
      else if bm ! 1 \<noteq> 0 then Some (of_nat (64 + high_bit (bm ! 1)))
      else if bm ! 0 \<noteq> 0 then Some (of_nat (high_bit (bm ! 0))) else None)"
proof -
  have "rev [0..<FAIR_PRIORITY_WORDS] = [3, 2, 1, 0]" by (simp add: FAIR_PRIORITY_WORDS_def upt_rec)
  then show ?thesis by (simp add: highest_ready_priority_def Let_def high_bit_def)
qed

text \<open>The value found in word \<open>k\<close> when all higher words are zero.\<close>

lemma bitmap_word_max:
  assumes w: "bm ! k \<noteq> 0" and k: "k < 4" and hi: "\<And>j. k < j \<Longrightarrow> j < 4 \<Longrightarrow> bm ! j = 0"
  shows "k * 64 + high_bit (bm ! k) \<in> bitmap_bits bm"
    and "q \<in> bitmap_bits bm \<Longrightarrow> q \<le> k * 64 + high_bit (bm ! k)"
proof -
  note h = high_bit [OF w]
  show "k * 64 + high_bit (bm ! k) \<in> bitmap_bits bm"
    using h k by (simp add: bitmap_bits_def)
  assume q: "q \<in> bitmap_bits bm"
  then have b: "bit (bm ! (q div 64)) (q mod 64)" "q < 256" by (auto simp: bitmap_bits_def)
  have "q div 64 \<le> k" using b hi [of "q div 64"] by (cases "q div 64 \<le> k") auto
  moreover have "q mod 64 \<le> high_bit (bm ! k)" if "q div 64 = k"
    using h(3) [of "q mod 64"] b that by (metis not_le)
  ultimately show "q \<le> k * 64 + high_bit (bm ! k)"
    using div_mult_mod_eq [of q 64] mod_less_divisor [of 64 q]
    by (cases "q div 64 = k") auto
qed

lemma bitmap_no_word:
  assumes "\<And>j. j < 4 \<Longrightarrow> bm ! j = 0" shows "bitmap_bits bm = {}"
proof -
  have "bm ! (q div 64) = 0" if "q < 256" for q using that by (intro assms) simp
  then show ?thesis by (auto simp: bitmap_bits_def)
qed

lemma finite_bitmap_bits [simp]: "finite (bitmap_bits bm)"
  by (simp add: bitmap_bits_def)

lemma highest_ready_priority_Max:
  "highest_ready_priority bm =
     (if bitmap_bits bm = {} then None else Some (of_nat (Max (bitmap_bits bm))))"
proof -
  have l4: "j < 4 \<longleftrightarrow> j = 0 \<or> j = 1 \<or> j = 2 \<or> j = (3 :: nat)" for j by auto
  have max: "bitmap_bits bm \<noteq> {} \<and> Max (bitmap_bits bm) = k * 64 + high_bit (bm ! k)"
    if "bm ! k \<noteq> 0" "k < 4" "\<And>j. k < j \<Longrightarrow> j < 4 \<Longrightarrow> bm ! j = 0" for k
    using bitmap_word_max [OF that] by (auto intro: Max_eqI)
  consider "bm ! 3 \<noteq> 0" | "bm ! 3 = 0" "bm ! 2 \<noteq> 0" | "bm ! 3 = 0" "bm ! 2 = 0" "bm ! 1 \<noteq> 0"
    | "bm ! 3 = 0" "bm ! 2 = 0" "bm ! 1 = 0" "bm ! 0 \<noteq> 0"
    | "bm ! 3 = 0" "bm ! 2 = 0" "bm ! 1 = 0" "bm ! 0 = 0" by blast
  then show ?thesis
  proof cases
    case 1
    have "bitmap_bits bm \<noteq> {} \<and> Max (bitmap_bits bm) = 3 * 64 + high_bit (bm ! 3)"
      by (rule max) (use 1 in auto)
    with 1 show ?thesis by (simp add: highest_ready_priority_eq)
  next
    case 2
    have "bitmap_bits bm \<noteq> {} \<and> Max (bitmap_bits bm) = 2 * 64 + high_bit (bm ! 2)"
      by (rule max) (use 2 in \<open>auto simp: l4\<close>)
    with 2 show ?thesis by (simp add: highest_ready_priority_eq)
  next
    case 3
    have "bitmap_bits bm \<noteq> {} \<and> Max (bitmap_bits bm) = 1 * 64 + high_bit (bm ! 1)"
      by (rule max) (use 3 in \<open>auto simp: l4\<close>)
    with 3 show ?thesis by (simp add: highest_ready_priority_eq)
  next
    case 4
    have "bitmap_bits bm \<noteq> {} \<and> Max (bitmap_bits bm) = 0 * 64 + high_bit (bm ! 0)"
      by (rule max) (use 4 in \<open>auto simp: l4\<close>)
    with 4 show ?thesis by (simp add: highest_ready_priority_eq)
  next
    case 5
    then have "bitmap_bits bm = {}" by (intro bitmap_no_word) (auto simp: l4)
    with 5 show ?thesis by (simp add: highest_ready_priority_eq)
  qed
qed

lemma group_bitmap_bits:
  "bitmap_bits (fair_ready_bitmap_for_group s g cpu) =
     unat ` set (map tk_effective_priority (filter (fair_dispatchable s cpu g) (sc_tasks s)))"
  unfolding fair_ready_bitmap_for_group_def
  by (subst fold_bitmap_bits) (auto simp: image_image)

lemma Max_unat_word:
  assumes "finite A" and "A \<noteq> {}"
  shows "word_of_nat (Max (unat ` A)) = Max (A :: u8 set)"
proof -
  have "Max (unat ` A) = unat (Max A)"
    by (rule mono_Max_commute [OF _ assms, symmetric]) (simp add: mono_def word_le_nat_alt)
  then show ?thesis by simp
qed

lemma highest_ready_priority_group:
  "highest_ready_priority (fair_ready_bitmap_for_group s g cpu) =
     iter_max (map tk_effective_priority (filter (fair_dispatchable s cpu g) (sc_tasks s)))"
  by (simp add: highest_ready_priority_Max group_bitmap_bits iter_max_eq Max_unat_word del: set_map set_filter)


section \<open>The group counters\<close>

definition runnable :: "scheduler_task \<Rightarrow> bool" where
  "runnable t \<longleftrightarrow> tk_state t = Ready \<or> tk_state t = Running"

definition runnable_count :: "scheduler_task list \<Rightarrow> u32 \<Rightarrow> nat" where
  "runnable_count ts i = length (filter (\<lambda>t. runnable t \<and> tk_resource_group_id t = i) ts)"

definition runnable_ok :: "scheduler \<Rightarrow> bool" where
  "runnable_ok s \<longleftrightarrow>
     (\<forall>g\<in>set (sc_groups s). unat (rg_runnable_tasks g) = min (runnable_count (sc_tasks s) (rg_id g)) 65535)"

definition run_key :: "scheduler_task \<Rightarrow> u32 \<times> bool" where
  "run_key t = (tk_resource_group_id t, runnable t)"

lemma runnable_count_keys:
  "runnable_count ts i = length (filter (\<lambda>k. snd k \<and> fst k = i) (map run_key ts))"
  by (induction ts) (auto simp: runnable_count_def run_key_def)

lemma runnable_ok_cong:
  assumes "map run_key (sc_tasks s') = map run_key (sc_tasks s)"
    and "map (\<lambda>g. (rg_id g, rg_runnable_tasks g)) (sc_groups s') =
         map (\<lambda>g. (rg_id g, rg_runnable_tasks g)) (sc_groups s)"
  shows "runnable_ok s' = runnable_ok s"
proof -
  have ok: "runnable_ok x \<longleftrightarrow> (\<forall>(i, n)\<in>set (map (\<lambda>g. (rg_id g, rg_runnable_tasks g)) (sc_groups x)).
      unat n = min (length (filter (\<lambda>k. snd k \<and> fst k = i) (map run_key (sc_tasks x)))) 65535)" for x
    by (auto simp: runnable_ok_def runnable_count_keys)
  show ?thesis unfolding ok assms ..
qed

lemma fold_index_counts:
  assumes "distinct (map rg_id gs)"
  shows "map rg_id (fst (fold index_task ts (gs, bm))) = map rg_id gs \<and>
    (\<forall>g\<in>set (fst (fold index_task ts (gs, bm))).
       \<exists>g0\<in>set gs. rg_id g0 = rg_id g \<and>
         unat (rg_runnable_tasks g) =
           min (unat (rg_runnable_tasks g0) + runnable_count ts (rg_id g)) 65535)"
  using assms
proof (induction ts arbitrary: gs bm)
  case Nil
  have "unat (rg_runnable_tasks g) \<le> 65535" for g :: resource_group
    using unsigned_less [of "rg_runnable_tasks g"] unat_max_of [where 'a = 16]
      le_max_of [of "rg_runnable_tasks g"] by (simp only: word_le_nat_alt) simp
  then show ?case by (force simp: runnable_count_def)
next
  case (Cons t ts)
  obtain gs1 bm1 where i: "index_task t (gs, bm) = (gs1, bm1)" by fastforce
  define f where "f = (\<lambda>g :: resource_group. if runnable t \<and> rg_id g = tk_resource_group_id t
      then g\<lparr> rg_runnable_tasks := sat_add (rg_runnable_tasks g) 1 \<rparr> else g)"
  have gs1: "gs1 = map f gs"
    using i Cons.prems upd_first_distinct [of rg_id gs "tk_resource_group_id t"]
    by (auto simp: index_task_def f_def runnable_def intro!: map_idI [symmetric])
  have ids: "map rg_id gs1 = map rg_id gs" by (auto simp: gs1 f_def)
  with Cons.prems have d1: "distinct (map rg_id gs1)" by simp
  note IH = Cons.IH [OF d1, of bm1]
  have "\<exists>g0\<in>set gs. rg_id g0 = rg_id g \<and> unat (rg_runnable_tasks g) =
      min (unat (rg_runnable_tasks g0) + runnable_count (t # ts) (rg_id g)) 65535"
    if "g \<in> set (fst (fold index_task ts (gs1, bm1)))" for g
  proof -
    from IH that obtain g1 where g1: "g1 \<in> set gs1" "rg_id g1 = rg_id g"
      "unat (rg_runnable_tasks g) = min (unat (rg_runnable_tasks g1) + runnable_count ts (rg_id g)) 65535"
      by blast
    then obtain g0 where g0: "g0 \<in> set gs" "g1 = f g0" by (auto simp: gs1)
    moreover have "rg_id g0 = rg_id g" using g0 g1 by (auto simp: f_def split: if_splits)
    moreover have "min (unat (rg_runnable_tasks g1) + runnable_count ts (rg_id g)) 65535 =
        min (unat (rg_runnable_tasks g0) + runnable_count (t # ts) (rg_id g)) 65535"
      using g0 \<open>rg_id g0 = rg_id g\<close> by (auto simp: f_def runnable_count_def unat_sat_add)
    ultimately show ?thesis using g1 by metis
  qed
  with IH ids i show ?case by simp
qed

lemma rebuild_runnable_ok:
  assumes "distinct (map rg_id (sc_groups s))"
  shows "runnable_ok (rebuild_runnable_indexes s)"
proof -
  let ?gs = "map (\<lambda>g. g\<lparr> rg_runnable_tasks := 0 \<rparr>) (sc_groups s)"
  let ?r = "fold index_task (sc_tasks s) (?gs, replicate FAIR_PRIORITY_WORDS 0)"
  have "distinct (map rg_id ?gs)" using assms by (simp add: comp_def)
  from fold_index_counts [OF this, of "sc_tasks s" "replicate FAIR_PRIORITY_WORDS 0"]
  have "\<forall>g\<in>set (fst ?r). unat (rg_runnable_tasks g) = min (runnable_count (sc_tasks s) (rg_id g)) 65535"
    by force
  moreover have "sc_groups (rebuild_runnable_indexes s) = fst ?r"
    by (simp add: rebuild_runnable_indexes_def case_prod_unfold Let_def)
  ultimately show ?thesis by (simp add: runnable_ok_def)
qed

section \<open>The counters at operation boundaries\<close>

lemma map_upd_first_key:
  assumes "\<And>t. t \<in> set xs \<Longrightarrow> p t \<Longrightarrow> k (f t) = k t"
  shows "map k (upd_first p f xs) = map k xs"
  using assms by (induction xs) auto

lemma runnable_ok_task_upd:
  assumes "\<And>t. t \<in> set (sc_tasks s) \<Longrightarrow> tk_id t = i \<Longrightarrow> run_key (f t) = run_key t"
  shows "runnable_ok (task_upd i f s) = runnable_ok s"
  by (rule runnable_ok_cong) (use assms in \<open>auto simp: task_upd_def intro: map_upd_first_key\<close>)

lemma runnable_ok_sel [simp]:
  "runnable_ok (set_cur s c v) = runnable_ok s"
  "runnable_ok (s\<lparr> sc_fair_task_cursors := cu \<rparr>) = runnable_ok s"
  "runnable_ok (s\<lparr> sc_now_ns := a \<rparr>) = runnable_ok s"
  "runnable_ok (s\<lparr> sc_now_ns := a, sc_total_ticks := b \<rparr>) = runnable_ok s"
  "runnable_ok (s\<lparr> sc_runtime := rt \<rparr>) = runnable_ok s"
  "runnable_ok (replenish s) = runnable_ok s"
  by (rule runnable_ok_cong; simp add: replenish_def run_key_def runnable_def refill_task_def)+

lemma add_group_tick_loop_run:
  "map (\<lambda>g. (rg_id g, rg_runnable_tasks g)) (add_group_tick_loop n now fair e i gs) =
   map (\<lambda>g. (rg_id g, rg_runnable_tasks g)) gs"
proof -
  have c: "(rg_id (charge_group now fair e g), rg_runnable_tasks (charge_group now fair e g)) =
      (rg_id g, rg_runnable_tasks g)" for now fair e g
    by (simp add: charge_group_def Let_def)
  show ?thesis
    by (induction n now fair e i gs rule: add_group_tick_loop.induct)
      (simp_all add: map_upd_first_core c split: option.split)
qed

lemma runnable_ok_group_tick [simp]:
  "runnable_ok (add_group_tick_if_present g e s) = runnable_ok s"
proof -
  have t: "runnable_ok (add_group_tick i f e s) = runnable_ok s" for i f s
    unfolding add_group_tick_def
    by (rule runnable_ok_cong) (simp_all add: add_group_tick_loop_run del: add_group_tick_loop.simps)
  have c: "runnable_ok (clamp_runnable_group_lag s) = runnable_ok s" for s
    by (rule runnable_ok_cong) (auto simp: clamp_runnable_group_lag_def Let_def split: option.split)
  show ?thesis
    by (simp add: add_group_tick_if_present_def Let_def t c split: option.split)
qed

lemma runnable_ok_schedule_next:
  assumes d: "distinct (map tk_id (sc_tasks s))"
  shows "runnable_ok (fst (schedule_next_on_cpu s cpu)) = runnable_ok s"
proof -
  obtain s' r where e: "schedule_next_on_cpu s cpu = (s', r)" by fastforce
  from e have "runnable_ok s' = runnable_ok s"
  proof (cases rule: schedule_next_cases)
    case (run cursors i t)
    have "distinct (map tk_id (sc_tasks (replenish s)))" using d by (simp add: replenish_def comp_def)
    with run have "tk_state u = Ready" if "u \<in> set (sc_tasks (replenish s))" "tk_id u = i" for u
      using distinct_key_eq that by (metis dispatchable_def)
    then have "runnable_ok (task_upd i (start_running (sc_now_ns s) cpu)
        ((set_cur (replenish s) cpu (Some i))\<lparr> sc_fair_task_cursors := cursors \<rparr>)) = runnable_ok s"
      by (subst runnable_ok_task_upd) (auto simp: run_key_def runnable_def start_running_def)
    with run show ?thesis by simp
  qed simp
  with e show ?thesis by simp
qed

lemma schedule_next_ids: "map tk_id (sc_tasks (fst (schedule_next_on_cpu s cpu))) = map tk_id (sc_tasks s)"
proof -
  obtain s' r where e: "schedule_next_on_cpu s cpu = (s', r)" by fastforce
  then have "map tk_id (sc_tasks s') = map tk_id (sc_tasks s)"
    by (cases rule: schedule_next_cases)
      (simp_all add: task_upd_def map_upd_first start_running_def replenish_def comp_def)
  with e show ?thesis by simp
qed

lemma runnable_ok_fill_idle:
  assumes "distinct (map tk_id (sc_tasks s))" and "runnable_ok s"
  shows "runnable_ok (fill_idle s)"
  unfolding fill_idle_def
  by (rule conjunct1 [OF fold_invariant [where P = "\<lambda>s'. runnable_ok s' \<and> map tk_id (sc_tasks s') = map tk_id (sc_tasks s)"]])
    (use assms in \<open>auto simp: fill_cpu_def runnable_ok_schedule_next schedule_next_ids\<close>)

lemma runnable_ok_fill_rebuild:
  assumes "distinct (map tk_id (sc_tasks s))" and "distinct (map rg_id (sc_groups s))"
  shows "runnable_ok (fill_idle (rebuild_runnable_indexes s))"
  using assms by (intro runnable_ok_fill_idle rebuild_runnable_ok) simp_all

end
