(* ===== verification/Sched_Groups.thy ===== *)
theory Sched_Groups
  imports Sched_Index
begin

text \<open>
  The resource-group tree. The three \<open>while let\<close> walks of the source are
  written here as partial functions, whose value is \<open>None\<close> when the walk does
  not return. On an acyclic tree they return what the fuelled versions of
  Sched_Core compute; on a cycle they do not return. The operations that create
  groups keep the tree acyclic unless an existing root is given a parent.
\<close>

section \<open>The walks as loops\<close>

partial_function (option) has_quota_walk :: "resource_group list \<Rightarrow> u32 option \<Rightarrow> bool option" where
  "has_quota_walk gs a =
     (case a of
        None \<Rightarrow> Some True
      | Some i \<Rightarrow>
          (case find_group gs i of
             None \<Rightarrow> Some False
           | Some g \<Rightarrow> if quota_exhausted g then Some False
                      else has_quota_walk gs (rg_parent_id g)))"

partial_function (option) allows_realtime_walk :: "resource_group list \<Rightarrow> u32 option \<Rightarrow> bool option" where
  "allows_realtime_walk gs a =
     (case a of
        None \<Rightarrow> Some True
      | Some i \<Rightarrow>
          (case find_group gs i of
             None \<Rightarrow> Some False
           | Some g \<Rightarrow> if \<not> rg_allow_realtime g then Some False
                      else allows_realtime_walk gs (rg_parent_id g)))"

partial_function (option) group_tick_walk ::
    "u64 \<Rightarrow> bool \<Rightarrow> u64 \<Rightarrow> u32 option \<Rightarrow> resource_group list \<Rightarrow> resource_group list option" where
  "group_tick_walk now fair el a gs =
     (case a of
        None \<Rightarrow> Some gs
      | Some i \<Rightarrow>
          (case find_group gs i of
             None \<Rightarrow> Some gs
           | Some g \<Rightarrow> group_tick_walk now fair el (rg_parent_id g)
                        (upd_first (\<lambda>g. rg_id g = i) (charge_group now fair el) gs)))"

section \<open>Enough fuel\<close>

lemma has_quota_walk_eq:
  "chain_ends n gs a \<Longrightarrow> has_quota_walk gs a = Some (group_has_quota_loop n gs a)"
  by (induction n gs a rule: chain_ends.induct)
    (subst has_quota_walk.simps; auto split: option.splits)+

lemma allows_realtime_walk_eq:
  "chain_ends n gs a \<Longrightarrow> allows_realtime_walk gs a = Some (group_allows_realtime_loop n gs a)"
  by (induction n gs a rule: chain_ends.induct)
    (subst allows_realtime_walk.simps; auto split: option.splits)+

definition parent_key :: "resource_group \<Rightarrow> u32 \<times> u32 option" where
  "parent_key g = (rg_id g, rg_parent_id g)"

lemma find_group_parent:
  assumes "map parent_key gs' = map parent_key gs"
  shows "map_option rg_parent_id (find_group gs' i) = map_option rg_parent_id (find_group gs i)"
  using assms
proof (induction gs' gs rule: list_induct2')
  case (4 x xs y ys)
  then show ?case by (auto simp: find_group_def parent_key_def)
qed (auto simp: find_group_def)

lemma chain_ends_cong:
  assumes "map parent_key gs' = map parent_key gs"
  shows "chain_ends n gs' a = chain_ends n gs a"
proof (induction n arbitrary: a)
  case 0
  show ?case by (cases a) simp_all
next
  case (Suc n)
  show ?case
  proof (cases a)
    case (Some i)
    from find_group_parent [OF assms, of i] Suc show ?thesis
      by (cases "find_group gs i"; cases "find_group gs' i") (auto simp: Some)
  qed simp
qed

lemma charge_parent_key:
  "map parent_key (upd_first p (charge_group now fair e) gs) = map parent_key gs"
  by (rule map_upd_first) (simp add: parent_key_def charge_group_def Let_def)

lemma group_tick_walk_eq:
  "chain_ends n gs a \<Longrightarrow>
     group_tick_walk now fair el a gs = Some (add_group_tick_loop n now fair el a gs)"
proof (induction n now fair el a gs rule: add_group_tick_loop.induct)
  case (3 n now fair el i gs)
  show ?case
  proof (cases "find_group gs i")
    case (Some g)
    with 3 chain_ends_cong [OF charge_parent_key] show ?thesis
      by (subst group_tick_walk.simps) simp
  qed (subst group_tick_walk.simps, simp)
qed (subst group_tick_walk.simps; simp)+

lemma acyclic_chain:
  assumes "groups_acyclic gs"
  shows "chain_ends (Suc (length gs)) gs (Some i)"
proof (cases "find_group gs i")
  case (Some g)
  then have "g \<in> set gs" "rg_id g = i" by (auto simp: find_group_def dest: find_Some_in)
  with assms show ?thesis unfolding groups_acyclic_def by blast
qed simp

text \<open>On an acyclic tree the operations are what the loops compute.\<close>

lemma group_has_quota_walk:
  "groups_acyclic (sc_groups s) \<Longrightarrow> has_quota_walk (sc_groups s) (Some i) = Some (group_has_quota s i)"
  unfolding group_has_quota_def by (rule has_quota_walk_eq) (rule acyclic_chain)

lemma group_allows_realtime_walk:
  "groups_acyclic (sc_groups s) \<Longrightarrow>
     allows_realtime_walk (sc_groups s) (Some i) = Some (group_allows_realtime s i)"
  unfolding group_allows_realtime_def by (rule allows_realtime_walk_eq) (rule acyclic_chain)

lemma add_group_tick_walk:
  "groups_acyclic (sc_groups s) \<Longrightarrow>
     group_tick_walk (sc_now_ns s) fair el (Some i) (sc_groups s) =
       Some (sc_groups (add_group_tick i fair el s))"
  using group_tick_walk_eq [OF acyclic_chain]
  by (simp add: add_group_tick_def del: add_group_tick_loop.simps chain_ends.simps)

section \<open>Cycles\<close>

text \<open>
  A set of groups closed under taking parents, none of which stops the walk:
  the walk never returns.
\<close>

definition quota_trap :: "resource_group list \<Rightarrow> u32 set \<Rightarrow> bool" where
  "quota_trap gs C \<longleftrightarrow>
     (\<forall>i\<in>C. \<exists>g p. find_group gs i = Some g \<and> \<not> quota_exhausted g \<and> rg_parent_id g = Some p \<and> p \<in> C)"

lemma has_quota_walk_trap:
  assumes t: "quota_trap gs C" and i: "i \<in> C"
  shows "has_quota_walk gs (Some i) = None"
proof (rule ccontr)
  assume "has_quota_walk gs (Some i) \<noteq> None"
  then obtain b where b: "has_quota_walk gs (Some i) = Some b" by blast
  have "\<forall>i\<in>C. a \<noteq> Some i \<or> gs' \<noteq> gs" if "has_quota_walk gs' a = Some b" for a gs' b
    using that
  proof (rule has_quota_walk.raw_induct [rotated])
    fix walk :: "resource_group list \<Rightarrow> u32 option \<Rightarrow> bool option" and gs' a b
    assume IH: "\<And>gs' a b. walk gs' a = Some b \<Longrightarrow> \<forall>i\<in>C. a \<noteq> Some i \<or> gs' \<noteq> gs"
      and body: "(case a of None \<Rightarrow> Some True | Some i \<Rightarrow> (case find_group gs' i of None \<Rightarrow> Some False
          | Some g \<Rightarrow> if quota_exhausted g then Some False else walk gs' (rg_parent_id g))) = Some b"
    show "\<forall>i\<in>C. a \<noteq> Some i \<or> gs' \<noteq> gs"
    proof (rule ccontr)
      assume "\<not> ?thesis"
      then obtain j where j: "j \<in> C" "a = Some j" "gs' = gs" by blast
      with t obtain g p where "find_group gs j = Some g" "\<not> quota_exhausted g"
          "rg_parent_id g = Some p" "p \<in> C" unfolding quota_trap_def by blast
      with body j have "walk gs (Some p) = Some b" by simp
      with IH \<open>p \<in> C\<close> show False by blast
    qed
  qed
  with b i show False by blast
qed


section \<open>Well-formed group tables\<close>

definition group_ok :: "resource_group list \<Rightarrow> resource_group \<Rightarrow> bool" where
  "group_ok gs g \<longleftrightarrow>
     rg_id g \<noteq> 0 \<and> rg_cpu_shares g \<noteq> 0 \<and> rg_max_utilization_permille g \<le> 1000 \<and>
     (case rg_parent_id g of None \<Rightarrow> True | Some p \<Rightarrow> p \<in> rg_id ` set gs)"

definition groups_ok :: "resource_group list \<Rightarrow> bool" where
  "groups_ok gs \<longleftrightarrow>
     distinct (map rg_id gs) \<and> (\<forall>g\<in>set gs. group_ok gs g) \<and> groups_acyclic gs"

lemma group_ok_mono: "rg_id ` set gs \<subseteq> rg_id ` set gs' \<Longrightarrow> group_ok gs g \<Longrightarrow> group_ok gs' g"
  by (auto simp: group_ok_def split: option.splits)

lemma groups_okD:
  assumes "groups_ok gs"
  shows "distinct (map rg_id gs)" and "groups_acyclic gs" and "g \<in> set gs \<Longrightarrow> group_ok gs g"
  using assms by (auto simp: groups_ok_def)

lemma group_core_parent: "map group_core gs' = map group_core gs \<Longrightarrow> map parent_key gs' = map parent_key gs"
proof -
  assume "map group_core gs' = map group_core gs"
  then have "map (\<lambda>(i, p, _). (i, p)) (map group_core gs') = map (\<lambda>(i, p, _). (i, p)) (map group_core gs)"
    by (rule arg_cong)
  then show ?thesis by (simp add: group_core_def parent_key_def [abs_def] comp_def)
qed

lemma map_rg_id_parent: "map rg_id gs = map fst (map parent_key gs)"
  by (simp add: parent_key_def)

lemma groups_acyclic_iff:
  "groups_acyclic gs \<longleftrightarrow> (\<forall>i\<in>rg_id ` set gs. chain_ends (Suc (length gs)) gs (Some i))"
  unfolding groups_acyclic_def by blast

lemma groups_acyclic_cong:
  assumes "map parent_key gs' = map parent_key gs"
  shows "groups_acyclic gs' = groups_acyclic gs"
proof -
  have "rg_id ` set gs' = rg_id ` set gs"
    using arg_cong [OF assms, of "\<lambda>x. set (map fst x)"] by (simp add: parent_key_def image_image)
  moreover have "length gs' = length gs" using assms by (metis length_map)
  ultimately show ?thesis
    unfolding groups_acyclic_iff chain_ends_cong [OF assms] by (simp del: chain_ends.simps)
qed

lemma groups_ok_core:
  assumes "map group_core gs' = map group_core gs" and "groups_ok gs"
  shows "groups_ok gs'"
proof -
  note pk = group_core_parent [OF assms(1)]
  have ids: "map rg_id gs' = map rg_id gs" using pk by (simp only: map_rg_id_parent)
  have img: "rg_id ` set gs' = rg_id ` set gs" using arg_cong [OF ids, of set] by simp
  have "group_ok gs' g" if "g \<in> set gs'" for g
  proof -
    from that have "group_core g \<in> set (map group_core gs')" by simp
    then obtain g0 where "g0 \<in> set gs" "group_core g0 = group_core g" using assms(1) by auto
    moreover from this groups_okD(3) [OF assms(2)] have "group_ok gs' g0"
      using img by (intro group_ok_mono [of gs gs']) auto
    ultimately show ?thesis by (auto simp: group_ok_def group_core_def)
  qed
  with assms ids groups_acyclic_cong [OF pk] show ?thesis by (simp add: groups_ok_def)
qed

lemma chain_ends_mono: "chain_ends n gs a \<Longrightarrow> chain_ends (Suc n) gs a"
  by (induction n gs a rule: chain_ends.induct) (auto split: option.splits)

lemma find_group_append:
  "find_group (gs @ [g]) i =
     (case find_group gs i of Some h \<Rightarrow> Some h | None \<Rightarrow> if rg_id g = i then Some g else None)"
  unfolding find_group_def by (induction gs) auto

lemma find_group_in: "i \<in> rg_id ` set gs \<Longrightarrow> \<exists>g. find_group gs i = Some g \<and> g \<in> set gs \<and> rg_id g = i"
  unfolding find_group_def using find_key_None [of rg_id i gs]
  by (metis (mono_tags, lifting) find_Some_in not_None_eq)

lemma chain_ends_append:
  assumes "\<And>g. g \<in> set gs \<Longrightarrow> group_ok gs g" and "chain_ends n gs a"
    and "case a of None \<Rightarrow> True | Some i \<Rightarrow> i \<in> rg_id ` set gs"
  shows "chain_ends n (gs @ [g]) a"
  using assms(2,3)
proof (induction n arbitrary: a)
  case (Suc n)
  show ?case
  proof (cases a)
    case (Some i)
    with Suc.prems find_group_in [of i gs] obtain h where h: "find_group gs i = Some h" "h \<in> set gs" by auto
    with Suc.prems Some have "chain_ends n gs (rg_parent_id h)" by simp
    moreover have "case rg_parent_id h of None \<Rightarrow> True | Some i \<Rightarrow> i \<in> rg_id ` set gs"
      using assms(1) [OF h(2)] by (simp add: group_ok_def)
    ultimately have "chain_ends n (gs @ [g]) (rg_parent_id h)" by (rule Suc.IH)
    with Some h show ?thesis by (simp add: find_group_append)
  qed simp
qed (cases a; simp split: option.splits)

lemma groups_ok_append:
  assumes ok: "groups_ok gs" and new: "rg_id g \<notin> rg_id ` set gs" and g: "group_ok gs g"
  shows "groups_ok (gs @ [g])"
proof -
  note wf = groups_okD(3) [OF ok]
  have old: "chain_ends (Suc (length gs)) (gs @ [g]) (Some i)" if "i \<in> rg_id ` set gs" for i
    using that acyclic_chain [OF groups_okD(2) [OF ok]] wf by (intro chain_ends_append) auto
  have "chain_ends (Suc (length (gs @ [g]))) (gs @ [g]) (Some i)" if "i \<in> rg_id ` set (gs @ [g])" for i
  proof (cases "i \<in> rg_id ` set gs")
    case True
    from chain_ends_mono [OF old [OF this]] show ?thesis by simp
  next
    case False
    with that have i: "i = rg_id g" by auto
    have "find_group gs i = None" using False by (simp add: find_group_def find_key_None)
    moreover have "chain_ends (Suc (length gs)) (gs @ [g]) (rg_parent_id g)"
      using g old by (cases "rg_parent_id g") (auto simp: group_ok_def simp del: chain_ends.simps(3))
    ultimately show ?thesis using i by (simp add: find_group_append del: chain_ends.simps(3) add: chain_ends.simps(3) [of "Suc (length gs)"])
  qed
  then have "groups_acyclic (gs @ [g])" unfolding groups_acyclic_iff by blast
  moreover have "group_ok (gs @ [g]) h" if "h \<in> set (gs @ [g])" for h
    using that wf g group_ok_mono [of gs "gs @ [g]"] by auto
  ultimately show ?thesis using groups_okD(1) [OF ok] new by (auto simp: groups_ok_def)
qed

text \<open>Reconfiguring a group without moving it in the tree.\<close>

lemma groups_ok_upd:
  assumes ok: "groups_ok gs"
    and f: "\<And>g. rg_id (f g) = rg_id g" "\<And>g. g \<in> set gs \<Longrightarrow> rg_id g = i \<Longrightarrow> rg_parent_id (f g) = rg_parent_id g"
      "\<And>g. g \<in> set gs \<Longrightarrow> rg_cpu_shares (f g) \<noteq> 0"
      "\<And>g. g \<in> set gs \<Longrightarrow> rg_max_utilization_permille (f g) \<le> 1000"
  shows "groups_ok (upd_first (\<lambda>g. rg_id g = i) f gs)"
proof -
  let ?gs = "upd_first (\<lambda>g. rg_id g = i) f gs"
  have pk: "map parent_key ?gs = map parent_key gs"
    using f by (intro map_upd_first_key) (auto simp: parent_key_def)
  have ids: "map rg_id ?gs = map rg_id gs" using pk by (simp only: map_rg_id_parent)
  have img: "rg_id ` set ?gs = rg_id ` set gs" using arg_cong [OF ids, of set] by simp
  have "group_ok ?gs g" if "g \<in> set ?gs" for g
  proof -
    from in_set_upd_first [OF that] obtain h where h: "h \<in> set gs" "g = h \<or> rg_id h = i \<and> g = f h" by auto
    moreover from h groups_okD(3) [OF ok] have "group_ok ?gs h"
      using img by (intro group_ok_mono [of gs ?gs]) auto
    ultimately show ?thesis using f by (auto simp: group_ok_def)
  qed
  with ok ids groups_acyclic_cong [OF pk] show ?thesis by (simp add: groups_ok_def)
qed

end
