(* ===== verification/Sched_Inv.thy ===== *)
theory Sched_Inv
  imports Sched_Groups
begin

text \<open>
  The scheduler as a state machine: the invariant of its state, an operation
  type covering the whole public interface, and the proof that every operation
  a caller may make keeps the invariant.
\<close>

section \<open>The invariant\<close>

definition deadline_ok :: "effective_deadline \<Rightarrow> bool" where
  "deadline_ok d \<longleftrightarrow>
     deadline_valid (ed_profile d) \<and> ed_remaining_budget_ns d \<le> dp_capacity_ns (ed_profile d)"

definition task_ok :: "scheduler \<Rightarrow> scheduler_task \<Rightarrow> bool" where
  "task_ok s t \<longleftrightarrow>
     tk_id t \<noteq> 0 \<and> tk_process_id t \<noteq> 0 \<and> tk_fair_weight t \<noteq> 0 \<and>
     length (tk_name t) = MAX_TASK_NAME \<and> 0 < tk_name_len t \<and> tk_name_len t \<le> MAX_TASK_NAME \<and>
     drop (tk_name_len t) (tk_name t) = replicate (MAX_TASK_NAME - tk_name_len t) 0 \<and>
     (case tk_deadline t of None \<Rightarrow> True | Some d \<Rightarrow> deadline_ok d) \<and>
     (case tk_block_reason t of None \<Rightarrow> True | Some r \<Rightarrow> block_ok r) \<and>
     (case tk_assigned_cpu t of None \<Rightarrow> True | Some c \<Rightarrow> c < length (sc_current_task_ids s)) \<and>
     tk_cpu_affinity_mask t \<noteq> 0 \<and>
     tk_cpu_affinity_mask t AND NOT (cpu_mask (length (sc_current_task_ids s))) = 0 \<and>
     tk_resource_group_id t \<in> rg_id ` set (sc_groups s) \<and>
     (tk_id t, tk_process_id t) \<in> set (thread_keys s)"

definition threads_ok :: "scheduler \<Rightarrow> bool" where
  "threads_ok s \<longleftrightarrow>
     distinct (map fst (thread_keys s)) \<and> (\<forall>(i, p)\<in>set (thread_keys s). i \<noteq> 0 \<and> p \<noteq> 0)"

definition cursors_ok :: "scheduler \<Rightarrow> bool" where
  "cursors_ok s \<longleftrightarrow>
     cursor_keys s = concat (map (\<lambda>i. map (Pair i) [0..<length (sc_current_task_ids s)])
                       (map rg_id (sc_groups s)))"

definition admission_ok :: "scheduler_task list \<Rightarrow> bool" where
  "admission_ok ts \<longleftrightarrow> admitted_utilization (\<lambda>_. True) ts \<le> 1000000"

definition static_inv :: "scheduler \<Rightarrow> bool" where
  "static_inv s \<longleftrightarrow>
     (\<forall>t\<in>set (sc_tasks s). task_ok s t) \<and> groups_ok (sc_groups s) \<and> threads_ok s \<and>
     cursors_ok s \<and> admission_ok (sc_tasks s) \<and> length (sc_fair_ready_bitmap s) = FAIR_PRIORITY_WORDS"

definition sched_inv :: "scheduler \<Rightarrow> bool" where
  "sched_inv s \<longleftrightarrow> cpus_ok s \<and> sched_placed s \<and> static_inv s \<and> runnable_ok s"

lemma static_invD:
  assumes "static_inv s"
  shows "t \<in> set (sc_tasks s) \<Longrightarrow> task_ok s t" and "groups_ok (sc_groups s)" and "threads_ok s"
    and "cursors_ok s" and "admission_ok (sc_tasks s)" and "length (sc_fair_ready_bitmap s) = FAIR_PRIORITY_WORDS"
  using assms by (auto simp: static_inv_def)

section \<open>Evolution keeps the static part\<close>

lemma core_ids:
  assumes "map group_core gs' = map group_core gs"
  shows "map rg_id gs' = map rg_id gs"
  using group_core_parent [OF assms] by (simp only: map_rg_id_parent)

lemma task_ok_cong:
  assumes "length (sc_current_task_ids s') = length (sc_current_task_ids s)"
    and "map rg_id (sc_groups s') = map rg_id (sc_groups s)"
    and "thread_keys s' = thread_keys s"
  shows "task_ok s' t = task_ok s t"
proof -
  have "rg_id ` set (sc_groups s') = rg_id ` set (sc_groups s)"
    using arg_cong [OF assms(2), of set] by simp
  with assms show ?thesis unfolding task_ok_def by presburger
qed

lemma tstep_task_ok:
  assumes "tstep (length (sc_current_task_ids s)) t t'" and "task_ok s t"
  shows "task_ok s t'"
  using assms
  unfolding tstep_def task_ok_def task_core_def
  by (auto simp: budget_step_def deadline_ok_def split: option.splits)

lemma tstep_utilization: "tstep n t t' \<Longrightarrow> task_utilization t' = task_utilization t"
  by (auto simp: tstep_def budget_step_def task_utilization_def split: option.splits)

lemma evolves_admission:
  assumes "list_all2 (tstep n) ts ts'"
  shows "admitted_utilization (\<lambda>_. True) ts' \<le> admitted_utilization (\<lambda>_. True) ts"
  using assms
proof (induction rule: list_all2_induct)
  case (Cons t ts t' ts')
  then have "tk_state t = Exited \<Longrightarrow> tk_state t' = Exited" by (simp add: tstep_def)
  with Cons tstep_utilization [OF Cons(1)] show ?case by (auto simp: admitted_utilization_def)
qed simp

lemma evolves_static:
  assumes e: "evolves s s'" and inv: "static_inv s"
  shows "static_inv s'"
proof -
  have len: "length (sc_current_task_ids s') = length (sc_current_task_ids s)"
    and gc: "map group_core (sc_groups s') = map group_core (sc_groups s)"
    and th: "thread_keys s' = thread_keys s" and cu: "cursor_keys s' = cursor_keys s"
    and bm: "length (sc_fair_ready_bitmap s) = FAIR_PRIORITY_WORDS \<Longrightarrow>
      length (sc_fair_ready_bitmap s') = FAIR_PRIORITY_WORDS"
    and ts: "list_all2 (tstep (length (sc_current_task_ids s))) (sc_tasks s) (sc_tasks s')"
    using e by (auto simp: evolves_def)
  note ids = core_ids [OF gc]
  have "task_ok s' t'" if "t' \<in> set (sc_tasks s')" for t'
  proof -
    from that ts obtain t where "t \<in> set (sc_tasks s)" "tstep (length (sc_current_task_ids s)) t t'"
      by (metis in_set_conv_nth list_all2_conv_all_nth)
    with inv show ?thesis
      by (simp add: task_ok_cong [OF len ids th] static_inv_def tstep_task_ok)
  qed
  moreover have "cursors_ok s'"
    using static_invD(4) [OF inv] by (simp add: cursors_ok_def cu ids len del: map_map)
  ultimately show ?thesis
    using inv evolves_admission [OF ts] groups_ok_core [OF gc] bm
    by (auto simp: static_inv_def threads_ok_def th admission_ok_def)
qed

text \<open>Rewriting task records directly.\<close>

lemma static_map:
  assumes inv: "static_inv s"
    and f: "\<And>t. t \<in> set (sc_tasks s) \<Longrightarrow> task_ok s t \<Longrightarrow> task_ok s (f t)"
    and adm: "admitted_utilization (\<lambda>_. True) (map f (sc_tasks s)) \<le> 1000000"
  shows "static_inv (s\<lparr> sc_tasks := map f (sc_tasks s) \<rparr>)"
proof -
  have "task_ok (s\<lparr> sc_tasks := ts \<rparr>) t = task_ok s t" for ts t
    by (rule task_ok_cong) (simp_all add: thread_keys_def)
  with inv f adm show ?thesis
    by (auto simp: static_inv_def threads_ok_def thread_keys_def cursors_ok_def cursor_keys_def admission_ok_def)
qed

lemma admitted_map_le:
  assumes "\<And>t. t \<in> set ts \<Longrightarrow> task_utilization (f t) \<le> task_utilization t"
    and "\<And>t. t \<in> set ts \<Longrightarrow> tk_state (f t) = tk_state t"
  shows "admitted_utilization (\<lambda>_. True) (map f ts) \<le> admitted_utilization (\<lambda>_. True) ts"
  using assms by (induction ts) (auto simp: admitted_utilization_def add_mono)

lemma admitted_map_one:
  assumes "distinct (map tk_id ts)" and "\<And>t. task_utilization (f t) \<le> u"
    and "\<And>t. tk_id (f t) = tk_id t"
  shows "admitted_utilization (\<lambda>_. True) (map (\<lambda>t. if tk_id t = i then f t else t) ts)
    \<le> admitted_utilization (\<lambda>t. tk_id t \<noteq> i) ts + (if i \<in> tk_id ` set ts then u else 0)"
  using assms(1)
proof (induction ts)
  case (Cons t ts)
  show ?case
  proof (cases "tk_id t = i")
    case True
    with Cons have i: "i \<notin> tk_id ` set ts" "distinct (map tk_id ts)" by auto
    with Cons.IH have "admitted_utilization (\<lambda>_. True) (map (\<lambda>t. if tk_id t = i then f t else t) ts)
        \<le> admitted_utilization (\<lambda>t. tk_id t \<noteq> i) ts" by simp
    with True assms(2) [of t] show ?thesis by (auto simp: admitted_utilization_def)
  next
    case False
    with Cons show ?thesis by (auto simp: admitted_utilization_def)
  qed
qed (simp add: admitted_utilization_def)


section \<open>Evolving operations keep the invariant\<close>

lemma sched_invD:
  assumes "sched_inv s"
  shows "cpus_ok s" and "sched_placed s" and "static_inv s" and "runnable_ok s"
    and "distinct (map tk_id (sc_tasks s))" and "distinct (map rg_id (sc_groups s))"
    and "groups_acyclic (sc_groups s)"
  using assms by (auto simp: sched_inv_def static_inv_def groups_ok_def placedD_distinct)

lemma sched_inv_evolve:
  assumes "sched_inv s" and "evolves s s'" and "sched_placed s'" and "runnable_ok s'"
  shows "sched_inv s'"
  using assms evolves_static [of s s'] by (auto simp: sched_inv_def cpus_ok_def evolves_len)

lemma evolves_group_ids: "evolves s s' \<Longrightarrow> map rg_id (sc_groups s') = map rg_id (sc_groups s)"
  by (rule core_ids) (simp add: evolves_def)

lemma runnable_ok_rebuild_evolve:
  assumes "sched_inv s" and "evolves s s'"
  shows "runnable_ok (rebuild_runnable_indexes s')"
    and "runnable_ok (fill_idle (rebuild_runnable_indexes s'))"
proof -
  have t: "distinct (map tk_id (sc_tasks s'))" using assms sched_invD(5) evolves_distinct by blast
  have g: "distinct (map rg_id (sc_groups s'))"
    using sched_invD(6) [OF assms(1)] by (simp only: evolves_group_ids [OF assms(2)])
  show "runnable_ok (rebuild_runnable_indexes s')" using g by (rule rebuild_runnable_ok)
  show "runnable_ok (fill_idle (rebuild_runnable_indexes s'))" using t g by (rule runnable_ok_fill_rebuild)
qed

lemma sched_inv_wake_task:
  assumes "sched_inv s" shows "sched_inv (fst (wake_task s i))"
proof (rule sched_inv_evolve [OF assms])
  note D = sched_invD [OF assms]
  show "evolves s (fst (wake_task s i))" using D by (intro evolves_wake_task)
  show "sched_placed (fst (wake_task s i))" using D by (intro wake_task_placed)
  have "evolves s (task_upd i wake_record s)" by (rule evolves_task_upd) (rule wake_record_tstep)
  from runnable_ok_rebuild_evolve(2) [OF assms this] show "runnable_ok (fst (wake_task s i))"
    using D by (simp add: wake_task_def split: option.split)
qed

lemma sched_inv_wake_all: "sched_inv s \<Longrightarrow> sched_inv (fst (wake_all ids s))"
  unfolding wake_all_eq by (rule fold_invariant) (auto intro: sched_inv_wake_task)

lemma account_runtime_run_keys:
  "map run_key (sc_tasks (account_runtime now s)) = map run_key (sc_tasks s)"
proof -
  have c: "map run_key (sc_tasks (account_cpu e b c s)) = map run_key (sc_tasks s)" for e b c s
    by (simp add: account_cpu_def task_upd_def run_key_def runnable_def charge_budget_def map_upd_first
        split: option.split)
  have "map run_key (sc_tasks (fold (account_cpu e b) xs s)) = map run_key (sc_tasks s)" for e b xs s
    by (induction xs arbitrary: s) (simp_all add: c)
  then show ?thesis by (simp add: account_runtime_def Let_def)
qed

lemma sched_inv_account:
  assumes "sched_inv s"
  shows "sched_inv (account_runtime now s)"
proof (rule sched_inv_evolve [OF assms evolves_account_runtime])
  note D = sched_invD [OF assms]
  show "sched_placed (account_runtime now s)" using D by (simp add: account_runtime_placed)
  show "runnable_ok (account_runtime now s)"
    using D account_runtime_run_keys [of now s] by (subst runnable_ok_cong [where s = s]) auto
qed

lemma sched_inv_clock:
  assumes "sched_inv s"
  shows "sched_inv (s\<lparr> sc_now_ns := a, sc_total_ticks := b \<rparr>)" and "sched_inv (s\<lparr> sc_now_ns := a \<rparr>)"
  using sched_invD(2,4) [OF assms]
  by (auto intro!: sched_inv_evolve [OF assms] evolves_clock(1) [of s]
      sched_inv_evolve [OF assms evolves_clock(2)])

lemma sched_inv_account_executing:
  assumes "sched_inv s"
  shows "sched_inv (account_executing c t now s)"
proof (rule sched_inv_evolve [OF assms evolves_account_executing])
  note D = sched_invD [OF assms]
  show "sched_placed (account_executing c t now s)" using D by (intro account_executing_placed)
  have "map run_key (sc_tasks (account_executing c t now s)) = map run_key (sc_tasks s) \<and>
      sc_groups (account_executing c t now s) = sc_groups s"
    by (simp add: account_executing_def Let_def account_runtime_run_keys)
  with D show "runnable_ok (account_executing c t now s)"
    by (subst runnable_ok_cong [where s = s]) auto
qed

lemma runnable_ok_tick_reschedule:
  "distinct (map tk_id (sc_tasks s)) \<Longrightarrow> runnable_ok s \<Longrightarrow> runnable_ok (fst (tick_reschedule p c s))"
  by (simp add: tick_reschedule_def case_prod_unfold Let_def runnable_ok_schedule_next)

lemma sched_inv_tick:
  assumes inv: "sched_inv s"
  shows "sched_inv (fst (tick_at_on_cpu s cpu now))"
proof (rule sched_inv_evolve [OF inv])
  note D = sched_invD [OF inv]
  show "evolves s (fst (tick_at_on_cpu s cpu now))" using D by (intro evolves_tick)
  show "sched_placed (fst (tick_at_on_cpu s cpu now))" using D by (intro tick_at_on_cpu_placed)
  define s2 where "s2 = (account_runtime now s)\<lparr> sc_now_ns := now,
      sc_total_ticks := sat_add (sc_total_ticks (account_runtime now s)) 1 \<rparr>"
  define s3 where "s3 = fst (wake_expired_deadlines s2)"
  have "sched_inv s2" unfolding s2_def by (intro sched_inv_clock sched_inv_account inv)
  then have s3: "sched_inv s3"
    unfolding s3_def wake_expired_deadlines_def by (rule sched_inv_wake_all)
  note D3 = sched_invD [OF s3]
  have tick: "runnable_ok (task_upd i (tick_record now) s3)" for i
    using D3 by (subst runnable_ok_task_upd) (auto simp: run_key_def runnable_def)
  have pre: "runnable_ok (task_upd i preempt_record (task_upd i (tick_record now) s3))" for i
    using tick by (subst runnable_ok_task_upd) (auto simp: run_key_def runnable_def preempt_record_def)
  have dist: "distinct (map tk_id (sc_tasks (task_upd i preempt_record (task_upd i (tick_record now) s3))))" for i
    using D3 by (simp add: task_upd_def map_upd_first)
  show "runnable_ok (fst (tick_at_on_cpu s cpu now))"
    using D D3 tick pre dist
    by (auto simp: tick_at_on_cpu_def Let_def s2_def [symmetric] s3_def [symmetric]
        intro!: runnable_ok_tick_reschedule split: option.split)
qed

lemma runnable_ok_stop_current:
  assumes inv: "sched_inv s" and e: "evolves s (task_upd i f s)"
  shows "runnable_ok (fst (tick_reschedule p c (set_cur (rebuild_runnable_indexes (task_upd i f s)) c None)))"
  using runnable_ok_rebuild_evolve(1) [OF inv e] evolves_distinct [OF e sched_invD(5) [OF inv]]
  by (intro runnable_ok_tick_reschedule) auto

lemma evolves_current_upd:
  assumes "sched_placed s" and "cur s cpu = Some i"
    and "\<And>t. tk_state t = Running \<Longrightarrow> tstep (length (sc_current_task_ids s)) t (f t)"
  shows "evolves s (task_upd i f s)"
proof (rule evolves_task_upd)
  from assms(1,2) obtain t where t: "t \<in> set (sc_tasks s)" "tk_id t = i" "tk_state t = Running"
    by (rule task_of_slot)
  fix u assume "u \<in> set (sc_tasks s)" "tk_id u = i"
  with t placedD_distinct [OF assms(1)] have "u = t" by (auto intro: distinct_key_eq)
  with t assms(3) show "tstep (length (sc_current_task_ids s)) u (f u)" by simp
qed

lemma sched_inv_block:
  assumes inv: "sched_inv s" and r: "block_ok r"
  shows "sched_inv (fst (block_current_on_cpu s cpu r))"
proof (rule sched_inv_evolve [OF inv])
  note D = sched_invD [OF inv]
  show "evolves s (fst (block_current_on_cpu s cpu r))" using D r by (intro evolves_block_current)
  show "sched_placed (fst (block_current_on_cpu s cpu r))" using D by (intro block_current_on_cpu_placed)
  have "evolves s (task_upd i (block_record r) s)" if "cur s cpu = Some i" for i
    using D that r by (intro evolves_current_upd) (auto simp: tstep_def block_record_def task_core_def)
  with D show "runnable_ok (fst (block_current_on_cpu s cpu r))"
    by (auto simp: block_current_on_cpu_def intro!: runnable_ok_stop_current inv split: option.split)
qed

lemma sched_inv_exit_current:
  assumes inv: "sched_inv s"
  shows "sched_inv (fst (exit_current_on_cpu s cpu x))"
proof (rule sched_inv_evolve [OF inv])
  note D = sched_invD [OF inv]
  show "evolves s (fst (exit_current_on_cpu s cpu x))" using D by (intro evolves_exit_current)
  show "sched_placed (fst (exit_current_on_cpu s cpu x))" using D by (intro exit_current_on_cpu_placed)
  have "evolves s (task_upd i (exit_current_record x) s)" if "cur s cpu = Some i" for i
    using D that by (intro evolves_current_upd) (auto simp: tstep_def exit_current_record_def task_core_def)
  with D show "runnable_ok (fst (exit_current_on_cpu s cpu x))"
    by (auto simp: exit_current_on_cpu_def intro!: runnable_ok_stop_current inv split: option.split)
qed


lemma sched_inv_suspend:
  assumes inv: "sched_inv s"
  shows "sched_inv (fst (suspend_task s i))"
proof (rule sched_inv_evolve [OF inv])
  note D = sched_invD [OF inv]
  show e: "evolves s (fst (suspend_task s i))" using D by (intro evolves_suspend_task)
  show "sched_placed (fst (suspend_task s i))" using D by (intro suspend_task_placed)
  show "runnable_ok (fst (suspend_task s i))"
  proof (cases "task_of s i")
    case (Some t)
    let ?s1 = "task_upd i suspend_record s"
    let ?s2 = "fold (vacate_cpu (\<lambda>_. True) (\<lambda>s. s) i) [0..<cpu_count ?s1] ?s1"
    from Some have st: "fst (suspend_task s i) = rebuild_runnable_indexes ?s2"
      by (simp add: suspend_task_def Let_def)
    have "map rg_id (sc_groups (rebuild_runnable_indexes ?s2)) = map rg_id (sc_groups s)"
      using evolves_group_ids [OF e] st by simp
    moreover have "map rg_id (sc_groups (rebuild_runnable_indexes ?s2)) = map rg_id (sc_groups ?s2)"
      by (rule evolves_group_ids) simp
    ultimately have "distinct (map rg_id (sc_groups ?s2))" using D(6) by simp
    with st show ?thesis by (simp add: rebuild_runnable_ok)
  qed (use D in \<open>simp add: suspend_task_def\<close>)
qed

text \<open>Operations that end by rebuilding the indexes, read off their result.\<close>

lemma runnable_ok_rebuilt:
  assumes inv: "sched_inv s" and "evolves s (rebuild_runnable_indexes s')"
  shows "runnable_ok (rebuild_runnable_indexes s')"
proof -
  have "map rg_id (sc_groups s') = map rg_id (sc_groups s)"
    using evolves_group_ids [OF assms(2)] evolves_group_ids [OF evolves_rebuild, of s'] by simp
  then have "distinct (map rg_id (sc_groups s'))" using sched_invD(6) [OF inv] by (simp only:)
  then show ?thesis by (rule rebuild_runnable_ok)
qed

lemma runnable_ok_filled:
  assumes inv: "sched_inv s" and e: "evolves s (fill_idle (rebuild_runnable_indexes s'))"
  shows "runnable_ok (fill_idle (rebuild_runnable_indexes s'))"
proof -
  have g: "map rg_id (sc_groups s') = map rg_id (sc_groups s)"
    using evolves_group_ids [OF e] evolves_group_ids [OF evolves_rebuild, of s'] by simp
  have "map tk_id (sc_tasks (fill_idle (rebuild_runnable_indexes s'))) = map tk_id (sc_tasks s')"
  proof -
    have "map tk_id (sc_tasks (fold fill_cpu xs x)) = map tk_id (sc_tasks x)" for xs x
      by (induction xs arbitrary: x) (simp_all add: fill_cpu_def schedule_next_ids)
    then show ?thesis by (simp add: fill_idle_def)
  qed
  with evolves_ids [OF e] have t: "map tk_id (sc_tasks s') = map tk_id (sc_tasks s)" by simp
  from sched_invD(5,6) [OF inv] show ?thesis
    unfolding g [symmetric] t [symmetric] by (rule runnable_ok_fill_rebuild)
qed

lemma sched_inv_exit_task:
  assumes inv: "sched_inv s"
  shows "sched_inv (fst (exit_task s i x))"
proof (rule sched_inv_evolve [OF inv])
  note D = sched_invD [OF inv]
  show e: "evolves s (fst (exit_task s i x))" using D by (intro evolves_exit_task)
  show "sched_placed (fst (exit_task s i x))" using D by (intro exit_task_placed)
  show "runnable_ok (fst (exit_task s i x))"
    using e D by (auto simp: exit_task_def Let_def intro!: runnable_ok_filled [OF inv] split: option.splits)
qed

lemma sched_inv_hold:
  assumes inv: "sched_inv s" and h: "held \<noteq> Running" "Running \<in> set from" "Exited \<notin> set from"
  shows "sched_inv (hold_process held from s pr)"
proof (rule sched_inv_evolve [OF inv])
  note D = sched_invD [OF inv]
  show e: "evolves s (hold_process held from s pr)" using D h by (intro evolves_hold_process)
  show "sched_placed (hold_process held from s pr)" using D h by (intro hold_process_placed)
  show "runnable_ok (hold_process held from s pr)"
    using e by (auto simp: hold_process_def Let_def intro!: runnable_ok_filled [OF inv])
qed

lemma sched_inv_release:
  assumes inv: "sched_inv s" and h: "held \<noteq> Running" "held \<noteq> Exited"
  shows "sched_inv (release_process held s pr)"
proof (rule sched_inv_evolve [OF inv])
  note D = sched_invD [OF inv]
  show e: "evolves s (release_process held s pr)" using D h by (intro evolves_release_process)
  show "sched_placed (release_process held s pr)" using D h by (intro release_process_placed)
  show "runnable_ok (release_process held s pr)"
    using e by (auto simp: release_process_def intro!: runnable_ok_filled [OF inv])
qed

lemma sched_inv_donate:
  assumes inv: "sched_inv s" shows "sched_inv (fst (donate_priority s i p))"
proof (rule sched_inv_evolve [OF inv])
  note D = sched_invD [OF inv]
  show e: "evolves s (fst (donate_priority s i p))" by (rule evolves_donate)
  show "sched_placed (fst (donate_priority s i p))" using D by (intro donate_priority_placed)
  show "runnable_ok (fst (donate_priority s i p))"
    using e D by (auto simp: donate_priority_def intro!: runnable_ok_rebuilt [OF inv] split: option.splits)
qed

lemma sched_inv_restore:
  assumes inv: "sched_inv s" shows "sched_inv (fst (restore_base_priority s i))"
proof (rule sched_inv_evolve [OF inv])
  note D = sched_invD [OF inv]
  show e: "evolves s (fst (restore_base_priority s i))" by (rule evolves_restore)
  show "sched_placed (fst (restore_base_priority s i))" using D by (intro restore_base_priority_placed)
  show "runnable_ok (fst (restore_base_priority s i))"
    using e D by (auto simp: restore_base_priority_def intro!: runnable_ok_rebuilt [OF inv] split: option.splits)
qed

lemma sched_inv_yield:
  assumes inv: "sched_inv s" shows "sched_inv (fst (yield_current_to_on_cpu s cpu target))"
proof (rule sched_inv_evolve [OF inv])
  note D = sched_invD [OF inv]
  show e: "evolves s (fst (yield_current_to_on_cpu s cpu target))" using D by (intro evolves_yield_on_cpu)
  show "sched_placed (fst (yield_current_to_on_cpu s cpu target))" using D by (intro yield_on_cpu_placed)
  have "fst (yield_current_to_on_cpu s cpu target) = s \<or>
      (\<exists>s3. fst (yield_current_to_on_cpu s cpu target) = rebuild_runnable_indexes s3)"
    by (auto simp: yield_current_to_on_cpu_def Let_def case_prod_unfold)
  with e D show "runnable_ok (fst (yield_current_to_on_cpu s cpu target))"
    using runnable_ok_rebuilt [OF inv] by metis
qed

lemma sched_inv_yield_at:
  assumes inv: "sched_inv s" shows "sched_inv (fst (yield_current_to_at_on_cpu s cpu target now))"
  using inv
  by (auto simp: yield_current_to_at_on_cpu_def Let_def wake_expired_deadlines_def
      intro!: sched_inv_yield sched_inv_wake_all sched_inv_clock(2) sched_inv_account)


section \<open>Operations that create, remove and reconfigure\<close>

lemma static_groups:
  assumes inv: "static_inv s" and g: "groups_ok gs" and ids: "map rg_id gs = map rg_id (sc_groups s)"
  shows "static_inv (s\<lparr> sc_groups := gs \<rparr>)"
proof -
  have "task_ok (s\<lparr> sc_groups := gs \<rparr>) t = task_ok s t" for t
    by (rule task_ok_cong) (simp_all add: thread_keys_def ids)
  with inv g show ?thesis
    by (auto simp: static_inv_def threads_ok_def thread_keys_def cursors_ok_def cursor_keys_def ids
        simp del: map_map)
qed

lemma sched_inv_group_upd:
  assumes inv: "sched_inv s"
    and f: "\<And>g. rg_id (f g) = rg_id g" "\<And>g. g \<in> set (sc_groups s) \<Longrightarrow> rg_id g = i \<Longrightarrow> rg_parent_id (f g) = rg_parent_id g"
      "\<And>g. g \<in> set (sc_groups s) \<Longrightarrow> rg_cpu_shares (f g) \<noteq> 0"
      "\<And>g. g \<in> set (sc_groups s) \<Longrightarrow> rg_max_utilization_permille (f g) \<le> 1000"
      "\<And>g. rg_runnable_tasks (f g) = rg_runnable_tasks g"
  shows "sched_inv (s\<lparr> sc_groups := upd_first (\<lambda>g. rg_id g = i) f (sc_groups s) \<rparr>)"
proof -
  let ?gs = "upd_first (\<lambda>g. rg_id g = i) f (sc_groups s)"
  note D = sched_invD [OF inv]
  have ids: "map rg_id ?gs = map rg_id (sc_groups s)" using f(1) by (intro map_upd_first)
  have "groups_ok ?gs" using f static_invD(2) [OF D(3)] by (intro groups_ok_upd)
  with D ids have "static_inv (s\<lparr> sc_groups := ?gs \<rparr>)" by (intro static_groups)
  moreover have "runnable_ok (s\<lparr> sc_groups := ?gs \<rparr>) = runnable_ok s"
    by (rule runnable_ok_cong) (use f in \<open>auto intro: map_upd_first\<close>)
  ultimately show ?thesis using D by (simp add: sched_inv_def cpus_ok_def)
qed

lemma thread_keys_groups [simp]:
  "thread_keys (s\<lparr> sc_groups := gs, sc_fair_task_cursors := cu \<rparr>) = thread_keys s"
  by (simp add: thread_keys_def)

text \<open>A new group: no task belongs to it, and its cursors are created with it.\<close>

lemma sched_inv_new_group:
  assumes inv: "sched_inv s" and new: "i \<notin> rg_id ` set (sc_groups s)"
    and g: "group_ok (sc_groups s) (new_group s i p sh m rt)"
  shows "sched_inv (s\<lparr> sc_groups := sc_groups s @ [new_group s i p sh m rt],
      sc_fair_task_cursors := sc_fair_task_cursors s @ map (\<lambda>cpu. (i, cpu, None)) [0..<cpu_count s] \<rparr>)"
    (is "sched_inv ?s")
proof -
  note D = sched_invD [OF inv] and S = static_invD [OF sched_invD(3) [OF inv]]
  have id: "rg_id (new_group s i p sh m rt) = i" by (simp add: new_group_def)
  have "groups_ok (sc_groups ?s)" using S(2) new g id by (simp add: groups_ok_append)
  moreover have "task_ok ?s t" if "t \<in> set (sc_tasks s)" for t
    using S(1) [OF that] by (auto simp: task_ok_def split: option.splits)
  moreover have "threads_ok ?s" using S(3) by (simp add: threads_ok_def)
  moreover have "cursors_ok ?s"
    using S(4) id cpus_ok_count [OF D(1)] by (auto simp: cursors_ok_def cursor_keys_def)
  ultimately have st: "static_inv ?s" using S by (simp add: static_inv_def)
  have "runnable_count (sc_tasks s) i = 0"
    using new S(1) by (auto simp: runnable_count_def filter_empty_conv task_ok_def)
  then have "runnable_ok ?s"
    using D(4) by (auto simp: runnable_ok_def new_group_def)
  with st D show ?thesis by (simp add: sched_inv_def cpus_ok_def)
qed

lemma group_ok_new:
  "group_ok gs (new_group s i p sh m rt) \<longleftrightarrow>
     i \<noteq> 0 \<and> sh \<noteq> 0 \<and> m \<le> 1000 \<and> (case p of None \<Rightarrow> True | Some q \<Rightarrow> q \<in> rg_id ` set gs)"
  by (simp add: group_ok_def new_group_def)

lemma sched_inv_ensure_limits:
  assumes inv: "sched_inv s"
    and parent: "case find_group (sc_groups s) i of None \<Rightarrow> True | Some g \<Rightarrow> p = rg_parent_id g \<or> p = None"
  shows "sched_inv (fst (ensure_resource_group_with_limits al s i p sh m rt))"
proof (cases "find_group (sc_groups s) i")
  case None
  then have new: "i \<notin> rg_id ` set (sc_groups s)" by (simp add: find_group_def find_key_None)
  have "fst (ensure_resource_group_with_limits al s i p sh m rt) = s \<or>
      group_ok (sc_groups s) (new_group s i p sh m rt) \<and>
      fst (ensure_resource_group_with_limits al s i p sh m rt) =
        s\<lparr> sc_groups := sc_groups s @ [new_group s i p sh m rt], sc_fair_task_cursors :=
            sc_fair_task_cursors s @ map (\<lambda>cpu. (i, cpu, None)) [0..<cpu_count s] \<rparr>"
    using None
    by (auto simp: ensure_resource_group_with_limits_def group_ok_new list_ex_iff not_less
        split: option.splits)
  with inv new sched_inv_new_group [OF inv new] show ?thesis by auto
next
  case (Some g)
  let ?f = "\<lambda>g. g\<lparr> rg_parent_id := p, rg_cpu_shares := sh, rg_max_utilization_permille := m,
      rg_allow_realtime := rt \<rparr>"
  have "sched_inv (s\<lparr> sc_groups := upd_first (\<lambda>g. rg_id g = i) ?f (sc_groups s) \<rparr>)"
    if sh: "sh \<noteq> 0" "m \<le> 1000" and pp: "rg_parent_id g = p"
  proof (rule sched_inv_group_upd [OF inv])
    fix h assume "h \<in> set (sc_groups s)" "rg_id h = i"
    moreover from Some have "g \<in> set (sc_groups s)" "rg_id g = i"
      by (auto simp: find_group_def dest: find_Some_in)
    ultimately have "h = g"
      by (intro distinct_key_eq [OF sched_invD(6) [OF inv]]) auto
    with pp show "rg_parent_id (?f h) = rg_parent_id h" by simp
  qed (use sh in auto)
  with inv Some parent show ?thesis
    by (auto simp: ensure_resource_group_with_limits_def not_less)
qed

lemma sched_inv_ensure:
  assumes "sched_inv s" shows "sched_inv (fst (ensure_resource_group al s i))"
proof (cases "list_ex (\<lambda>g. rg_id g = i) (sc_groups s)")
  case False
  then have "find_group (sc_groups s) i = None" by (simp add: find_group_def find_None_iff list_ex_iff)
  with False assms show ?thesis
    by (simp add: ensure_resource_group_def sched_inv_ensure_limits)
qed (use assms in \<open>simp add: ensure_resource_group_def\<close>)

lemma ensure_group_exists:
  assumes "snd (ensure_resource_group al s i) = Inr ()"
  shows "i \<in> rg_id ` set (sc_groups (fst (ensure_resource_group al s i)))"
  using assms
  by (auto simp: ensure_resource_group_def ensure_resource_group_with_limits_def list_ex_iff find_group_def
      new_group_def find_Some_iff split: if_splits option.splits)

lemma sched_inv_set_shares:
  assumes inv: "sched_inv s" shows "sched_inv (fst (set_resource_group_shares s i sh))"
proof -
  have "rg_max_utilization_permille g \<le> 1000" if "g \<in> set (sc_groups s)" for g
    using groups_okD(3) [OF static_invD(2) [OF sched_invD(3) [OF inv]] that] by (simp add: group_ok_def)
  then show ?thesis
    using inv
    by (auto simp: set_resource_group_shares_def intro!: sched_inv_group_upd split: option.split)
qed

lemma sched_inv_set_limits:
  assumes inv: "sched_inv s" shows "sched_inv (fst (set_resource_group_limits s i sh m rt))"
  using inv
  by (auto simp: set_resource_group_limits_def not_less intro!: sched_inv_group_upd split: option.split)


text \<open>A task as \<open>SchedulerTask::new\<close> makes it, with any affinity mask.\<close>

definition fresh_task :: "scheduler_task \<Rightarrow> bool" where
  "fresh_task t \<longleftrightarrow>
     tk_id t \<noteq> 0 \<and> tk_process_id t \<noteq> 0 \<and> tk_fair_weight t \<noteq> 0 \<and>
     length (tk_name t) = MAX_TASK_NAME \<and> 0 < tk_name_len t \<and> tk_name_len t \<le> MAX_TASK_NAME \<and>
     drop (tk_name_len t) (tk_name t) = replicate (MAX_TASK_NAME - tk_name_len t) 0 \<and>
     tk_deadline t = None \<and> tk_block_reason t = None \<and> tk_assigned_cpu t = None \<and> tk_state t = Ready"

lemma scheduler_task_new_fresh:
  "scheduler_task_new i pr g prio nm = Inr t \<Longrightarrow> fresh_task (t\<lparr> tk_cpu_affinity_mask := m \<rparr>)"
  by (auto simp: scheduler_task_new_def fresh_task_def MAX_TASK_NAME_def split: if_splits)

lemma sched_inv_rebase:
  assumes "sched_inv s" shows "sched_inv (rebase_group i s)"
proof -
  have c: "map group_core (upd_first q (\<lambda>g. g\<lparr> rg_fair_vruntime := v \<rparr>) gs) = map group_core gs" for q v gs
    by (rule map_upd_first) (simp add: group_core_def)
  have r: "map (\<lambda>g. (rg_id g, rg_runnable_tasks g)) (upd_first q (\<lambda>g. g\<lparr> rg_fair_vruntime := v \<rparr>) gs) =
      map (\<lambda>g. (rg_id g, rg_runnable_tasks g)) gs" for q v gs
    by (rule map_upd_first) simp
  show ?thesis
  proof (rule sched_inv_evolve [OF assms])
    show "evolves s (rebase_group i s)"
      by (auto simp: rebase_group_def c intro!: evolves_groups split: option.split)
    show "sched_placed (rebase_group i s)" using sched_invD(2) [OF assms] by simp
    have "runnable_ok (rebase_group i s) = runnable_ok s"
      by (rule runnable_ok_cong) (auto simp: rebase_group_def r split: option.split)
    then show "runnable_ok (rebase_group i s)" using sched_invD(4) [OF assms] by simp
  qed
qed

lemma active_cpu_mask_eq: "cpus_ok s \<Longrightarrow> active_cpu_mask s = cpu_mask (length (sc_current_task_ids s))"
  by (simp add: active_cpu_mask_def cpus_ok_count)

lemma static_add_task:
  assumes inv: "sched_inv s" and t: "fresh_task t"
    and m: "tk_cpu_affinity_mask t \<noteq> 0"
      "tk_cpu_affinity_mask t AND NOT (cpu_mask (length (sc_current_task_ids s))) = 0"
    and g: "tk_resource_group_id t \<in> rg_id ` set (sc_groups s)"
    and rt: "register al (sc_runtime s) (tk_id t) (tk_process_id t) = (rt, Inr ())"
  shows "static_inv (s\<lparr> sc_runtime := rt, sc_tasks := sc_tasks s @ [t] \<rparr>)" (is "static_inv ?s")
proof -
  note S = static_invD [OF sched_invD(3) [OF inv]]
  from rt have th: "ac_threads rt = ac_threads (sc_runtime s) @ [(tk_id t, tk_process_id t, 0)]"
    and new: "\<not> list_ex (\<lambda>x. fst x = tk_id t) (ac_threads (sc_runtime s))"
    by (auto simp: register_def split: if_splits)
  have keys: "thread_keys ?s = thread_keys s @ [(tk_id t, tk_process_id t)]"
    by (simp add: thread_keys_def th)
  have "task_ok ?s u" if "u \<in> set (sc_tasks s)" for u
    using S(1) [OF that] by (auto simp: task_ok_def keys split: option.splits)
  moreover have "task_ok ?s t"
    using t m g by (simp add: task_ok_def fresh_task_def keys)
  moreover have "threads_ok ?s"
  proof -
    have "tk_id t \<notin> set (map fst (thread_keys s))"
      using new by (auto simp: thread_keys_def list_ex_iff split: prod.splits)
    with S(3) t show ?thesis by (auto simp: threads_ok_def keys fresh_task_def)
  qed
  moreover have "admission_ok (sc_tasks s @ [t])"
    using S(5) t by (simp add: admission_ok_def admitted_utilization_def task_utilization_def fresh_task_def)
  ultimately show ?thesis
    using S by (auto simp: static_inv_def cursors_ok_def cursor_keys_def)
qed

lemma sched_inv_add_task:
  assumes inv: "sched_inv s" and t: "fresh_task t"
  shows "sched_inv (fst (add_task al s t))"
proof -
  note D = sched_invD [OF inv]
  let ?g = "tk_resource_group_id t"
  obtain s' r where e: "add_task al s t = (s', r)" by fastforce
  have ne: "sc_current_task_ids s \<noteq> []" using D(1) by (auto simp: cpus_ok_def)
  have eg: "sched_inv (fst (ensure_resource_group al s ?g))"
    "sched_inv (rebase_group ?g (fst (ensure_resource_group al s ?g)))"
    using inv by (auto intro: sched_inv_rebase sched_inv_ensure)
  from ne e have "sched_inv s'"
  proof (cases rule: add_task_cases)
    case same
    with inv eg show ?thesis by auto
  next
    case (added s3 t1 rt)
    have i3: "sched_inv s3" using added eg by simp
    have same3: "sc_tasks s3 = sc_tasks s" "sc_runtime s3 = sc_runtime s"
      "sc_current_task_ids s3 = sc_current_task_ids s" using added by simp_all
    let ?s4 = "s3\<lparr> sc_runtime := rt, sc_tasks := sc_tasks s @ [t1] \<rparr>"
    have g3: "?g \<in> rg_id ` set (sc_groups s3)"
    proof -
      have "evolves x (rebase_group i x)" for i x
        by (auto simp: rebase_group_def group_core_def intro!: evolves_groups map_upd_first split: option.split)
      from arg_cong [OF evolves_group_ids [OF this], of set] ensure_group_exists [OF added(5)] added(6)
      show ?thesis by simp
    qed
    have st: "static_inv ?s4"
      using static_add_task [OF i3, of t1 al rt] t added g3 active_cpu_mask_eq [OF D(1)]
      by (simp add: same3 fresh_task_def and.assoc) 
    have pl: "placed (sc_tasks ?s4) (sc_current_task_ids ?s4)"
      using D(2) added t by (simp add: same3 placed_append fresh_task_def)
    have ok: "cpus_ok ?s4" using D(1) by (simp add: cpus_ok_def same3)
    with pl have p: "sched_placed (fill_idle (rebuild_runnable_indexes ?s4))"
      by (intro fill_idle_placed) (auto simp: cpus_ok_def)
    have d: "distinct (map tk_id (sc_tasks ?s4))" "distinct (map rg_id (sc_groups ?s4))"
      using placedD_distinct [OF pl] sched_invD(6) [OF i3] by auto
    have ev: "evolves ?s4 (fill_idle (rebuild_runnable_indexes ?s4))"
      using ok d by (intro evolves_fill_rebuild) auto
    show ?thesis
      using added(8) p evolves_static [OF ev st] runnable_ok_fill_rebuild [OF d] ok
      by (simp add: sched_inv_def cpus_ok_def)
  qed
  with e show ?thesis by simp
qed

lemma sched_inv_cleanup:
  assumes inv: "sched_inv s" shows "sched_inv (fst (cleanup_exited s))"
proof -
  note D = sched_invD [OF inv] and S = static_invD [OF sched_invD(3) [OF inv]]
  let ?ts = "filter (\<lambda>t. tk_state t \<noteq> Exited) (sc_tasks s)"
  let ?s = "s\<lparr> sc_tasks := ?ts \<rparr>"
  have "fst (cleanup_exited s) = rebuild_runnable_indexes ?s"
    using cleanup_exited_slots [OF D(2)] by (auto simp: cleanup_exited_def Let_def)
  moreover have "task_ok ?s t = task_ok s t" for t
    by (rule task_ok_cong) (simp_all add: thread_keys_def)
  then have "static_inv ?s"
    using S by (auto simp: static_inv_def threads_ok_def thread_keys_def cursors_ok_def cursor_keys_def
        admission_ok_def admitted_utilization_def)
  then have "static_inv (rebuild_runnable_indexes ?s)" by (rule evolves_static [OF evolves_rebuild])
  moreover have "runnable_ok (rebuild_runnable_indexes ?s)" using D(6) by (simp add: rebuild_runnable_ok)
  ultimately show ?thesis
    using cleanup_exited_placed [OF D(2)] D(1) by (simp add: sched_inv_def cpus_ok_def)
qed


lemma task_upd_in:
  assumes "u \<in> set (sc_tasks (task_upd i f s))"
  shows "u \<in> set (sc_tasks s) \<or> (\<exists>v\<in>set (sc_tasks s). tk_id v = i \<and> u = f v)"
  using assms in_set_upd_first [of u "\<lambda>t. tk_id t = i" f "sc_tasks s"] by (simp add: task_upd_def)

lemma static_task_upd:
  assumes inv: "sched_inv s" and f: "\<And>t. task_ok s t \<Longrightarrow> tk_id t = i \<Longrightarrow> task_ok s (f t)"
    and adm: "admitted_utilization (\<lambda>_. True) (map (\<lambda>t. if tk_id t = i then f t else t) (sc_tasks s)) \<le> 1000000"
  shows "static_inv (task_upd i f s)"
proof -
  have "task_upd i f s = s\<lparr> sc_tasks := map (\<lambda>t. if tk_id t = i then f t else t) (sc_tasks s) \<rparr>"
    using sched_invD(5) [OF inv] by (simp add: task_upd_def upd_first_distinct)
  with static_map [OF sched_invD(3) [OF inv] _ adm] f show ?thesis by auto
qed

lemma sched_inv_rebuild_upd:
  assumes inv: "sched_inv s" and st: "static_inv (task_upd i f s)"
    and p: "placed (sc_tasks (task_upd i f s)) (sc_current_task_ids s)"
  shows "sched_inv (rebuild_runnable_indexes (task_upd i f s))"
  using evolves_static [OF evolves_rebuild st] p sched_invD(1,6) [OF inv]
  by (simp add: sched_inv_def cpus_ok_def rebuild_runnable_ok)

lemma sched_inv_set_fair:
  assumes inv: "sched_inv s" shows "sched_inv (fst (set_fair_profile s i p))"
proof -
  have ok: "task_ok s (fair_profile_record p t)" if "task_ok s t" "fp_weight p \<noteq> 0" for t
    using that by (simp add: task_ok_def fair_profile_record_def)
  have "admitted_utilization (\<lambda>_. True)
      (map (\<lambda>t. if tk_id t = i then fair_profile_record p t else t) (sc_tasks s)) \<le> 1000000"
    using static_invD(5) [OF sched_invD(3) [OF inv]]
    by (intro order_trans [OF admitted_map_le])
      (auto simp: fair_profile_record_def task_utilization_def admission_ok_def)
  then have "static_inv (task_upd i (fair_profile_record p) s)" if "fp_weight p \<noteq> 0"
    using ok that by (intro static_task_upd [OF inv]) auto
  moreover have "placed (sc_tasks (task_upd i (fair_profile_record p) s)) (sc_current_task_ids s)"
    using sched_invD(2) [OF inv] by (intro placed_task_upd) (auto simp: fair_profile_record_def)
  ultimately show ?thesis
    using inv by (auto simp: set_fair_profile_def intro!: sched_inv_rebuild_upd split: option.split)
qed

lemma sched_inv_set_deadline:
  assumes inv: "sched_inv s" shows "sched_inv (fst (set_deadline_profile s i p))"
proof -
  let ?f = "deadline_profile_record (sc_now_ns s) p"
  have ok: "task_ok s (?f t)" if "task_ok s t" "deadline_valid p" for t
    using that by (simp add: task_ok_def deadline_profile_record_def deadline_ok_def)
  have "static_inv (task_upd i ?f s)"
    if v: "deadline_valid p"
      and a: "admitted_utilization (\<lambda>t. tk_id t \<noteq> i) (sc_tasks s) + utilization_ppm p \<le> 1000000"
  proof (rule static_task_upd [OF inv])
    have "admitted_utilization (\<lambda>_. True) (map (\<lambda>t. if tk_id t = i then ?f t else t) (sc_tasks s)) \<le>
        admitted_utilization (\<lambda>t. tk_id t \<noteq> i) (sc_tasks s) +
        (if i \<in> tk_id ` set (sc_tasks s) then utilization_ppm p else 0)"
      using sched_invD(5) [OF inv]
      by (intro admitted_map_one) (auto simp: deadline_profile_record_def task_utilization_def)
    with a show "admitted_utilization (\<lambda>_. True) (map (\<lambda>t. if tk_id t = i then ?f t else t) (sc_tasks s)) \<le> 1000000"
      by (simp split: if_splits)
  qed (use ok v in auto)
  moreover have "placed (sc_tasks (task_upd i ?f s)) (sc_current_task_ids s)"
    using sched_invD(2) [OF inv] by (intro placed_task_upd) (auto simp: deadline_profile_record_def)
  ultimately show ?thesis
    using inv by (auto simp: set_deadline_profile_def not_less intro!: sched_inv_rebuild_upd split: option.split)
qed

lemma sched_inv_set_affinity:
  assumes inv: "sched_inv s" shows "sched_inv (fst (set_cpu_affinity s i m))"
proof (cases "m = 0 \<or> m AND NOT (active_cpu_mask s) \<noteq> 0 \<or> task_of s i = None")
  case True
  with inv show ?thesis by (auto simp: set_cpu_affinity_def)
next
  case False
  note D = sched_invD [OF inv]
  let ?f = "\<lambda>t. t\<lparr> tk_cpu_affinity_mask := m \<rparr>"
  let ?s1 = "task_upd i ?f s"
  let ?loop = "fold (vacate_cpu (\<lambda>cpu. m AND push_bit cpu 1 = 0) (task_upd i (set_state Ready)) i)
      [0..<cpu_count ?s1] ?s1"
  have n: "cpu_count ?s1 = length (sc_current_task_ids s)"
    using D(1) by (subst cpus_ok_count) (auto simp: cpus_ok_def)
  have st1: "static_inv ?s1"
  proof (rule static_task_upd [OF inv])
    show "admitted_utilization (\<lambda>_. True) (map (\<lambda>t. if tk_id t = i then ?f t else t) (sc_tasks s)) \<le> 1000000"
      using static_invD(5) [OF D(3)]
      by (intro order_trans [OF admitted_map_le]) (auto simp: task_utilization_def admission_ok_def)
  qed (use False active_cpu_mask_eq [OF D(1)] in \<open>simp add: task_ok_def\<close>)
  have "evolves ?s1 ?loop"
  proof (cases "Some i \<in> set (sc_current_task_ids s)")
    case True
    then obtain c where c: "c < length (sc_current_task_ids s)" "sc_current_task_ids s ! c = Some i"
        "cur s c = Some i" by (rule slot_of_id)
    from D(2) c(3) obtain t where t: "t \<in> set (sc_tasks s)" "tk_id t = i" "tk_state t = Running"
      by (rule task_of_slot)
    have run: "tk_state u \<noteq> Exited" if "u \<in> set (sc_tasks ?s1)" "tk_id u = i" for u
    proof -
      from task_upd_in [OF that(1)] show ?thesis
      proof (elim disjE bexE conjE)
        assume "u \<in> set (sc_tasks s)"
        from distinct_key_eq [OF D(5) this t(1)] that(2) t show ?thesis by simp
      next
        fix v assume v: "v \<in> set (sc_tasks s)" "tk_id v = i" "u = ?f v"
        from distinct_key_eq [OF D(5) v(1) t(1)] v t show ?thesis by simp
      qed
    qed
    have e1: "evolves ?s1 (set_cur (task_upd i (set_state Ready) ?s1) c None)"
      using evolves_set_state [OF run] evolves_set_cur by (rule evolves_trans)
    have d1: "distinct (map tk_id (sc_tasks ?s1))" using D(5) by (simp add: task_upd_def map_upd_first)
    have "evolves ?s1 (fst (schedule_next_on_cpu (set_cur (task_upd i (set_state Ready) ?s1) c None) c))"
      using c e1 evolves_distinct [OF e1 d1]
      by (intro evolves_trans [OF e1] evolves_schedule_next) auto
    then show ?thesis
      using c n D(2) by (subst fold_vacate [where c = c]) (auto simp: placed_def)
  next
    case False
    then show ?thesis by (simp add: fold_vacate_none)
  qed
  then have e: "evolves ?s1 (rebuild_runnable_indexes ?loop)" by (rule evolves_trans) simp
  have res: "fst (set_cpu_affinity s i m) = rebuild_runnable_indexes ?loop"
    using False by (auto simp: set_cpu_affinity_def Let_def)
  have "map rg_id (sc_groups ?loop) = map rg_id (sc_groups s)"
    using evolves_group_ids [OF \<open>evolves ?s1 ?loop\<close>] by simp
  then have "runnable_ok (rebuild_runnable_indexes ?loop)"
    using D(6) by (intro rebuild_runnable_ok) (simp only:)
  with evolves_static [OF e st1] set_cpu_affinity_placed [OF D(2,1), of i m] evolves_len [OF e] D(1)
  show ?thesis unfolding sched_inv_def res cpus_ok_def by simp
qed


section \<open>The scheduler as a state machine\<close>

text \<open>One constructor per public operation that changes the state.\<close>

datatype sched_op =
    EnsureGroup u32
  | EnsureGroupWithShares u32 u32
  | EnsureGroupWithLimits u32 "u32 option" u32 u16 bool
  | SetGroupShares u32 u32
  | SetGroupLimits u32 u32 u16 bool
  | AddTask scheduler_task
  | Tick nat u64
  | BlockCurrent nat block_reason
  | WakeTask u64
  | WakeHandleWaiters u64 u32
  | WakeExpired
  | SuspendTask u64
  | ExitTask u64 i32
  | ExitCurrent nat i32
  | CleanupExited
  | SetProfile u64 scheduling_profile
  | DonatePriority u64 u8
  | RestorePriority u64
  | YieldTo nat "u64 option"
  | YieldToAt nat "u64 option" u64
  | SetAffinity u64 u64
  | AccountRuntime u64
  | AccountExecuting nat u64 u64
  | QuiesceProcess u64
  | ResumeQuiesced u64
  | StopProcess u64
  | ResumeStopped u64

fun sched_step :: "reserve_site allocator \<times> sched_op \<Rightarrow> scheduler \<Rightarrow> scheduler" where
  "sched_step (al, EnsureGroup i) s = fst (ensure_resource_group al s i)"
| "sched_step (al, EnsureGroupWithShares i sh) s = fst (ensure_resource_group_with_shares al s i sh)"
| "sched_step (al, EnsureGroupWithLimits i p sh m rt) s =
     fst (ensure_resource_group_with_limits al s i p sh m rt)"
| "sched_step (al, SetGroupShares i sh) s = fst (set_resource_group_shares s i sh)"
| "sched_step (al, SetGroupLimits i sh m rt) s = fst (set_resource_group_limits s i sh m rt)"
| "sched_step (al, AddTask t) s = fst (add_task al s t)"
| "sched_step (al, Tick cpu now) s = fst (tick_at_on_cpu s cpu now)"
| "sched_step (al, BlockCurrent cpu r) s = fst (block_current_on_cpu s cpu r)"
| "sched_step (al, WakeTask i) s = fst (wake_task s i)"
| "sched_step (al, WakeHandleWaiters h sg) s = fst (wake_handle_waiters s h sg)"
| "sched_step (al, WakeExpired) s = fst (wake_expired_deadlines s)"
| "sched_step (al, SuspendTask i) s = fst (suspend_task s i)"
| "sched_step (al, ExitTask i x) s = fst (exit_task s i x)"
| "sched_step (al, ExitCurrent cpu x) s = fst (exit_current_on_cpu s cpu x)"
| "sched_step (al, CleanupExited) s = fst (cleanup_exited s)"
| "sched_step (al, SetProfile i p) s = fst (set_profile s i p)"
| "sched_step (al, DonatePriority i p) s = fst (donate_priority s i p)"
| "sched_step (al, RestorePriority i) s = fst (restore_base_priority s i)"
| "sched_step (al, YieldTo cpu t) s = fst (yield_current_to_on_cpu s cpu t)"
| "sched_step (al, YieldToAt cpu t now) s = fst (yield_current_to_at_on_cpu s cpu t now)"
| "sched_step (al, SetAffinity i m) s = fst (set_cpu_affinity s i m)"
| "sched_step (al, AccountRuntime now) s = account_runtime now s"
| "sched_step (al, AccountExecuting cpu t now) s = account_executing cpu t now s"
| "sched_step (al, QuiesceProcess p) s = quiesce_process s p"
| "sched_step (al, ResumeQuiesced p) s = resume_quiesced_process s p"
| "sched_step (al, StopProcess p) s = stop_process s p"
| "sched_step (al, ResumeStopped p) s = resume_stopped_process s p"

text \<open>
  What callers keep to: a task comes from \<open>SchedulerTask::new\<close>, a block reason
  is one the wait system calls build, and a group that already exists is not
  given a new parent (the callers pick a fresh id for every child group).
\<close>

definition sched_allowed :: "reserve_site allocator \<times> sched_op \<Rightarrow> scheduler \<Rightarrow> bool" where
  "sched_allowed x s =
     (case snd x of
        EnsureGroupWithLimits i p _ _ _ \<Rightarrow>
          (case find_group (sc_groups s) i of None \<Rightarrow> True | Some g \<Rightarrow> p = rg_parent_id g \<or> p = None)
      | AddTask t \<Rightarrow> fresh_task t
      | BlockCurrent _ r \<Rightarrow> block_ok r
      | _ \<Rightarrow> True)"

definition sched_initial :: "scheduler \<Rightarrow> bool" where
  "sched_initial s \<longleftrightarrow> (\<exists>al n. with_cpu_count al n = Inr s)"

lemma sched_inv_initial:
  assumes "sched_initial s" shows "sched_inv s"
proof -
  from assms obtain al n where w: "with_cpu_count al n = Inr s" by (auto simp: sched_initial_def)
  then have n: "1 \<le> n" "n \<le> MAX_CPUS"
    and s: "s = scheduler_empty\<lparr> sc_current_task_ids := replicate n None \<rparr>"
    by (auto simp: with_cpu_count_def split: if_splits)
  have "sched_placed s" by (auto simp: s placed_def slots_unique_def scheduler_empty_def)
  moreover have "static_inv s"
    by (simp add: s static_inv_def scheduler_empty_def groups_ok_def groups_acyclic_def threads_ok_def
        thread_keys_def accounting_new_def cursors_ok_def cursor_keys_def admission_ok_def
        admitted_utilization_def)
  ultimately show ?thesis
    using n by (simp add: sched_inv_def cpus_ok_def runnable_ok_def) (simp add: s scheduler_empty_def)
qed

lemma ensure_parent_ok:
  "case find_group (sc_groups s) i of None \<Rightarrow> True | Some g \<Rightarrow> None = rg_parent_id g \<or> None = None"
  by (simp split: option.split)

lemma sched_inv_step:
  assumes inv: "sched_inv s" and al: "sched_allowed x s"
  shows "sched_inv (sched_step x s)"
proof (cases x)
  case (Pair a opn)
  show ?thesis
  proof (cases opn)
    case (SetProfile i p)
    with Pair inv show ?thesis
      by (cases p) (simp_all add: set_profile_def sched_inv_set_fair sched_inv_set_deadline)
  qed (use Pair inv al in \<open>simp_all add: sched_allowed_def sched_inv_ensure sched_inv_ensure_limits
      ensure_resource_group_with_shares_def ensure_parent_ok sched_inv_set_shares sched_inv_set_limits
      sched_inv_add_task sched_inv_tick sched_inv_block sched_inv_wake_task wake_handle_waiters_def
      wake_expired_deadlines_def sched_inv_wake_all sched_inv_suspend sched_inv_exit_task
      sched_inv_exit_current sched_inv_cleanup sched_inv_donate sched_inv_restore sched_inv_yield
      sched_inv_yield_at sched_inv_set_affinity sched_inv_account sched_inv_account_executing
      quiesce_process_def resume_quiesced_process_def stop_process_def resume_stopped_process_def
      sched_inv_hold sched_inv_release\<close>)
qed

interpretation sched: machine sched_initial sched_step sched_allowed sched_inv
  by unfold_locales (auto intro: sched_inv_initial sched_inv_step)


section \<open>Properties of every run\<close>

text \<open>
  C1. Starting from a scheduler made by \<open>Scheduler::with_cpu_count\<close>, every
  sequence of allowed operations keeps the invariant. Allowed means
  (\<open>sched_allowed\<close>): a task that is added is as \<open>SchedulerTask::new\<close> makes it, with any affinity mask; a task
  blocks for a reason that the wait calls build (at most 8 items to wait for, a futex
  address that is not 0 and a multiple of 4); and \<open>ensure_resource_group_with_limits\<close> does not give an
  existing group a new parent. Every other
  operation of the interface may be called with any arguments, at any time. The invariant: between 1
  and 64 CPU slots, running tasks and slots in bijection and within their
  affinity, well-formed tasks, a well-formed acyclic group table, registered
  threads, one round-robin cursor per group and CPU, admitted deadline
  utilization within one CPU, and exact runnable counters.
\<close>

theorem scheduler_invariant:
  assumes "with_cpu_count alc n = Inr s0" and "run_ok sched_allowed sched_step xs s0"
  shows "sched_inv (fold sched_step xs s0)"
  using assms sched_inv_initial [of s0] by (intro sched.run_inv) (auto simp: sched_initial_def)

definition demo_task :: "u64 \<Rightarrow> u32 \<Rightarrow> u8 \<Rightarrow> scheduler_task" where
  "demo_task i g prio = (case scheduler_task_new i 7 g prio [116] of Inr t \<Rightarrow> t)"

lemma fresh_demo_task: "i \<noteq> 0 \<Longrightarrow> fresh_task (demo_task i g prio)"
  by (simp add: demo_task_def scheduler_task_new_def fresh_task_def MAX_TASK_NAME_def)

definition demo_ops :: "(reserve_site allocator \<times> sched_op) list" where
  "demo_ops = map (Pair (\<lambda>_ _. True))
     [AddTask (demo_task 1 1 5), AddTask (demo_task 2 1 5), AddTask (demo_task 3 2 9),
      Tick 0 4000000, BlockCurrent 1 (SleepUntil 9000000), YieldTo 0 None, Tick 0 9000000,
      ExitTask 2 0, CleanupExited]"

lemma demo_ops_ok: "run_ok sched_allowed sched_step demo_ops s"
  by (simp add: demo_ops_def sched_allowed_def fresh_demo_task block_ok_def)

theorem scheduler_invariant_witness:
  "sched_inv (fold sched_step demo_ops
     (scheduler_empty\<lparr> sc_current_task_ids := replicate 2 None \<rparr>))"
  by (rule scheduler_invariant [where alc = "\<lambda>_ _. True" and n = 2])
    (simp_all add: with_cpu_count_def MAX_CPUS_def demo_ops_ok)

lemma and_push_bit_one: "w AND push_bit c 1 \<noteq> 0 \<longleftrightarrow> bit w c" for w :: "'a::len word"
proof
  assume "w AND push_bit c 1 \<noteq> 0"
  then obtain k where "bit (w AND push_bit c 1) k" by (auto simp: bit_eq_iff)
  then show "bit w c" by (auto simp: bit_and_iff bit_exp_iff)
next
  assume b: "bit w c"
  then have "bit (w AND push_bit c 1) c"
    using bit_imp_le_length [OF b] by (auto simp: bit_and_iff bit_exp_iff)
  then show "w AND push_bit c 1 \<noteq> 0" by auto
qed

lemma can_run_bit: "task_can_run_on_cpu t c \<longleftrightarrow> bit (tk_cpu_affinity_mask t) c"
  unfolding task_can_run_on_cpu_def by (rule and_push_bit_one)

text \<open>
  C2. In every reachable state a task runs on at most one CPU, only in the
  running state, and only on a CPU of its affinity mask; and a task in the
  running state is the current task of some CPU.
\<close>

theorem scheduler_placement:
  assumes "with_cpu_count alc n = Inr s0" and "run_ok sched_allowed sched_step xs s0"
  shows "let s = fold sched_step xs s0 in
    (\<forall>c d i. cur s c = Some i \<and> cur s d = Some i \<longrightarrow> c = d) \<and>
    (\<forall>c i. cur s c = Some i \<longrightarrow>
       (\<exists>t. task_of s i = Some t \<and> tk_state t = Running \<and> bit (tk_cpu_affinity_mask t) c)) \<and>
    (\<forall>t\<in>set (sc_tasks s). tk_state t = Running \<longrightarrow> (\<exists>c. cur s c = Some (tk_id t)))"
proof -
  let ?s = "fold sched_step xs s0"
  have "sched_inv ?s"
    using assms sched_inv_initial [of s0] by (intro sched.run_inv) (auto simp: sched_initial_def)
  then have p: "sched_placed ?s" by (rule sched_invD)
  have "c = d" if "cur ?s c = Some i" "cur ?s d = Some i" for c d i
    using that placedD_unique [OF p, of c d i] by (auto simp: cur_def split: if_splits)
  moreover have "\<exists>t. task_of ?s i = Some t \<and> tk_state t = Running \<and> bit (tk_cpu_affinity_mask t) c"
    if "cur ?s c = Some i" for c i
    using task_of_slot [OF p that] can_run_bit by metis
  moreover have "\<exists>c. cur ?s c = Some (tk_id t)" if "t \<in> set (sc_tasks ?s)" "tk_state t = Running" for t
    using placedD_running [OF p that] by (metis cur_def)
  ultimately show ?thesis unfolding Let_def by blast
qed

theorem scheduler_placement_witness:
  "let s = fold sched_step demo_ops (scheduler_empty\<lparr> sc_current_task_ids := replicate 2 None \<rparr>) in
    (\<forall>c d i. cur s c = Some i \<and> cur s d = Some i \<longrightarrow> c = d) \<and>
    (\<forall>c i. cur s c = Some i \<longrightarrow>
       (\<exists>t. task_of s i = Some t \<and> tk_state t = Running \<and> bit (tk_cpu_affinity_mask t) c)) \<and>
    (\<forall>t\<in>set (sc_tasks s). tk_state t = Running \<longrightarrow> (\<exists>c. cur s c = Some (tk_id t)))"
  by (rule scheduler_placement [where alc = "\<lambda>_ _. True" and n = 2])
    (simp_all add: with_cpu_count_def MAX_CPUS_def demo_ops_ok)

end
