(* ===== verification/Sched_Policy.thy ===== *)
theory Sched_Policy
  imports Sched_Inv
begin

text \<open>
  Which task runs. Earliest deadline first among the deadline tasks with budget
  left; otherwise the group with the least virtual time that has quota, in it
  the highest effective priority, and among equals the next in round-robin
  order. The theory also states the bounds of the budget replenishment and of
  the virtual-time lag, that expired waits end at a tick, that a held process
  leaves every CPU, that execution times only grow, and two defects of the
  group accounting.
\<close>

section \<open>Earliest deadline first\<close>

text \<open>A task the deadline class may run on a CPU, with its absolute deadline.\<close>

definition edf_eligible :: "scheduler \<Rightarrow> nat \<Rightarrow> scheduler_task \<Rightarrow> u64 \<Rightarrow> bool" where
  "edf_eligible s cpu t dl \<longleftrightarrow>
     t \<in> set (sc_tasks s) \<and> dispatchable s cpu t \<and>
     (\<exists>d. tk_deadline t = Some d \<and> ed_remaining_budget_ns d > 0 \<and> ed_absolute_deadline_ns d = dl)"

lemma deadline_key_Some:
  "deadline_key t = Some (i, dl) \<longleftrightarrow>
     i = tk_id t \<and> (\<exists>d. tk_deadline t = Some d \<and> ed_remaining_budget_ns d > 0 \<and>
                       ed_absolute_deadline_ns d = dl)"
  by (auto simp: deadline_key_def split: option.splits)

lemma edf_candidates:
  "(i, dl) \<in> set (List.map_filter deadline_key (filter (dispatchable s cpu) (sc_tasks s))) \<longleftrightarrow>
     (\<exists>t. edf_eligible s cpu t dl \<and> tk_id t = i)"
  by (auto simp: map_filter_in deadline_key_Some edf_eligible_def)

lemma next_deadline_ready_spec:
  "case next_deadline_ready s cpu of
     None \<Rightarrow> \<not> (\<exists>t dl. edf_eligible s cpu t dl)
   | Some i \<Rightarrow> \<exists>t dl. edf_eligible s cpu t dl \<and> tk_id t = i \<and>
                 (\<forall>u dl'. edf_eligible s cpu u dl' \<longrightarrow> dl \<le> dl')"
proof -
  let ?c = "List.map_filter deadline_key (filter (dispatchable s cpu) (sc_tasks s))"
  show ?thesis
  proof (cases "min_by_key snd ?c")
    case None
    then have "?c = []" by simp
    then have "(i, dl) \<notin> set ?c" for i dl by simp
    then have "\<not> (\<exists>t dl. edf_eligible s cpu t dl)" unfolding edf_candidates by blast
    moreover have "next_deadline_ready s cpu = None"
      using None unfolding next_deadline_ready_def by simp
    ultimately show ?thesis by simp
  next
    case (Some p)
    obtain i dl where p: "p = (i, dl)" by (cases p)
    from min_by_key_Some(1) [OF Some] p obtain t where "edf_eligible s cpu t dl" "tk_id t = i"
      using edf_candidates by blast
    moreover have "dl \<le> dl'" if "edf_eligible s cpu u dl'" for u dl'
    proof -
      from that have "(tk_id u, dl') \<in> set ?c" unfolding edf_candidates by blast
      from min_by_key_Some(2) [OF Some this] p show ?thesis by simp
    qed
    ultimately show ?thesis using Some p by (auto simp: next_deadline_ready_def)
  qed
qed

text \<open>
  C4. The deadline class picks a task exactly when one is eligible: ready,
  allowed on the CPU, current on no other CPU, with budget left. The task it
  picks has the earliest absolute deadline of all eligible tasks.
\<close>

theorem next_deadline_ready_edf:
  "case next_deadline_ready s cpu of
     None \<Rightarrow> \<not> (\<exists>t dl. edf_eligible s cpu t dl)
   | Some i \<Rightarrow> \<exists>t dl. edf_eligible s cpu t dl \<and> tk_id t = i \<and>
                 (\<forall>u dl'. edf_eligible s cpu u dl' \<longrightarrow> dl \<le> dl')"
  by (rule next_deadline_ready_spec)

section \<open>Fair groups\<close>

definition fair_group_eligible :: "scheduler \<Rightarrow> nat \<Rightarrow> resource_group \<Rightarrow> bool" where
  "fair_group_eligible s cpu g \<longleftrightarrow>
     g \<in> set (sc_groups s) \<and> group_has_quota s (rg_id g) \<and>
     (\<exists>t\<in>set (sc_tasks s). fair_dispatchable s cpu (rg_id g) t)"

lemma next_fair_group_spec:
  "case next_fair_group s cpu of
     None \<Rightarrow> \<not> (\<exists>g. fair_group_eligible s cpu g)
   | Some i \<Rightarrow> \<exists>g. fair_group_eligible s cpu g \<and> rg_id g = i \<and>
       (\<forall>h. fair_group_eligible s cpu h \<longrightarrow> rg_fair_vruntime g \<le> rg_fair_vruntime h)"
proof -
  let ?gs = "filter (\<lambda>g. list_ex (fair_dispatchable s cpu (rg_id g)) (sc_tasks s))
      (filter (\<lambda>g. group_has_quota s (rg_id g)) (sc_groups s))"
  have el: "g \<in> set ?gs \<longleftrightarrow> fair_group_eligible s cpu g" for g
    by (auto simp: fair_group_eligible_def list_ex_iff)
  show ?thesis
  proof (cases "min_by_key rg_fair_vruntime ?gs")
    case None
    then have "?gs = []" by (simp only: min_by_key_None)
    then have "\<not> fair_group_eligible s cpu g" for g using el [of g] by (simp only: list.set) simp
    moreover have "next_fair_group s cpu = None"
      using None unfolding next_fair_group_def by (simp only: option.map)
    ultimately show ?thesis by simp
  next
    case (Some g)
    have "next_fair_group s cpu = Some (rg_id g)"
      using Some unfolding next_fair_group_def by (simp only: option.map)
    with min_by_key_Some [OF Some] el show ?thesis by auto
  qed
qed

lemma rr_task_surj:
  assumes "t \<in> set (sc_tasks s)"
  shows "\<exists>k<length (sc_tasks s). rr_task s start k = t"
proof -
  let ?n = "length (sc_tasks s)"
  from assms obtain j where j: "j < ?n" "sc_tasks s ! j = t" by (auto simp: in_set_conv_nth)
  define k where "k = (j + (?n - start mod ?n)) mod ?n"
  have n: "0 < ?n" using j by linarith
  have "(start + k) mod ?n = (start mod ?n + (j + (?n - start mod ?n))) mod ?n"
    by (simp add: k_def mod_simps)
  also have "start mod ?n + (j + (?n - start mod ?n)) = j + ?n"
    using mod_less_divisor [OF n, of start] by simp
  also have "(j + ?n) mod ?n = j" using j by simp
  finally have "rr_task s start k = t" using j by (simp add: rr_task_def)
  moreover have "k < ?n" using n by (simp add: k_def)
  ultimately show ?thesis by blast
qed

text \<open>The candidate the round-robin search returns: the first match after the cursor.\<close>

definition rr_first :: "scheduler \<Rightarrow> nat \<Rightarrow> u32 \<Rightarrow> nat \<Rightarrow> nat \<Rightarrow> bool" where
  "rr_first s cpu g start k \<longleftrightarrow>
     k < length (sc_tasks s) \<and> fair_dispatchable s cpu g (rr_task s start k) \<and>
     (\<forall>u\<in>set (sc_tasks s). fair_dispatchable s cpu g u \<longrightarrow>
        tk_effective_priority u \<le> tk_effective_priority (rr_task s start k)) \<and>
     (\<forall>j<k. \<not> (fair_dispatchable s cpu g (rr_task s start j) \<and>
                tk_effective_priority (rr_task s start j) = tk_effective_priority (rr_task s start k)))"

lemma rr_search_spec:
  assumes p: "highest_ready_priority (fair_ready_bitmap_for_group s g cpu) = Some p"
  shows "\<exists>k. List.find (\<lambda>k. rr_match s cpu g p (rr_task s start k)) [0..<length (sc_tasks s)] = Some k \<and>
      rr_first s cpu g start k"
proof -
  let ?ps = "map tk_effective_priority (filter (fair_dispatchable s cpu g) (sc_tasks s))"
  from p have "iter_max ?ps = Some p" by (simp only: highest_ready_priority_group)
  then have ne: "?ps \<noteq> []" and mx: "p = Max (set ?ps)" by (auto simp: iter_max_eq split: if_splits)
  have "p \<in> set ?ps" unfolding mx using ne by (intro Max_in) (auto simp: filter_empty_conv)
  then obtain t where t: "t \<in> set (sc_tasks s)" "fair_dispatchable s cpu g t" "tk_effective_priority t = p"
    by auto
  have top: "tk_effective_priority u \<le> p" if "u \<in> set (sc_tasks s)" "fair_dispatchable s cpu g u" for u
    unfolding mx using that by (intro Max_ge) auto
  from rr_task_surj [OF t(1), of start] obtain k0 where "k0 < length (sc_tasks s)" "rr_task s start k0 = t" by blast
  with t have "List.find (\<lambda>k. rr_match s cpu g p (rr_task s start k)) [0..<length (sc_tasks s)] \<noteq> None"
    by (auto simp: find_None_iff rr_match_def)
  then obtain k where k: "List.find (\<lambda>k. rr_match s cpu g p (rr_task s start k)) [0..<length (sc_tasks s)] = Some k"
    by blast
  then have "k < length (sc_tasks s)" "rr_match s cpu g p (rr_task s start k)"
      "\<forall>j<k. \<not> rr_match s cpu g p (rr_task s start j)"
    by (auto simp: find_Some_iff)
  with top have "rr_first s cpu g start k" by (auto simp: rr_first_def rr_match_def)
  with k show ?thesis by blast
qed

lemma next_fair_ready_spec:
  "case next_fair_ready s cpu of
     (s', None) \<Rightarrow> s' = s \<and> \<not> (\<exists>g. fair_group_eligible s cpu g)
   | (s', Some i) \<Rightarrow> \<exists>g k. fair_group_eligible s cpu g \<and>
       (\<forall>h. fair_group_eligible s cpu h \<longrightarrow> rg_fair_vruntime g \<le> rg_fair_vruntime h) \<and>
       (let start = rr_start s (find_cursor s (rg_id g) cpu)
        in rr_first s cpu (rg_id g) start k \<and> i = tk_id (rr_task s start k)) \<and>
       s' = set_cursor (rg_id g) cpu i s"
proof (cases "next_fair_group s cpu")
  case None
  with next_fair_group_spec [of s cpu] show ?thesis by (simp add: next_fair_ready_def)
next
  case (Some gi)
  with next_fair_group_spec [of s cpu] obtain g where g: "fair_group_eligible s cpu g" "rg_id g = gi"
      "\<forall>h. fair_group_eligible s cpu h \<longrightarrow> rg_fair_vruntime g \<le> rg_fair_vruntime h" by auto
  then have "filter (fair_dispatchable s cpu gi) (sc_tasks s) \<noteq> []"
    by (auto simp: fair_group_eligible_def filter_empty_conv)
  then obtain p where p: "highest_ready_priority (fair_ready_bitmap_for_group s gi cpu) = Some p"
    unfolding highest_ready_priority_group by (auto simp: iter_max_eq)
  let ?st = "rr_start s (find_cursor s gi cpu)"
  from rr_search_spec [OF p, of ?st] obtain k where
    k: "List.find (\<lambda>k. rr_match s cpu gi p (rr_task s ?st k)) [0..<length (sc_tasks s)] = Some k"
      "rr_first s cpu gi ?st k" by blast
  then have "next_fair_ready s cpu = (set_cursor gi cpu (tk_id (rr_task s ?st k)) s, Some (tk_id (rr_task s ?st k)))"
    using Some p by (simp add: next_fair_ready_def Let_def)
  with g k show ?thesis by (auto simp: Let_def)
qed

text \<open>
  C5. The fair class returns no task exactly when no group with quota has an
  eligible task. Otherwise it picks from an eligible group of least virtual
  time; in it a task of the highest effective priority; and among those the
  first in round-robin order after the group's cursor for this CPU, which then
  points to the task picked.
\<close>

theorem next_fair_ready_policy:
  "case next_fair_ready s cpu of
     (s', None) \<Rightarrow> s' = s \<and> \<not> (\<exists>g. fair_group_eligible s cpu g)
   | (s', Some i) \<Rightarrow> \<exists>g k. fair_group_eligible s cpu g \<and>
       (\<forall>h. fair_group_eligible s cpu h \<longrightarrow> rg_fair_vruntime g \<le> rg_fair_vruntime h) \<and>
       (let start = rr_start s (find_cursor s (rg_id g) cpu)
        in rr_first s cpu (rg_id g) start k \<and> i = tk_id (rr_task s start k)) \<and>
       s' = set_cursor (rg_id g) cpu i s"
  by (rule next_fair_ready_spec)

text \<open>
  C6. The priority bitmap of four 64-bit words, with its leading-zero search, gives the
  maximum of the effective priorities of the tasks that the fair class may dispatch
  for the group on the CPU: ready tasks of the group without a deadline profile,
  allowed on the CPU and not current on another one.
\<close>

theorem priority_bitmap_is_max:
  "highest_ready_priority (fair_ready_bitmap_for_group s g cpu) =
     iter_max (map tk_effective_priority (filter (fair_dispatchable s cpu g) (sc_tasks s)))"
  by (rule highest_ready_priority_group)

text \<open>
  C3. A CPU is left idle only when, after replenishment, neither the deadline
  class nor the fair class has an eligible task for it; a deadline task with
  budget always goes before a fair one.
\<close>

theorem schedule_next_work_conserving:
  "snd (schedule_next_on_cpu s cpu) = None \<longleftrightarrow>
     \<not> (\<exists>t dl. edf_eligible (replenish s) cpu t dl) \<and> \<not> (\<exists>g. fair_group_eligible (replenish s) cpu g)"
proof -
  have "snd (schedule_next_on_cpu s cpu) = snd (select_next (replenish s) cpu)"
    by (simp add: schedule_next_on_cpu_def case_prod_unfold Let_def split: option.split)
  with next_deadline_ready_spec [of "replenish s" cpu] next_fair_ready_spec [of "replenish s" cpu]
  show ?thesis
    by (cases "next_deadline_ready (replenish s) cpu"; cases "next_fair_ready (replenish s) cpu")
      (auto simp: select_next_def split: option.splits)
qed


section \<open>Replenishment\<close>

text \<open>The start of the period a deadline belongs to.\<close>

definition period_start :: "effective_deadline \<Rightarrow> nat" where
  "period_start d = unat (ed_absolute_deadline_ns d) - unat (dp_deadline_ns (ed_profile d))"

lemma valid_period_pos: "deadline_valid p \<Longrightarrow> 0 < unat (dp_period_ns p)"
  unfolding deadline_valid_def by (metis le_zero_eq linorder_not_less order_less_le_trans unat_eq_zero word_le_nat_alt word_less_nat_alt)

lemma refill_unat:
  assumes v: "deadline_valid (ed_profile d)"
  shows "unat (sat_sub now (sat_sub (ed_absolute_deadline_ns d) (dp_deadline_ns (ed_profile d)))
        div dp_period_ns (ed_profile d)) = (unat now - period_start d) div unat (dp_period_ns (ed_profile d))"
  by (simp add: unat_div_distrib unat_sat_sub period_start_def)

text \<open>
  C7. Replenishment happens exactly when a full period has passed since the
  period of the deadline began. It then restores the full capacity, moves the
  deadline by a whole number of periods, and puts the current time inside the
  new period: unless 64-bit time saturates, the period begins at or before now
  and ends after it. Otherwise budget and deadline stay as they are, and the
  division is never by zero.
\<close>

theorem refill_deadline_periodic:
  fixes d :: effective_deadline
  assumes v: "deadline_valid (ed_profile d)"
    and start: "dp_deadline_ns (ed_profile d) \<le> ed_absolute_deadline_ns d"
    and room: "unat now + unat (dp_deadline_ns (ed_profile d)) < 2 ^ 64"
  defines "T \<equiv> unat (dp_period_ns (ed_profile d))"
  shows "if unat now < period_start d + T then refill_deadline now d = d
    else \<exists>k>0. unat (ed_absolute_deadline_ns (refill_deadline now d)) = unat (ed_absolute_deadline_ns d) + k * T \<and>
         ed_remaining_budget_ns (refill_deadline now d) = dp_capacity_ns (ed_profile d) \<and>
         ed_profile (refill_deadline now d) = ed_profile d \<and>
         period_start (refill_deadline now d) \<le> unat now \<and>
         unat now < period_start (refill_deadline now d) + T"
proof -
  let ?p = "ed_profile d"
  have T: "0 < T" using valid_period_pos [OF v] by (simp add: T_def)
  define k where "k = (unat now - period_start d) div T"
  have ku: "unat (sat_sub now (sat_sub (ed_absolute_deadline_ns d) (dp_deadline_ns ?p)) div dp_period_ns ?p) = k"
    using refill_unat [OF v, of now] by (simp add: k_def T_def)
  have abs: "unat (ed_absolute_deadline_ns d) = period_start d + unat (dp_deadline_ns ?p)"
    using start by (simp add: period_start_def word_le_nat_alt)
  show ?thesis
  proof (cases "unat now < period_start d + T")
    case True
    then have "k = 0" using T by (auto simp: k_def div_eq_0_iff)
    then have "sat_sub now (sat_sub (ed_absolute_deadline_ns d) (dp_deadline_ns ?p)) div dp_period_ns ?p = 0"
      using ku by (metis unat_eq_zero)
    with True show ?thesis by (simp add: refill_deadline_def Let_def)
  next
    case False
    then have ge: "T \<le> unat now - period_start d" "period_start d \<le> unat now" by auto
    then have k: "0 < k" using T by (simp add: k_def div_greater_zero_iff)
    have kT: "k * T \<le> unat now - period_start d" "unat now - period_start d < k * T + T"
      using T by (auto simp: k_def) (metis add.commute dividend_less_times_div mult.commute mult_Suc)
    have le: "unat (ed_absolute_deadline_ns d) + k * T < 2 ^ 64"
      using kT ge room abs by linarith
    let ?w = "sat_sub now (sat_sub (ed_absolute_deadline_ns d) (dp_deadline_ns ?p)) div dp_period_ns ?p"
    have "?w > 0" using k ku by (metis unat_eq_zero word_neq_0_conv not_less_zero)
    then have rd: "refill_deadline now d = d\<lparr> ed_absolute_deadline_ns :=
        sat_add (ed_absolute_deadline_ns d) (sat_mul ?w (dp_period_ns ?p)),
        ed_remaining_budget_ns := dp_capacity_ns ?p \<rparr>"
      by (simp add: refill_deadline_def Let_def)
    have "unat (sat_mul ?w (dp_period_ns ?p)) = k * T"
      using le ku by (simp add: unat_sat_mul T_def)
    then have new: "unat (ed_absolute_deadline_ns (refill_deadline now d)) = unat (ed_absolute_deadline_ns d) + k * T"
      using le by (simp add: rd unat_sat_add)
    have pr: "ed_profile (refill_deadline now d) = ?p" by (simp add: rd)
    have "period_start (refill_deadline now d) =
        unat (ed_absolute_deadline_ns (refill_deadline now d)) - unat (dp_deadline_ns ?p)"
      by (simp only: period_start_def pr)
    also have "\<dots> = period_start d + k * T" unfolding new abs by simp
    finally have ps: "period_start (refill_deadline now d) = period_start d + k * T" .
    have "ed_remaining_budget_ns (refill_deadline now d) = dp_capacity_ns ?p" by (simp add: rd)
    with new pr ps k kT ge False show ?thesis by (auto intro!: exI [of _ k])
  qed
qed

definition demo_deadline :: effective_deadline where
  "demo_deadline = \<lparr> ed_profile = \<lparr> dp_capacity_ns = 5, dp_deadline_ns = 20, dp_period_ns = 30 \<rparr>,
     ed_absolute_deadline_ns = 20, ed_remaining_budget_ns = 0 \<rparr>"

lemma demo_deadline_sel:
  "deadline_valid (ed_profile demo_deadline)" "ed_absolute_deadline_ns demo_deadline = 20"
  "dp_deadline_ns (ed_profile demo_deadline) = 20" "dp_period_ns (ed_profile demo_deadline) = 30"
  "period_start demo_deadline = 0"
  by (simp_all add: demo_deadline_def deadline_valid_def period_start_def)

theorem refill_deadline_periodic_witness:
  "\<exists>k>0. unat (ed_absolute_deadline_ns (refill_deadline 95 demo_deadline)) = 20 + k * 30"
  using refill_deadline_periodic [of demo_deadline 95]
  by (simp only: demo_deadline_sel) force

section \<open>Virtual time\<close>

lemma clamp_groups:
  assumes "iter_min (runnable_vruntimes (sc_groups s)) = Some v"
  shows "sc_groups (clamp_runnable_group_lag s) = map (\<lambda>g. if rg_runnable_tasks g \<noteq> 0
      then g\<lparr> rg_fair_vruntime := min (rg_fair_vruntime g) (sat_add v max_group_lag) \<rparr> else g) (sc_groups s)"
  using assms by (simp add: clamp_runnable_group_lag_def Let_def)

text \<open>
  C8. After a fair charge no runnable group is more than eight quanta of
  virtual time ahead of another: a group can be passed over for a bounded time
  only.
\<close>

theorem fair_charge_bounds_lag:
  assumes "g \<in> set (sc_groups (add_group_tick_if_present (Some (i, True)) el s))"
    and "h \<in> set (sc_groups (add_group_tick_if_present (Some (i, True)) el s))"
    and "rg_runnable_tasks g \<noteq> 0" and "rg_runnable_tasks h \<noteq> 0"
  shows "unat (rg_fair_vruntime g) \<le> unat (rg_fair_vruntime h) + 32768000000"
proof -
  let ?s = "add_group_tick i True el s"
  have lag: "unat max_group_lag = 32768000000"
    by (simp add: max_group_lag_def unat_sat_mul DEFAULT_FAIR_QUANTUM_NS_def MAX_FAIR_GROUP_LAG_QUANTA_def)
  have cl: "add_group_tick_if_present (Some (i, True)) el s = clamp_runnable_group_lag ?s"
    by (simp add: add_group_tick_if_present_def)
  show ?thesis
  proof (cases "iter_min (runnable_vruntimes (sc_groups ?s))")
    case None
    then have "runnable_vruntimes (sc_groups ?s) = []" by (simp add: iter_min_eq split: if_splits)
    moreover have "clamp_runnable_group_lag ?s = ?s" using None by (simp add: clamp_runnable_group_lag_def)
    ultimately show ?thesis using assms cl by (auto simp: runnable_vruntimes_def filter_empty_conv)
  next
    case (Some v)
    then have v: "v \<le> x" if "x \<in> set (runnable_vruntimes (sc_groups ?s))" for x
      using that by (auto simp: iter_min_eq split: if_splits)
    from assms cl clamp_groups [OF Some] obtain g0 h0 where
      gh: "g0 \<in> set (sc_groups ?s)" "rg_runnable_tasks g0 \<noteq> 0"
         "rg_fair_vruntime g = min (rg_fair_vruntime g0) (sat_add v max_group_lag)"
         "h0 \<in> set (sc_groups ?s)" "rg_runnable_tasks h0 \<noteq> 0"
         "rg_fair_vruntime h = min (rg_fair_vruntime h0) (sat_add v max_group_lag)"
      by (auto split: if_splits)
    have "v \<le> rg_fair_vruntime h0" using gh by (intro v) (auto simp: runnable_vruntimes_def)
    then have "v \<le> rg_fair_vruntime h" using gh(6) sat_add_ge [of v] by (simp add: min_def)
    moreover have "rg_fair_vruntime g \<le> sat_add v max_group_lag" using gh(3) by simp
    ultimately show ?thesis by (simp add: word_le_nat_alt unat_sat_add lag)
  qed
qed


definition demo_group :: "u32 \<Rightarrow> u64 \<Rightarrow> resource_group" where
  "demo_group i v = \<lparr> rg_id = i, rg_parent_id = None, rg_cpu_shares = 1024,
     rg_max_utilization_permille = 0, rg_allow_realtime = True, rg_fair_vruntime = v,
     rg_cpu_ticks = 0, rg_cpu_time_ns = 0, rg_quota_window_start_ns = 0, rg_quota_used_ns = 0,
     rg_runnable_tasks = 1 \<rparr>"

definition demo_groups :: scheduler where
  "demo_groups = scheduler_empty\<lparr> sc_groups := [demo_group 1 0, demo_group 2 99999999999] \<rparr>"

lemmas group_eval = demo_groups_def demo_group_def add_group_tick_if_present_def add_group_tick_def
  find_group_def scheduler_empty_def charge_group_def clamp_runnable_group_lag_def iter_min_def
  runnable_vruntimes_def Let_def sat_sub_def sat_add_def sat_mul_def max_group_lag_def
  CPU_QUOTA_WINDOW_NS_def DEFAULT_FAIR_QUANTUM_NS_def MAX_FAIR_GROUP_LAG_QUANTA_def

theorem fair_charge_bounds_lag_witness:
  "let gs = sc_groups (add_group_tick_if_present (Some (1, True)) 4000000 demo_groups)
   in unat (rg_fair_vruntime (gs ! 1)) \<le> unat (rg_fair_vruntime (gs ! 0)) + 32768000000 \<and>
      rg_fair_vruntime (gs ! 1) \<noteq> rg_fair_vruntime (demo_group 2 99999999999)"
proof -
  let ?gs = "sc_groups (add_group_tick_if_present (Some (1, True)) 4000000 demo_groups)"
  have n: "length ?gs = 2" "rg_runnable_tasks (?gs ! 0) \<noteq> 0" "rg_runnable_tasks (?gs ! 1) \<noteq> 0"
      "rg_fair_vruntime (?gs ! 1) \<noteq> rg_fair_vruntime (demo_group 2 99999999999)"
    by (simp_all add: group_eval)
  then have "?gs ! 0 \<in> set ?gs" "?gs ! 1 \<in> set ?gs" by (auto intro: nth_mem)
  from fair_charge_bounds_lag [OF this(2,1) n(3,2)] n(4) show ?thesis by (simp add: Let_def)
qed

text \<open>
  Two deadline tasks, due at 900 and at 500, and three fair tasks: 3 and 4 of
  a group that has run less than the group of task 5.
\<close>

definition demo_due :: "u64 \<Rightarrow> effective_deadline" where
  "demo_due at = demo_deadline\<lparr> ed_absolute_deadline_ns := at, ed_remaining_budget_ns := 5 \<rparr>"

definition demo_choice :: scheduler where
  "demo_choice = scheduler_empty\<lparr>
     sc_tasks := [(demo_task 1 5 2)\<lparr> tk_deadline := Some (demo_due 900) \<rparr>,
                  (demo_task 2 5 2)\<lparr> tk_deadline := Some (demo_due 500) \<rparr>,
                  demo_task 3 5 3, demo_task 4 5 4, demo_task 5 6 9],
     sc_groups := [demo_group 5 10, demo_group 6 20],
     sc_current_task_ids := [None] \<rparr>"

lemmas choice_eval = demo_choice_def demo_due_def demo_deadline_def demo_task_def scheduler_task_new_def
  MAX_TASK_NAME_def scheduler_empty_def dispatchable_def task_can_run_on_cpu_def
  is_running_elsewhere_def max_of_def

lemma demo_choice_edf: "edf_eligible demo_choice 0 t dl \<longleftrightarrow>
    tk_id t = 1 \<and> t \<in> set (sc_tasks demo_choice) \<and> dl = 900 \<or>
    tk_id t = 2 \<and> t \<in> set (sc_tasks demo_choice) \<and> dl = 500"
  by (auto simp: edf_eligible_def choice_eval)

theorem next_deadline_ready_edf_witness: "next_deadline_ready demo_choice 0 = Some 2"
proof -
  have "edf_eligible demo_choice 0 (sc_tasks demo_choice ! 1) 500"
    by (simp add: edf_eligible_def choice_eval)
  with next_deadline_ready_edf [of demo_choice 0] show ?thesis
    by (cases "next_deadline_ready demo_choice 0") (auto simp: demo_choice_edf)
qed

lemma demo_choice_groups: "fair_group_eligible demo_choice 0 g \<longleftrightarrow> g \<in> {demo_group 5 10, demo_group 6 20}"
  by (auto simp: fair_group_eligible_def fair_dispatchable_def choice_eval demo_group_def
      group_has_quota_def find_group_def quota_exhausted_def)

lemma demo_choice_first:
  assumes "rr_first demo_choice 0 5 0 k"
  shows "tk_id (rr_task demo_choice 0 k) = 4"
proof -
  have "k < 5" using assms by (simp add: rr_first_def choice_eval)
  then have "k \<in> {0, 1, 2, 3, 4}" by auto
  with assms show ?thesis
    by (auto simp: rr_first_def rr_task_def fair_dispatchable_def choice_eval)
qed

theorem next_fair_ready_policy_witness: "snd (next_fair_ready demo_choice 0) = Some 4"
proof -
  have c: "rr_start demo_choice (find_cursor demo_choice g 0) = 0" for g
    by (simp add: rr_start_def find_cursor_def choice_eval)
  obtain s' r where e: "next_fair_ready demo_choice 0 = (s', r)" by fastforce
  note spec = next_fair_ready_policy [of demo_choice 0, unfolded e prod.case]
  show ?thesis
  proof (cases r)
    case None
    with spec demo_choice_groups show ?thesis by auto
  next
    case (Some i)
    with spec obtain g k where g: "g \<in> {demo_group 5 10, demo_group 6 20}"
        "rg_fair_vruntime g \<le> rg_fair_vruntime (demo_group 5 10)"
        "rr_first demo_choice 0 (rg_id g) 0 k" "i = tk_id (rr_task demo_choice 0 k)"
      unfolding demo_choice_groups c Let_def by auto
    then have "rg_id g = 5" by (auto simp: demo_group_def)
    with g demo_choice_first [of k] Some e show ?thesis by simp
  qed
qed

end
