(* ===== verification/Sched_Defects.thy ===== *)
theory Sched_Defects
  imports Sched_Policy
begin

text \<open>
  The walks up the group tree, and two defects of the group code. On every
  state the allowed operations reach, the three walks return. A caller that
  re-parents an existing root below its own descendant makes them run forever. And
  a leaf group that has used up its CPU quota while none of its tasks is
  running never gets it back, however many ticks pass.
\<close>

section \<open>Walks return\<close>

text \<open>
  C12. In every state that a run of allowed operations reaches, the three loops over
  ancestor groups
  (\<open>group_has_quota\<close>, \<open>group_allows_realtime\<close>, \<open>add_group_tick\<close>) return, and
  what they return is what the scheduler's operations use. In an allowed run an existing
  group is never given a parent other than the one it has (see \<open>sched_allowed\<close>); the
  next property shows what happens otherwise.
\<close>

theorem group_walks_return:
  assumes "with_cpu_count alc n = Inr s0" and "run_ok sched_allowed sched_step xs s0"
  shows "let s = fold sched_step xs s0 in
    has_quota_walk (sc_groups s) (Some i) = Some (group_has_quota s i) \<and>
    allows_realtime_walk (sc_groups s) (Some i) = Some (group_allows_realtime s i) \<and>
    group_tick_walk (sc_now_ns s) fair el (Some i) (sc_groups s) =
      Some (sc_groups (add_group_tick i fair el s))"
proof -
  have "sched_inv (fold sched_step xs s0)"
    using assms sched_inv_initial [of s0] by (intro sched.run_inv) (auto simp: sched_initial_def)
  then have "groups_acyclic (sc_groups (fold sched_step xs s0))" by (rule sched_invD)
  then show ?thesis
    by (simp add: Let_def group_has_quota_walk group_allows_realtime_walk add_group_tick_walk)
qed

theorem group_walks_return_witness:
  "\<exists>b. has_quota_walk (sc_groups (fold sched_step demo_ops
      (scheduler_empty\<lparr> sc_current_task_ids := replicate 2 None \<rparr>))) (Some 2) = Some b"
  using group_walks_return [where alc = "\<lambda>_ _. True" and n = 2 and xs = demo_ops and i = 2 and
      ?s0.0 = "scheduler_empty\<lparr> sc_current_task_ids := replicate 2 None \<rparr>"]
  by (simp add: with_cpu_count_def MAX_CPUS_def demo_ops_ok Let_def)

section \<open>A cycle\<close>

text \<open>
  C13. \<open>ensure_resource_group_with_limits\<close> accepts a descendant of an existing root group
  as its new parent. Let \<open>i\<close> be a root group and \<open>j\<close> another group, and \<open>K\<close> a
  set of groups with both in it that is closed under taking the parent of a group other than \<open>i\<close>, such as the path from
  \<open>j\<close> up to \<open>i\<close>. If no group of \<open>K\<close> has used up its quota, that of \<open>i\<close> under its
  new limit, then the call to put \<open>i\<close> below \<open>j\<close> succeeds, and
  \<open>group_has_quota\<close>, which every scheduling decision calls, does not return for any
  group of \<open>K\<close>. (A group that has a parent cannot be moved, the code returns
  \<open>AccessDenied\<close>; and a group without quota on the path ends the walk.)
\<close>

theorem reparent_cycle_diverges:
  assumes i: "find_group (sc_groups s) i = Some gi" "rg_parent_id gi = None"
      "\<not> quota_exhausted (gi\<lparr> rg_max_utilization_permille := pm \<rparr>)"
    and K: "i \<in> K" "j \<in> K" "i \<noteq> j"
      "\<forall>k\<in>K. k \<noteq> i \<longrightarrow> (\<exists>g p. find_group (sc_groups s) k = Some g \<and> rg_parent_id g = Some p \<and> p \<in> K \<and>
        \<not> quota_exhausted g)"
    and ok: "i \<noteq> 0" "sh \<noteq> 0" "pm \<le> 1000"
  shows "let (s', r) = ensure_resource_group_with_limits al s i (Some j) sh pm rt
    in r = Inr () \<and> (\<forall>k\<in>K. has_quota_walk (sc_groups s') (Some k) = None)"
proof -
  let ?f = "\<lambda>g. g\<lparr> rg_parent_id := Some j, rg_cpu_shares := sh, rg_max_utilization_permille := pm,
      rg_allow_realtime := rt \<rparr>"
  let ?gs = "upd_first (\<lambda>g. rg_id g = i) ?f (sc_groups s)"
  obtain gj where "find_group (sc_groups s) j = Some gj" using K(2,3,4) by fastforce
  then have gj: "rg_id gj = j" "gj \<in> set (sc_groups s)" by (auto simp: find_group_def dest: find_Some_in)
  have fi: "find_group ?gs i = Some (?f gi)"
  proof -
    have "List.find p xs = Some x \<Longrightarrow> p (f x) \<Longrightarrow> List.find p (upd_first p f xs) = Some (f x)"
      for p f and x :: resource_group and xs by (induction xs) (auto split: if_splits)
    moreover have "rg_id gi = i" using i(1) by (auto simp: find_group_def dest: find_Some_in)
    ultimately show ?thesis using i(1) unfolding find_group_def by simp
  qed
  have fk: "find_group ?gs k = find_group (sc_groups s) k" if "k \<noteq> i" for k
  proof -
    have "List.find (\<lambda>g. rg_id g = k) (upd_first (\<lambda>g. rg_id g = i) f xs) = List.find (\<lambda>g. rg_id g = k) xs"
      if "\<And>g. rg_id (f g) = rg_id g" for f and xs :: "resource_group list"
      using that \<open>k \<noteq> i\<close> by (induction xs) auto
    from this [of ?f "sc_groups s"] show ?thesis unfolding find_group_def by simp
  qed
  have "\<not> quota_exhausted (?f gi)" using i(3) by (simp add: quota_exhausted_def quota_budget_def)
  moreover have "rg_parent_id (?f gi) = Some j" by simp
  ultimately have "\<exists>g p. find_group ?gs k = Some g \<and> \<not> quota_exhausted g \<and> rg_parent_id g = Some p \<and> p \<in> K"
    if "k \<in> K" for k
    using fi fk [of k] K(2,4) that by (cases "k = i") auto
  then have "quota_trap ?gs K" by (simp add: quota_trap_def)
  then have "\<forall>k\<in>K. has_quota_walk ?gs (Some k) = None" by (auto intro: has_quota_walk_trap)
  moreover have "ensure_resource_group_with_limits al s i (Some j) sh pm rt = (s\<lparr> sc_groups := ?gs \<rparr>, Inr ())"
    using i ok gj K(3) by (auto simp: ensure_resource_group_with_limits_def list_ex_iff)
  ultimately show ?thesis by simp
qed

definition demo_family :: scheduler where
  "demo_family = scheduler_empty\<lparr> sc_groups :=
     [demo_group 1 0, (demo_group 2 0)\<lparr> rg_parent_id := Some 1 \<rparr>, (demo_group 3 0)\<lparr> rg_parent_id := Some 2 \<rparr>] \<rparr>"

theorem reparent_cycle_diverges_witness:
  "has_quota_walk (sc_groups (fst (ensure_resource_group_with_limits (\<lambda>_ _. True)
     demo_family 1 (Some 3) 1024 500 True))) (Some 2) = None"
proof -
  have "find_group (sc_groups demo_family) 1 = Some (demo_group 1 0)"
    "find_group (sc_groups demo_family) 2 = Some ((demo_group 2 0)\<lparr> rg_parent_id := Some 1 \<rparr>)"
    "find_group (sc_groups demo_family) 3 = Some ((demo_group 3 0)\<lparr> rg_parent_id := Some 2 \<rparr>)"
    by (simp_all add: demo_family_def demo_group_def find_group_def scheduler_empty_def)
  with reparent_cycle_diverges [of demo_family 1 "demo_group 1 0" 500 "{1, 2, 3}" 3 1024 "\<lambda>_ _. True" True]
  show ?thesis by (simp add: demo_group_def quota_exhausted_def quota_budget_def CPU_QUOTA_WINDOW_NS_def sat_mul_def
        case_prod_unfold Let_def)
qed

section \<open>Quota is never given back\<close>

text \<open>
  A leaf group that has used up its quota, has no deadline task, and has no
  running task.
\<close>

definition starved :: "scheduler \<Rightarrow> u32 \<Rightarrow> bool" where
  "starved s i \<longleftrightarrow>
     (\<exists>g. find_group (sc_groups s) i = Some g \<and> quota_exhausted g) \<and>
     (\<forall>g\<in>set (sc_groups s). rg_parent_id g \<noteq> Some i) \<and>
     (\<forall>t\<in>set (sc_tasks s). tk_resource_group_id t = i \<longrightarrow> tk_deadline t = None \<and> tk_state t \<noteq> Running)"

definition quota_key :: "resource_group \<Rightarrow> u32 \<times> u32 option \<times> u16 \<times> u64" where
  "quota_key g = (rg_id g, rg_parent_id g, rg_max_utilization_permille g, rg_quota_used_ns g)"

lemma quota_exhausted_key: "quota_key g = quota_key h \<Longrightarrow> quota_exhausted g = quota_exhausted h"
  by (simp add: quota_key_def quota_exhausted_def quota_budget_def)

lemma starved_groups:
  assumes k: "map quota_key gs' = map quota_key gs"
  shows "(\<exists>g. find_group gs' i = Some g \<and> quota_exhausted g) = (\<exists>g. find_group gs i = Some g \<and> quota_exhausted g)"
    and "(\<forall>g\<in>set gs'. rg_parent_id g \<noteq> Some i) = (\<forall>g\<in>set gs. rg_parent_id g \<noteq> Some i)"
proof -
  show "(\<exists>g. find_group gs' i = Some g \<and> quota_exhausted g) = (\<exists>g. find_group gs i = Some g \<and> quota_exhausted g)"
    using k
  proof (induction gs' gs rule: list_induct2')
    case (4 x xs y ys)
    then show ?case using quota_exhausted_key [of x y] by (auto simp: find_group_def quota_key_def)
  qed (auto simp: find_group_def)
  show "(\<forall>g\<in>set gs'. rg_parent_id g \<noteq> Some i) = (\<forall>g\<in>set gs. rg_parent_id g \<noteq> Some i)"
    using k by (induction gs' gs rule: list_induct2') (auto simp: quota_key_def)
qed

lemma starved_step:
  assumes "starved s i" and "map quota_key (sc_groups s') = map quota_key (sc_groups s)"
    and "\<And>t'. t' \<in> set (sc_tasks s') \<Longrightarrow> tk_resource_group_id t' = i \<Longrightarrow>
       tk_deadline t' = None \<and> tk_state t' \<noteq> Running"
  shows "starved s' i"
  using assms starved_groups [OF assms(2), of i] unfolding starved_def by blast

text \<open>A task record rewritten in place: enough that tasks of the group stay as they must.\<close>

lemma starved_upd:
  assumes "starved s i" and "\<And>t. t \<in> set (sc_tasks s) \<Longrightarrow> tk_id t = j \<Longrightarrow>
      tk_resource_group_id (f t) = tk_resource_group_id t \<and>
      (tk_resource_group_id t = i \<longrightarrow> tk_deadline (f t) = None \<and> tk_state (f t) \<noteq> Running)"
  shows "starved (task_upd j f s) i"
proof (rule starved_step [OF assms(1)])
  fix t' assume t': "t' \<in> set (sc_tasks (task_upd j f s))" "tk_resource_group_id t' = i"
  from task_upd_in [OF t'(1)] show "tk_deadline t' = None \<and> tk_state t' \<noteq> Running"
  proof (elim disjE bexE conjE)
    assume "t' \<in> set (sc_tasks s)"
    with assms(1) t' show ?thesis by (simp add: starved_def)
  next
    fix v assume "v \<in> set (sc_tasks s)" "tk_id v = j" "t' = f v"
    with assms(2) [of v] t' show ?thesis by auto
  qed
qed simp

lemma starved_rebuild:
  assumes "starved s i" shows "starved (rebuild_runnable_indexes s) i"
proof (rule starved_step [OF assms])
  have "map quota_key (fst (index_task t p)) = map quota_key (fst p)" for t p
    by (auto simp: index_task_def case_prod_unfold map_upd_first_core quota_key_def)
  then have "map quota_key (fst (fold index_task ts p)) = map quota_key (fst p)" for ts p
    by (induction ts arbitrary: p) simp_all
  then show "map quota_key (sc_groups (rebuild_runnable_indexes s)) = map quota_key (sc_groups s)"
    by (simp add: rebuild_runnable_indexes_def case_prod_unfold Let_def) (simp add: quota_key_def)
qed (use assms in \<open>auto simp: starved_def\<close>)

lemma starved_no_quota: "starved s i \<Longrightarrow> \<not> group_has_quota s i"
  by (auto simp: starved_def group_has_quota_def)

lemma starved_replenish:
  assumes "starved s i" shows "starved (replenish s) i"
  by (rule starved_step [OF assms])
    (use assms in \<open>auto simp: replenish_def starved_def refill_task_def split: if_splits\<close>)

lemma starved_schedule_next:
  assumes st: "starved s i" and d: "distinct (map tk_id (sc_tasks s))"
  shows "starved (fst (schedule_next_on_cpu s cpu)) i"
proof -
  let ?r = "replenish s"
  obtain s1 nx where e: "select_next ?r cpu = (s1, nx)" by fastforce
  note st1 = starved_replenish [OF st]
  obtain cu where s1: "s1 = ?r\<lparr> sc_fair_task_cursors := cu \<rparr>" using select_next_in(1) [OF e] by blast
  have dr: "distinct (map tk_id (sc_tasks ?r))" using d by (simp add: replenish_def comp_def)
  have cu: "starved (x\<lparr> sc_fair_task_cursors := c \<rparr>) i" if "starved x i" for x c
    using that by (simp add: starved_def)
  have cur: "starved (set_cur x c v) i" if "starved x i" for x c v
    using that by (simp add: starved_def)
  have st2: "starved (set_cur s1 cpu nx) i" unfolding s1 by (intro cur cu st1)
  have "tk_resource_group_id t \<noteq> i" if nx: "nx = Some k" and t: "t \<in> set (sc_tasks ?r)" "tk_id t = k" for t k
  proof (cases "next_deadline_ready ?r cpu")
    case (Some k')
    with e nx have "next_deadline_ready ?r cpu = Some k" by (auto simp: select_next_def)
    then obtain u dd where "u \<in> set (sc_tasks ?r)" "tk_id u = k" "tk_deadline u = Some dd"
      by (rule next_deadline_ready_in)
    moreover from this t dr have "u = t" by (auto intro: distinct_key_eq)
    ultimately show ?thesis using st1 by (auto simp: starved_def)
  next
    case None
    with e nx have "next_fair_ready ?r cpu = (s1, Some k)" by (simp add: select_next_def)
    with next_fair_ready_spec [of ?r cpu] obtain g kk where g: "fair_group_eligible ?r cpu g"
      "rr_first ?r cpu (rg_id g) (rr_start ?r (find_cursor ?r (rg_id g) cpu)) kk"
      "k = tk_id (rr_task ?r (rr_start ?r (find_cursor ?r (rg_id g) cpu)) kk)" by (auto simp: Let_def)
    let ?u = "rr_task ?r (rr_start ?r (find_cursor ?r (rg_id g) cpu)) kk"
    have "?u \<in> set (sc_tasks ?r)" using g(2) by (intro rr_task_in) (auto simp: rr_first_def)
    with g(3) t dr have "?u = t" by (auto intro: distinct_key_eq)
    moreover have "rg_id g \<noteq> i" using g(1) starved_no_quota [OF st1] by (auto simp: fair_group_eligible_def)
    ultimately show ?thesis using g(2) by (auto simp: rr_first_def fair_dispatchable_def)
  qed
  then have "starved (task_upd k (start_running now cpu) (set_cur s1 cpu nx)) i" if "nx = Some k" for k now
    using that by (intro starved_upd [OF st2]) (auto simp: s1 start_running_def)
  with st2 e show ?thesis by (auto simp: schedule_next_on_cpu_def Let_def split: option.split)
qed


lemma starved_fill_idle:
  assumes "starved s i" and "distinct (map tk_id (sc_tasks s))"
  shows "starved (fill_idle s) i"
  unfolding fill_idle_def
  by (rule conjunct1 [OF fold_invariant [where P = "\<lambda>s'. starved s' i \<and> map tk_id (sc_tasks s') = map tk_id (sc_tasks s)"]])
    (use assms in \<open>auto simp: fill_cpu_def starved_schedule_next schedule_next_ids\<close>)

lemma starved_wake_all:
  assumes "starved s i" and "sched_inv s"
  shows "starved (fst (wake_all ids s)) i"
  unfolding wake_all_eq
proof (rule conjunct1 [OF fold_invariant [where P = "\<lambda>s'. starved s' i \<and> sched_inv s'"]])
  fix j s' assume s': "starved s' i \<and> sched_inv s'"
  have "starved (task_upd j wake_record s') i"
    using s' by (intro starved_upd) (auto simp: wake_record_def starved_def)
  then have "starved (fill_idle (rebuild_runnable_indexes (task_upd j wake_record s'))) i"
    using sched_invD(5) [of s'] s'
    by (intro starved_fill_idle starved_rebuild) (auto simp: task_upd_def map_upd_first)
  then have "starved (fst (wake_task s' j)) i"
    using s' by (simp add: wake_task_def split: option.split)
  then show "starved (fst (wake_task s' j)) i \<and> sched_inv (fst (wake_task s' j))"
    using s' sched_inv_wake_task by blast
qed (use assms in simp)

lemma starved_account:
  assumes "starved s i" shows "starved (account_runtime now s) i"
proof -
  have rt: "starved (x\<lparr> sc_runtime := r \<rparr>) i" if "starved x i" for x r
    using that by (simp add: starved_def)
  have u: "starved (task_upd k (charge_budget b) x) i" if "starved x i" for x k b
    by (rule starved_upd [OF that]) (use that in \<open>auto simp: charge_budget_def starved_def\<close>)
  have c: "starved (account_cpu e b c x) i" if "starved x i" for x e b c
    using that by (auto simp: account_cpu_def intro!: u rt split: option.split)
  have "starved (fold (account_cpu e b) xs x) i" if "starved x i" for x e b xs
    using that by (induction xs arbitrary: x) (auto intro: c)
  with assms rt show ?thesis by (simp add: account_runtime_def Let_def)
qed

text \<open>A charge to another group leaves a leaf group's quota alone.\<close>

lemma group_tick_other:
  assumes "\<forall>g\<in>set gs. rg_parent_id g \<noteq> Some i" and "a \<noteq> Some i"
  shows "(\<exists>g. find_group (add_group_tick_loop n now fair el a gs) i = Some g \<and> quota_exhausted g) =
    (\<exists>g. find_group gs i = Some g \<and> quota_exhausted g)"
  using assms
proof (induction n now fair el a gs rule: add_group_tick_loop.induct)
  case (3 n now fair el j gs)
  show ?case
  proof (cases "find_group gs j")
    case (Some g)
    let ?gs = "upd_first (\<lambda>g. rg_id g = j) (charge_group now fair el) gs"
    have "rg_parent_id g \<noteq> Some i" using 3(2) Some by (auto simp: find_group_def dest: find_Some_in)
    moreover have "\<forall>g\<in>set ?gs. rg_parent_id g \<noteq> Some i"
      using 3(2) by (auto simp: charge_group_def Let_def dest!: in_set_upd_first split: if_splits)
    moreover have "find_group ?gs i = find_group gs i"
    proof -
      have "List.find (\<lambda>g. rg_id g = i) (upd_first (\<lambda>g. rg_id g = j) f xs) = List.find (\<lambda>g. rg_id g = i) xs"
        if "\<And>g. rg_id (f g) = rg_id g" for f and xs :: "resource_group list"
        using that 3(3) by (induction xs) auto
      from this [of "charge_group now fair el" gs] show ?thesis
        by (simp add: find_group_def charge_group_def Let_def)
    qed
    ultimately show ?thesis using 3(1) [OF Some] Some by simp
  qed simp
qed simp_all

lemma starved_group_tick:
  assumes st: "starved s i" and "j \<noteq> i"
  shows "starved (add_group_tick_if_present (Some (j, fair)) el s) i"
proof -
  have "starved (add_group_tick j fair el s) i"
  proof -
    let ?gs = "add_group_tick_loop (Suc (length (sc_groups s))) (sc_now_ns s) fair el (Some j) (sc_groups s)"
    have "rg_parent_id ` set ?gs = rg_parent_id ` set (sc_groups s)"
      using arg_cong [OF add_group_tick_loop_core [of "Suc (length (sc_groups s))" "sc_now_ns s" fair el
          "Some j" "sc_groups s"], of "\<lambda>xs. set (map (\<lambda>x. fst (snd x)) xs)"]
      by (simp add: group_core_def image_image del: add_group_tick_loop.simps add_group_tick_loop_core)
    then have "(\<forall>g\<in>set ?gs. rg_parent_id g \<noteq> Some i) = (\<forall>g\<in>set (sc_groups s). rg_parent_id g \<noteq> Some i)"
      by (metis (no_types, lifting) imageE imageI)
    with st group_tick_other [of "sc_groups s" i "Some j"] assms(2) show ?thesis
      by (simp add: starved_def add_group_tick_def del: add_group_tick_loop.simps)
  qed
  moreover have "starved (clamp_runnable_group_lag x) i" if "starved x i" for x
    by (rule starved_step [OF that])
      (use that in \<open>auto simp: clamp_runnable_group_lag_def Let_def quota_key_def starved_def split: option.splits\<close>)
  ultimately show ?thesis by (cases fair) (simp_all add: add_group_tick_if_present_def Let_def)
qed

lemma starved_tick:
  assumes st: "starved s i" and inv: "sched_inv s"
  shows "starved (fst (tick_at_on_cpu s cpu now)) i"
proof (cases "ensure_cpu_id s cpu \<and> \<not> now < sc_now_ns s")
  case True
  define s2 where "s2 = (account_runtime now s)\<lparr> sc_now_ns := now,
      sc_total_ticks := sat_add (sc_total_ticks (account_runtime now s)) 1 \<rparr>"
  define s3 where "s3 = fst (wake_expired_deadlines s2)"
  have i2: "sched_inv s2" unfolding s2_def by (intro sched_inv_clock sched_inv_account inv)
  have "starved s2 i" using starved_account [OF st, of now] by (simp add: s2_def starved_def)
  then have st3: "starved s3 i" and i3: "sched_inv s3"
    unfolding s3_def wake_expired_deadlines_def using i2 by (auto intro: starved_wake_all sched_inv_wake_all)
  note d3 = sched_invD(5) [OF i3]
  have resch: "starved (fst (tick_reschedule p c x)) i" if "starved x i" "distinct (map tk_id (sc_tasks x))" for p c x
    using starved_schedule_next [OF that] by (simp add: tick_reschedule_def case_prod_unfold Let_def)
  note simps = tick_at_on_cpu_def Let_def s2_def [symmetric] s3_def [symmetric]
  show ?thesis
  proof (cases "cur s3 cpu")
    case None
    with True resch [OF st3 d3] show ?thesis by (simp add: simps)
  next
    case (Some k)
    from task_of_slot [OF sched_invD(2) [OF i3] Some] obtain t where
      t: "task_of s3 k = Some t" "t \<in> set (sc_tasks s3)" "tk_id t = k" "tk_state t = Running" by blast
    have g: "tk_resource_group_id t \<noteq> i" using st3 t by (auto simp: starved_def)
    have same: "u = t" if "u \<in> set (sc_tasks s3)" "tk_id u = k" for u
      using that t d3 by (auto intro: distinct_key_eq)
    have s4: "starved (task_upd k (tick_record now) s3) i"
      using same g by (intro starved_upd [OF st3]) auto
    have s5: "starved (task_upd k preempt_record (task_upd k (tick_record now) s3)) i"
    proof (rule starved_upd [OF s4])
      fix u assume "u \<in> set (sc_tasks (task_upd k (tick_record now) s3))" "tk_id u = k"
      with task_upd_in [of u k "tick_record now" s3] same have "u = t \<or> u = tick_record now t" by blast
      with g show "tk_resource_group_id (preempt_record u) = tk_resource_group_id u \<and>
        (tk_resource_group_id u = i \<longrightarrow> tk_deadline (preempt_record u) = None \<and>
         tk_state (preempt_record u) \<noteq> Running)" by (auto simp: preempt_record_def)
    qed
    have d5: "distinct (map tk_id (sc_tasks (task_upd k preempt_record (task_upd k (tick_record now) s3))))"
      using d3 by (simp add: task_upd_def map_upd_first)
    from True Some t g s4 s5 d5 show ?thesis
      by (auto simp: simps intro!: resch starved_group_tick)
  qed
qed (use st in \<open>auto simp: tick_at_on_cpu_def\<close>)

text \<open>
  C14. A leaf group that has exhausted its CPU quota and has no running and no
  deadline task stays that way under any sequence of timer ticks on any CPUs
  at any times: the quota window, which is meant to last 100 ms, is reset only
  when the group is charged, and it is never charged because it may not run.
\<close>

theorem quota_never_replenished:
  assumes "starved s i" and "sched_inv s"
  shows "let s' = fold (\<lambda>(cpu, now) s. fst (tick_at_on_cpu s cpu now)) ticks s
    in \<not> group_has_quota s' i \<and>
       (\<forall>t\<in>set (sc_tasks s'). tk_resource_group_id t = i \<longrightarrow> tk_state t \<noteq> Running)"
proof -
  have "starved (fold (\<lambda>(cpu, now) s. fst (tick_at_on_cpu s cpu now)) ticks s) i \<and>
      sched_inv (fold (\<lambda>(cpu, now) s. fst (tick_at_on_cpu s cpu now)) ticks s)"
    by (rule fold_invariant) (use assms in \<open>auto intro: starved_tick sched_inv_tick split: prod.splits\<close>)
  then show ?thesis using starved_no_quota by (auto simp: Let_def starved_def)
qed


text \<open>One idle CPU, and a ready task of a group that may use 0.1 percent and has used 4 ms.\<close>

definition demo_starved :: scheduler where
  "demo_starved = scheduler_empty\<lparr>
     sc_tasks := [(demo_task 1 5 9)\<lparr> tk_cpu_affinity_mask := 1 \<rparr>],
     sc_runtime := accounting_new\<lparr> ac_threads := [(1, 7, 0)] \<rparr>,
     sc_groups := [(demo_group 5 0)\<lparr> rg_max_utilization_permille := 1, rg_quota_used_ns := 4000000 \<rparr>],
     sc_fair_task_cursors := [(5, 0, None)],
     sc_current_task_ids := [None] \<rparr>"

lemmas demo_task_eval = demo_task_def scheduler_task_new_def MAX_TASK_NAME_def

lemma demo_starved_inv: "sched_inv demo_starved"
  by (simp add: sched_inv_def cpus_ok_def MAX_CPUS_def demo_starved_def placed_def slots_unique_def
      static_inv_def task_ok_def demo_task_eval cpu_mask_def groups_ok_def group_ok_def groups_acyclic_def
      find_group_def demo_group_def threads_ok_def thread_keys_def accounting_new_def cursors_ok_def
      cursor_keys_def admission_ok_def admitted_utilization_def task_utilization_def runnable_ok_def
      runnable_count_def runnable_def scheduler_empty_def FAIR_PRIORITY_WORDS_def)

lemma demo_starved_starved: "starved demo_starved 5"
  by (simp add: starved_def demo_starved_def find_group_def demo_group_def quota_exhausted_def
      quota_budget_def sat_mul_def CPU_QUOTA_WINDOW_NS_def demo_task_eval scheduler_empty_def)

theorem quota_never_replenished_witness:
  "\<not> group_has_quota (fold (\<lambda>(cpu, now) s. fst (tick_at_on_cpu s cpu now))
      [(0, 100000000), (0, 200000000), (0, 86400000000000)] demo_starved) 5"
  using quota_never_replenished [OF demo_starved_starved demo_starved_inv,
      of "[(0, 100000000), (0, 200000000), (0, 86400000000000)]"]
  unfolding Let_def by (rule conjunct1)

end
