(* ===== verification/Sched_Behave.thy ===== *)
theory Sched_Behave
  imports Sched_Policy
begin

text \<open>
  What the scheduler promises to the rest of the kernel: timed waits end at the
  first tick after their deadline, a process that is quiesced or stopped leaves
  every CPU and comes back as it was, and execution times never decrease.
\<close>

section \<open>What choosing a task leaves alone\<close>

text \<open>A task up to the difference between ready and running.\<close>

definition rest_key :: "scheduler_task \<Rightarrow> u64 \<times> u64 \<times> block_reason option \<times> task_state" where
  "rest_key t = (tk_id t, tk_process_id t, tk_block_reason t, if runnable t then Ready else tk_state t)"

lemma rest_key_refill [simp]: "rest_key (refill_task now t) = rest_key t"
  by (simp add: rest_key_def refill_task_def runnable_def)

lemma rest_key_upd:
  assumes "\<And>t. t \<in> set (sc_tasks s) \<Longrightarrow> tk_id t = i \<Longrightarrow> rest_key (f t) = rest_key t"
  shows "map rest_key (sc_tasks (task_upd i f s)) = map rest_key (sc_tasks s)"
  using assms by (simp add: task_upd_def map_upd_first_key)

lemma rest_key_schedule_next:
  assumes d: "distinct (map tk_id (sc_tasks s))"
  shows "map rest_key (sc_tasks (fst (schedule_next_on_cpu s cpu))) = map rest_key (sc_tasks s)"
proof -
  obtain s' r where e: "schedule_next_on_cpu s cpu = (s', r)" by fastforce
  have r: "map rest_key (sc_tasks (replenish s)) = map rest_key (sc_tasks s)" by (simp add: replenish_def)
  from e have "map rest_key (sc_tasks s') = map rest_key (sc_tasks s)"
  proof (cases rule: schedule_next_cases)
    case idle
    with r show ?thesis by simp
  next
    case (run cursors i t)
    have "distinct (map tk_id (sc_tasks (replenish s)))" using d by (simp add: replenish_def comp_def)
    with run have "tk_state u = Ready" if "u \<in> set (sc_tasks (replenish s))" "tk_id u = i" for u
      using distinct_key_eq that by (metis dispatchable_def)
    then have "map rest_key (sc_tasks s') = map rest_key (sc_tasks (replenish s))"
      unfolding run(2) by (subst rest_key_upd) (auto simp: rest_key_def runnable_def start_running_def)
    with r show ?thesis by simp
  qed
  with e show ?thesis by simp
qed

lemma rest_key_fill_idle:
  assumes d: "distinct (map tk_id (sc_tasks s))"
  shows "map rest_key (sc_tasks (fill_idle s)) = map rest_key (sc_tasks s)"
proof -
  have "map rest_key (sc_tasks (fold fill_cpu xs s)) = map rest_key (sc_tasks s) \<and>
      map tk_id (sc_tasks (fold fill_cpu xs s)) = map tk_id (sc_tasks s)" for xs
    by (rule fold_invariant) (use d in \<open>auto simp: fill_cpu_def rest_key_schedule_next schedule_next_ids\<close>)
  then show ?thesis by (simp add: fill_idle_def)
qed

section \<open>Timed waits end\<close>

definition overdue :: "u64 \<Rightarrow> u64 \<times> u64 \<times> block_reason option \<times> task_state \<Rightarrow> bool" where
  "overdue now k \<longleftrightarrow> (case k of (_, _, r, st) \<Rightarrow>
     st \<in> {Blocked, Suspended, Quiesced, Stopped} \<and>
     (case r of Some (SleepUntil d) \<Rightarrow> d \<le> now | Some (WaitMany _ _ d) \<Rightarrow> d \<le> now
      | Some (FutexUntil _ d) \<Rightarrow> d \<le> now | _ \<Rightarrow> False))"

lemma overdue_task:
  "overdue now (rest_key t) \<longleftrightarrow>
     tk_state t \<in> {Blocked, Suspended, Quiesced, Stopped} \<and> wait_expired now t"
  by (auto simp: overdue_def rest_key_def runnable_def wait_expired_def wait_deadline_def
      split: option.split block_reason.split)

lemma wake_record_not_overdue: "\<not> overdue now (rest_key (wake_record t))"
  by (auto simp: overdue_task wake_record_def wait_expired_def wait_deadline_def)

text \<open>Waking a list of tasks leaves no other overdue tasks than before, and none of the list.\<close>

lemma wake_task_overdue:
  assumes inv: "sched_inv s" and t: "t \<in> set (sc_tasks (fst (wake_task s i)))" "overdue now (rest_key t)"
  shows "tk_id t \<noteq> i \<and> (\<exists>u\<in>set (sc_tasks s). tk_id u = tk_id t \<and> overdue now (rest_key u))"
proof (cases "task_of s i")
  case None
  with t have "t \<in> set (sc_tasks s)" by (simp add: wake_task_def)
  moreover from this None have "tk_id t \<noteq> i" by (auto simp: task_of_def find_None_iff)
  ultimately show ?thesis using t(2) by blast
next
  case (Some w)
  note d = sched_invD(5) [OF inv]
  let ?s1 = "task_upd i wake_record s"
  have d1: "distinct (map tk_id (sc_tasks (rebuild_runnable_indexes ?s1)))"
    using d by (simp add: task_upd_def map_upd_first)
  have "rest_key t \<in> set (map rest_key (sc_tasks (fill_idle (rebuild_runnable_indexes ?s1))))"
    using t(1) Some by (simp add: wake_task_def)
  then have "rest_key t \<in> set (map rest_key (sc_tasks ?s1))"
    unfolding rest_key_fill_idle [OF d1] by simp
  then obtain u where u: "u \<in> set (sc_tasks ?s1)" "rest_key u = rest_key t" by auto
  then obtain v where v: "v \<in> set (sc_tasks s)" "u = (if tk_id v = i then wake_record v else v)"
    using d by (auto simp: task_upd_map)
  with u t(2) wake_record_not_overdue have "tk_id v \<noteq> i" by metis
  with u v t(2) show ?thesis by (auto simp: rest_key_def)
qed

lemma wake_all_overdue:
  assumes inv: "sched_inv s" and start: "\<And>u. u \<in> set (sc_tasks s) \<Longrightarrow> overdue now (rest_key u) \<Longrightarrow> tk_id u \<in> set ids"
    and t: "t \<in> set (sc_tasks (fst (wake_all ids s)))"
  shows "\<not> overdue now (rest_key t)"
  using assms unfolding wake_all_eq
proof (induction ids arbitrary: s)
  case (Cons i ids)
  have "sched_inv (fst (wake_task s i))" using Cons.prems(1) by (rule sched_inv_wake_task)
  moreover have "tk_id u \<in> set ids" if "u \<in> set (sc_tasks (fst (wake_task s i)))" "overdue now (rest_key u)" for u
    using wake_task_overdue [OF Cons.prems(1) that] Cons.prems(2) by force
  ultimately show ?case using Cons.IH Cons.prems(3) by simp
qed auto

text \<open>
  C9. After a timer tick at time \<open>now\<close> that the scheduler accepts, no task is
  still blocked, suspended, quiesced or stopped on a sleep, wait-many or timed
  futex whose deadline has passed.
\<close>

theorem tick_ends_expired_waits:
  assumes inv: "sched_inv s" and ok: "tick_at_on_cpu s cpu now = (s', Inr d)" and t: "t \<in> set (sc_tasks s')"
  shows "\<not> (tk_state t \<in> {Blocked, Suspended, Quiesced, Stopped} \<and> wait_expired now t)"
proof -
  define s2 where "s2 = (account_runtime now s)\<lparr> sc_now_ns := now,
      sc_total_ticks := sat_add (sc_total_ticks (account_runtime now s)) 1 \<rparr>"
  define s3 where "s3 = fst (wake_expired_deadlines s2)"
  have i2: "sched_inv s2" unfolding s2_def by (intro sched_inv_clock sched_inv_account inv)
  have now2: "sc_now_ns s2 = now" by (simp add: s2_def)
  have due3: "\<not> overdue now (rest_key u)" if "u \<in> set (sc_tasks s3)" for u
    by (rule wake_all_overdue [OF i2 _ that [unfolded s3_def wake_expired_deadlines_def now2]])
      (auto simp: overdue_task)
  have i3: "sched_inv s3"
    unfolding s3_def wake_expired_deadlines_def using i2 by (rule sched_inv_wake_all)
  note d3 = sched_invD(5) [OF i3]
  have k4: "map rest_key (sc_tasks (task_upd i (tick_record now) s3)) = map rest_key (sc_tasks s3)" for i
    by (rule rest_key_upd)
      (simp add: rest_key_def runnable_def tick_record_def Let_def split: option.split)
  have k5: "map rest_key (sc_tasks (task_upd i preempt_record (task_upd i (tick_record now) s3))) =
      map rest_key (sc_tasks s3)" for i
    using k4 by (subst rest_key_upd) (auto simp: rest_key_def runnable_def preempt_record_def)
  have d5: "distinct (map tk_id (sc_tasks (task_upd i preempt_record (task_upd i (tick_record now) s3))))" for i
    using d3 by (simp add: task_upd_def map_upd_first)
  have resch: "map rest_key (sc_tasks (fst (tick_reschedule p c x))) = map rest_key (sc_tasks x)"
    if "distinct (map tk_id (sc_tasks x))" for p c x
    using rest_key_schedule_next [OF that] by (simp add: tick_reschedule_def case_prod_unfold Let_def)
  have "map rest_key (sc_tasks s') = map rest_key (sc_tasks s3)"
    using ok k4 k5 resch [of s3] d3 resch d5
    by (auto simp: tick_at_on_cpu_def Let_def s2_def [symmetric] s3_def [symmetric]
        split: if_splits option.splits dest!: arg_cong [where f = fst] simp del: map_map)
  then have "rest_key t \<in> set (map rest_key (sc_tasks s3))" using t by (metis image_eqI set_map)
  with due3 have "\<not> overdue now (rest_key t)" by auto
  then show ?thesis by (simp add: overdue_task)
qed


definition demo_sleeper :: scheduler where
  "demo_sleeper = scheduler_empty\<lparr>
     sc_tasks := [(demo_task 1 5 9)\<lparr> tk_cpu_affinity_mask := 1, tk_state := Blocked,
                                     tk_block_reason := Some (SleepUntil 10) \<rparr>],
     sc_runtime := accounting_new\<lparr> ac_threads := [(1, 7, 0)] \<rparr>,
     sc_groups := [(demo_group 5 0)\<lparr> rg_runnable_tasks := 0 \<rparr>],
     sc_fair_task_cursors := [(5, 0, None)],
     sc_current_task_ids := [None] \<rparr>"

lemmas demo_state_eval = demo_task_def scheduler_task_new_def MAX_TASK_NAME_def demo_group_def
  scheduler_empty_def accounting_new_def

lemmas sched_inv_eval = sched_inv_def cpus_ok_def MAX_CPUS_def placed_def slots_unique_def
  static_inv_def task_ok_def cpu_mask_def groups_ok_def group_ok_def groups_acyclic_def find_group_def
  threads_ok_def thread_keys_def cursors_ok_def cursor_keys_def admission_ok_def
  admitted_utilization_def task_utilization_def runnable_ok_def runnable_count_def runnable_def
  FAIR_PRIORITY_WORDS_def block_ok_def

lemma demo_sleeper_inv: "sched_inv demo_sleeper"
  by (simp add: demo_sleeper_def demo_state_eval sched_inv_eval)

lemma tick_ok: "ensure_cpu_id s cpu \<Longrightarrow> sc_now_ns s \<le> now \<Longrightarrow> \<exists>s' d. tick_at_on_cpu s cpu now = (s', Inr d)"
  by (auto simp: tick_at_on_cpu_def Let_def tick_reschedule_def case_prod_unfold not_less split: option.split)

theorem tick_ends_expired_waits_witness:
  "tk_state (hd (sc_tasks demo_sleeper)) = Blocked \<and> wait_expired 10 (hd (sc_tasks demo_sleeper)) \<and>
   (\<exists>t. t \<in> set (sc_tasks (fst (tick_at_on_cpu demo_sleeper 0 10))) \<and> tk_id t = 1 \<and>
     \<not> (tk_state t \<in> {Blocked, Suspended, Quiesced, Stopped} \<and> wait_expired 10 t))"
proof -
  obtain s' d where ok: "tick_at_on_cpu demo_sleeper 0 10 = (s', Inr d)"
    using tick_ok [of demo_sleeper 0 10] by (auto simp: ensure_cpu_id_def demo_sleeper_def scheduler_empty_def)
  have "map tk_id (sc_tasks s') = map tk_id (sc_tasks demo_sleeper)"
    using evolves_ids [OF evolves_tick [OF sched_invD(1,5) [OF demo_sleeper_inv], of 0 10]] ok
    by simp
  then obtain t where t: "t \<in> set (sc_tasks s')" "tk_id t = 1"
    by (auto simp: demo_sleeper_def demo_state_eval)
  have "tk_state (hd (sc_tasks demo_sleeper)) = Blocked" "wait_expired 10 (hd (sc_tasks demo_sleeper))"
    by (simp_all add: demo_sleeper_def wait_expired_def wait_deadline_def)
  with tick_ends_expired_waits [OF demo_sleeper_inv ok t(1)] t ok show ?thesis by auto
qed

section \<open>Holding a process\<close>

lemma hold_tasks:
  assumes d: "distinct (map tk_id (sc_tasks s))"
  shows "map rest_key (sc_tasks (hold_process held frm s p)) =
    map rest_key (map (hold_record held frm p) (sc_tasks s))"
proof -
  let ?s1 = "s\<lparr> sc_tasks := map (hold_record held frm p) (sc_tasks s) \<rparr>"
  have loop: "fold (vacate_state held) [0..<length (sc_current_task_ids ?s1)] ?s1 = ?s1\<lparr> sc_current_task_ids :=
      map (drop_held (sc_tasks ?s1) held) (sc_current_task_ids ?s1) \<rparr>" by (rule fold_vacate_state)
  have "distinct (map tk_id (sc_tasks (rebuild_runnable_indexes
      (fold (vacate_state held) [0..<length (sc_current_task_ids ?s1)] ?s1))))"
    unfolding loop using d by (simp add: comp_def)
  from rest_key_fill_idle [OF this] show ?thesis
    unfolding hold_process_def Let_def loop by simp
qed

lemma release_tasks:
  assumes d: "distinct (map tk_id (sc_tasks s))"
  shows "map rest_key (sc_tasks (release_process held s p)) =
    map rest_key (map (release_record held p) (sc_tasks s))"
  unfolding release_process_def using d by (subst rest_key_fill_idle) (simp_all add: comp_def)

text \<open>The states that \<open>quiesce_process\<close> and \<open>stop_process\<close> end.\<close>

definition hold_ends :: "task_state \<Rightarrow> task_state list \<Rightarrow> bool" where
  "hold_ends held frm \<longleftrightarrow> held \<notin> set frm \<and> Ready \<in> set frm \<and> Running \<in> set frm \<and> Exited \<notin> set frm"

lemma hold_ends_cases [simp]:
  "hold_ends Quiesced [Ready, Running, Blocked]"
  "hold_ends Stopped [Ready, Running, Blocked, Suspended]"
  by (simp_all add: hold_ends_def)

lemma rest_key_hold:
  assumes "hold_ends held frm" and "rest_key t = rest_key (hold_record held frm p u)"
  shows "tk_process_id t = p \<Longrightarrow> tk_state t \<notin> set frm"
proof (cases "tk_process_id u = p \<and> tk_state u \<in> set frm")
  case True
  with assms show ?thesis by (auto simp: rest_key_def hold_record_def hold_ends_def runnable_def split: if_splits)
next
  case False
  assume "tk_process_id t = p"
  with False assms have "tk_state u \<notin> set frm" by (auto simp: rest_key_def hold_record_def)
  with False assms show ?thesis by (auto simp: rest_key_def hold_record_def hold_ends_def runnable_def split: if_splits)
qed

lemma hold_states:
  assumes inv: "sched_inv s" and h: "hold_ends held frm"
    and t: "t \<in> set (sc_tasks (hold_process held frm s p))" "tk_process_id t = p"
  shows "tk_state t \<notin> set frm"
proof -
  from t(1) have "rest_key t \<in> set (map rest_key (sc_tasks (hold_process held frm s p)))" by simp
  then obtain u where "rest_key t = rest_key (hold_record held frm p u)"
    unfolding hold_tasks [OF sched_invD(5) [OF inv]] by auto
  from rest_key_hold [OF h this t(2)] show ?thesis .
qed

lemma hold_current:
  assumes inv: "sched_inv s" and h: "hold_ends held frm"
    and t: "current_on_cpu (hold_process held frm s p) c = Some t"
  shows "tk_process_id t \<noteq> p"
proof -
  let ?s = "hold_process held frm s p"
  have "sched_inv ?s" using h by (intro sched_inv_hold [OF inv]) (auto simp: hold_ends_def)
  note pl = sched_invD(2) [OF this]
  from t obtain i where i: "cur ?s c = Some i" "task_of ?s i = Some t"
    by (auto simp: current_on_cpu_def split: option.splits)
  then have t': "t \<in> set (sc_tasks ?s)" "tk_id t = i" by (auto simp: task_of_def find_Some_iff)
  have "c < length (sc_current_task_ids ?s)"
    using i(1) by (simp add: cur_def split: if_splits)
  with placed_slot_state(1) [OF pl] i t' have "tk_state t = Running" by (simp add: cur_def)
  with hold_states [OF inv h t'(1)] h show ?thesis by (auto simp: hold_ends_def)
qed

text \<open>
  C10. Quiescing a process takes all its tasks off every CPU: none of them is
  ready, running or blocked afterwards and no CPU has one as its current task,
  although the freed CPUs have been given other work. The same holds for
  stopping a process, which also stops its suspended tasks.
\<close>

theorem held_process_is_off_cpu:
  assumes inv: "sched_inv s"
  shows "(\<forall>t\<in>set (sc_tasks (quiesce_process s p)).
        tk_process_id t = p \<longrightarrow> tk_state t \<notin> {Ready, Running, Blocked}) \<and>
     (\<forall>c t. current_on_cpu (quiesce_process s p) c = Some t \<longrightarrow> tk_process_id t \<noteq> p) \<and>
     (\<forall>t\<in>set (sc_tasks (stop_process s p)).
        tk_process_id t = p \<longrightarrow> tk_state t \<notin> {Ready, Running, Blocked, Suspended}) \<and>
     (\<forall>c t. current_on_cpu (stop_process s p) c = Some t \<longrightarrow> tk_process_id t \<noteq> p)"
  unfolding quiesce_process_def stop_process_def
  using hold_states [OF inv hold_ends_cases(1), of _ p] hold_states [OF inv hold_ends_cases(2), of _ p]
    hold_current [OF inv hold_ends_cases(1), of p] hold_current [OF inv hold_ends_cases(2), of p]
  by (intro conjI ballI allI impI) simp_all

theorem held_process_is_off_cpu_witness:
  "\<exists>t. t \<in> set (sc_tasks (quiesce_process demo_sleeper 7)) \<and> tk_process_id t = 7 \<and>
     tk_state t \<notin> {Ready, Running, Blocked}"
proof -
  have "map rest_key (sc_tasks (quiesce_process demo_sleeper 7)) =
      map rest_key (map (hold_record Quiesced [Ready, Running, Blocked] 7) (sc_tasks demo_sleeper))"
    unfolding quiesce_process_def by (rule hold_tasks [OF sched_invD(5) [OF demo_sleeper_inv]])
  then obtain t where "t \<in> set (sc_tasks (quiesce_process demo_sleeper 7))" "tk_process_id t = 7"
    by (auto simp: demo_sleeper_def demo_state_eval hold_record_def rest_key_def)
  with held_process_is_off_cpu [OF demo_sleeper_inv, of 7] show ?thesis by blast
qed

text \<open>
  C11. Resuming undoes quiescing: when the tasks of the process were in a
  consistent state (blocked with a reason, or ready or running without one, or
  suspended, stopped or exited), every task of the system is afterwards as it
  was, up to which of the ready tasks occupy the CPUs.
\<close>

theorem quiesce_resume_roundtrip:
  assumes inv: "sched_inv s"
    and ok: "\<And>t. t \<in> set (sc_tasks s) \<Longrightarrow> tk_process_id t = p \<Longrightarrow>
       tk_state t \<noteq> Quiesced \<and> (tk_state t \<in> {Ready, Running} \<longrightarrow> tk_block_reason t = None) \<and>
       (tk_state t = Blocked \<longrightarrow> tk_block_reason t \<noteq> None)"
  shows "map rest_key (sc_tasks (resume_quiesced_process (quiesce_process s p) p)) =
    map rest_key (sc_tasks s)"
proof -
  let ?h = "quiesce_process s p"
  have "distinct (map tk_id (sc_tasks ?h))"
    unfolding quiesce_process_def using sched_inv_hold [OF inv] sched_invD(5) by simp
  then have "map rest_key (sc_tasks (resume_quiesced_process ?h p)) =
      map (\<lambda>t. rest_key (release_record Quiesced p t)) (sc_tasks ?h)"
    unfolding resume_quiesced_process_def by (simp add: release_tasks)
  also have "\<dots> = map (\<lambda>(i, pr, r, st). (i, pr, r, if pr = p \<and> st = Quiesced
      then (if r \<noteq> None then Blocked else Ready) else st)) (map rest_key (sc_tasks ?h))"
    by (auto simp: rest_key_def release_record_def runnable_def)
  also have "\<dots> = map (\<lambda>(i, pr, r, st). (i, pr, r, if pr = p \<and> st = Quiesced
      then (if r \<noteq> None then Blocked else Ready) else st))
      (map rest_key (map (hold_record Quiesced [Ready, Running, Blocked] p) (sc_tasks s)))"
    unfolding quiesce_process_def hold_tasks [OF sched_invD(5) [OF inv]] ..
  also have "\<dots> = map rest_key (sc_tasks s)"
    using ok by (auto simp: rest_key_def hold_record_def runnable_def)
  finally show ?thesis .
qed

theorem quiesce_resume_roundtrip_witness:
  "map rest_key (sc_tasks (resume_quiesced_process (quiesce_process demo_sleeper 7) 7)) =
   map rest_key (sc_tasks demo_sleeper)"
  by (rule quiesce_resume_roundtrip [OF demo_sleeper_inv]) (auto simp: demo_sleeper_def)

end
