(* ===== verification/Codec.thy ===== *)
theory Codec
  imports Kernel_Prelude
begin

text \<open>
  The snapshot codec (\<open>kernel/core/src/transplant/codec.rs\<close>): the writer into a
  fixed buffer, the reader over a byte slice, and the words, flags, counts and
  optional values both are built from. A byte slice is a list of bytes. A
  fallible call returns the writer or reader it leaves behind only when it
  succeeds: every caller gives up at the first error.

  The locale \<open>codec\<close> states what a pair of a writing and a reading function
  promises about one encoding. The interpretations are the pairs of the code.
\<close>

section \<open>Little-endian words\<close>

definition to_le_bytes :: "'a::len word \<Rightarrow> u8 list" where
  "to_le_bytes w = map (\<lambda>i. ucast (drop_bit (8 * i) w)) [0..<LENGTH('a) div 8]"

primrec from_le_bytes :: "u8 list \<Rightarrow> 'a::len word" where
  "from_le_bytes [] = 0"
| "from_le_bytes (b # bs) = ucast b OR push_bit 8 (from_le_bytes bs)"

lemma length_to_le_bytes [simp]: "length (to_le_bytes (w :: 'a::len word)) = LENGTH('a) div 8"
  by (simp add: to_le_bytes_def)

lemma bit_from_le_bytes_Cons:
  "bit (from_le_bytes (b # bs) :: 'a::len word) n \<longleftrightarrow>
     n < LENGTH('a) \<and> (if n < 8 then bit b n else bit (from_le_bytes bs :: 'a word) (n - 8))"
  by (cases "n < 8") (auto simp: bit_simps dest: bit_imp_le_length)

lemma bit_from_le_bytes:
  "bit (from_le_bytes bs :: 'a::len word) n \<longleftrightarrow>
     n < LENGTH('a) \<and> n div 8 < length bs \<and> bit (bs ! (n div 8)) (n mod 8)"
proof (induction bs arbitrary: n)
  case (Cons b bs)
  show ?case
  proof (cases "n < 8")
    case True
    then show ?thesis unfolding bit_from_le_bytes_Cons by simp
  next
    case False
    then obtain m where m: "n = m + 8" by (metis add.commute le_Suc_ex not_less)
    have "(m + 8) div 8 = Suc (m div 8)" "(m + 8) mod 8 = m mod 8" by simp_all
    then show ?thesis
      unfolding bit_from_le_bytes_Cons m by (auto simp: Cons.IH)
  qed
qed simp

lemma from_to_le_bytes [simp]:
  assumes "8 dvd LENGTH('a)"
  shows "from_le_bytes (to_le_bytes w) = (w :: 'a::len word)"
proof (rule bit_word_eqI)
  fix n assume "n < LENGTH('a)"
  moreover from this assms have "n div 8 < LENGTH('a) div 8" by (auto elim!: dvdE)
  ultimately show "bit (from_le_bytes (to_le_bytes w) :: 'a word) n = bit w n"
    by (simp add: bit_from_le_bytes to_le_bytes_def bit_simps)
qed

lemma to_from_le_bytes:
  assumes "8 dvd LENGTH('a)" and "length bs = LENGTH('a) div 8"
  shows "to_le_bytes (from_le_bytes bs :: 'a::len word) = bs"
proof (rule nth_equalityI)
  fix i assume "i < length (to_le_bytes (from_le_bytes bs :: 'a word))"
  then have i: "i < LENGTH('a) div 8" by simp
  show "to_le_bytes (from_le_bytes bs :: 'a word) ! i = bs ! i"
  proof (rule bit_word_eqI)
    fix n assume "n < LENGTH(8)"
    with i assms show "bit (to_le_bytes (from_le_bytes bs :: 'a word) ! i) n = bit (bs ! i) n"
      by (auto simp: to_le_bytes_def bit_simps bit_from_le_bytes elim!: dvdE)
  qed
qed (use assms in simp)

section \<open>Errors\<close>

text \<open>\<open>TransplantError\<close> of \<open>transplant.rs\<close>.\<close>

datatype transplant_error =
    BadMagic | UnsupportedVersion | ChecksumMismatch | LengthMismatch | PayloadTooLarge
  | WrongSnapshotPhase | RangeOutsidePreservedRam | InvalidTransplantTask | InvalidCapability
  | InvalidCpuContext | InvalidRuntimeSnapshot | InvalidKernelRange | OverlappingKernelRange

section \<open>Writer\<close>

record writer =
  wr_bytes :: "u8 list"
  wr_pos :: nat

definition writer_new :: "u8 list \<Rightarrow> writer" where
  "writer_new bytes = \<lparr> wr_bytes = bytes, wr_pos = 0 \<rparr>"

definition writer_bytes :: "u8 list \<Rightarrow> writer \<Rightarrow> transplant_error + writer" where
  "writer_bytes bytes w =
     (let stop = wr_pos w + length bytes
      in if stop \<le> length (wr_bytes w)
         then Inr (w\<lparr> wr_bytes := take (wr_pos w) (wr_bytes w) @ bytes @ drop stop (wr_bytes w),
                      wr_pos := stop \<rparr>)
         else Inl PayloadTooLarge)"

definition writer_word :: "u64 \<Rightarrow> writer \<Rightarrow> transplant_error + writer" where
  "writer_word word = writer_bytes (to_le_bytes word)"

text \<open>\<open>Writer::text\<close>, on the bytes of the string.\<close>

definition writer_text :: "u8 list \<Rightarrow> writer \<Rightarrow> transplant_error + writer" where
  "writer_text txt w = and_then (writer_word (of_nat (length txt)) w) (writer_bytes txt)"

text \<open>\<open>for value in [...] { w.word(value)?; }\<close>\<close>

primrec writer_each :: "('a \<Rightarrow> writer \<Rightarrow> transplant_error + writer) \<Rightarrow> 'a list \<Rightarrow> writer
    \<Rightarrow> transplant_error + writer" where
  "writer_each f [] w = Inr w"
| "writer_each f (x # xs) w = and_then (f x w) (writer_each f xs)"

definition writer_words :: "u64 list \<Rightarrow> writer \<Rightarrow> transplant_error + writer" where
  "writer_words = writer_each writer_word"

lemma writer_bytes_append:
  assumes "wr_pos w \<le> length (wr_bytes w)"
  shows "and_then (writer_bytes a w) (writer_bytes b) = writer_bytes (a @ b) w"
  using assms by (auto simp: writer_bytes_def Let_def ac_simps)

text \<open>The bytes written so far, and what stays true of a writer in use.\<close>

definition wr_ok :: "writer \<Rightarrow> bool" where
  "wr_ok w \<longleftrightarrow> wr_pos w \<le> length (wr_bytes w)"

definition written :: "writer \<Rightarrow> u8 list" where
  "written w = take (wr_pos w) (wr_bytes w)"

lemma writer_new_ok [simp]: "wr_ok (writer_new bytes)" "written (writer_new bytes) = []"
  by (simp_all add: wr_ok_def written_def writer_new_def)

lemma writer_bytes_Inr:
  "writer_bytes bs w = Inr w' \<Longrightarrow> wr_ok w \<Longrightarrow>
     wr_ok w' \<and> written w' = written w @ bs \<and> length (wr_bytes w') = length (wr_bytes w)"
  by (auto simp: writer_bytes_def wr_ok_def written_def Let_def split: if_splits)

text \<open>A function that writes exactly the bytes \<open>bs\<close>, or reports that they do not fit.\<close>

definition writes :: "u8 list \<Rightarrow> (writer \<Rightarrow> transplant_error + writer) \<Rightarrow> bool" where
  "writes bs f \<longleftrightarrow> (\<forall>w. wr_ok w \<longrightarrow> f w = writer_bytes bs w)"

named_theorems writes_intros \<open>which bytes a writing function writes\<close>

lemma writesD: "writes bs f \<Longrightarrow> wr_ok w \<Longrightarrow> f w = writer_bytes bs w"
  by (simp add: writes_def)

lemma writes_bytes [writes_intros]: "writes bs (writer_bytes bs)"
  by (simp add: writes_def)

lemma writes_word [writes_intros]: "writes (to_le_bytes x) (writer_word x)"
  by (simp add: writes_def writer_word_def)

lemma writes_nil [writes_intros]: "writes [] Inr"
  by (auto simp: writes_def writer_bytes_def wr_ok_def)

lemma writes_then [writes_intros]:
  assumes "writes a f" and "writes b g"
  shows "writes (a @ b) (\<lambda>w. and_then (f w) g)"
  unfolding writes_def
proof (intro allI impI)
  fix w assume w: "wr_ok w"
  have "and_then (f w) g = and_then (writer_bytes a w) (writer_bytes b)"
    using assms w by (auto simp: writes_def intro!: and_then_cong dest: writer_bytes_Inr)
  with w show "and_then (f w) g = writer_bytes (a @ b) w"
    by (simp add: writer_bytes_append wr_ok_def)
qed

lemma writes_each [writes_intros]:
  assumes "\<And>x. x \<in> set xs \<Longrightarrow> writes (enc x) (f x)"
  shows "writes (concat (map enc xs)) (writer_each f xs)"
  using assms
proof (induction xs)
  case (Cons x xs)
  then have "writes (enc x @ concat (map enc xs)) (\<lambda>w. and_then (f x w) (writer_each f xs))"
    by (intro writes_then) auto
  moreover have "writer_each f (x # xs) = (\<lambda>w. and_then (f x w) (writer_each f xs))" by auto
  ultimately show ?case by (simp only: list.map concat.simps)
next
  case Nil
  have "writer_each f [] = Inr" by auto
  with writes_nil show ?case by (simp only: list.map concat.simps)
qed

lemma writes_words [writes_intros]: "writes (concat (map to_le_bytes xs)) (writer_words xs)"
  unfolding writer_words_def by (intro writes_intros)

section \<open>Reader\<close>

record reader =
  rd_bytes :: "u8 list"
  rd_pos :: nat

definition reader_new :: "u8 list \<Rightarrow> reader" where
  "reader_new bytes = \<lparr> rd_bytes = bytes, rd_pos = 0 \<rparr>"

definition finished :: "reader \<Rightarrow> bool" where
  "finished r \<longleftrightarrow> rd_pos r = length (rd_bytes r)"

definition reader_bytes :: "nat \<Rightarrow> reader \<Rightarrow> transplant_error + (u8 list \<times> reader)" where
  "reader_bytes len r =
     (let stop = rd_pos r + len
      in if stop \<le> length (rd_bytes r)
         then Inr (take len (drop (rd_pos r) (rd_bytes r)), r\<lparr> rd_pos := stop \<rparr>)
         else Inl LengthMismatch)"

definition reader_word :: "reader \<Rightarrow> transplant_error + (u64 \<times> reader)" where
  "reader_word r = and_then (reader_bytes 8 r) (\<lambda>(bytes, r). Inr (from_le_bytes bytes, r))"

definition reader_count :: "nat \<Rightarrow> reader \<Rightarrow> transplant_error + (nat \<times> reader)" where
  "reader_count bound r = and_then (reader_word r) (\<lambda>(word, r).
     let value = unat word
     in if value > bound \<or> value > length (rd_bytes r) - rd_pos r then Inl InvalidRuntimeSnapshot
        else Inr (value, r))"

definition reader_index :: "reader \<Rightarrow> transplant_error + (nat \<times> reader)" where
  "reader_index r = and_then (reader_word r) (\<lambda>(word, r). Inr (unat word, r))"

definition reader_flag :: "reader \<Rightarrow> transplant_error + (bool \<times> reader)" where
  "reader_flag r = and_then (reader_word r) (\<lambda>(word, r).
     if word = 0 then Inr (False, r) else if word = 1 then Inr (True, r)
     else Inl InvalidRuntimeSnapshot)"

text \<open>
  \<open>Reader::text\<close>. Whether the bytes are UTF-8 is decided by
  \<open>core::str::from_utf8\<close>, given as a parameter.
\<close>

definition reader_text :: "(u8 list \<Rightarrow> bool) \<Rightarrow> nat \<Rightarrow> reader \<Rightarrow> transplant_error + (u8 list \<times> reader)" where
  "reader_text utf8 bound r = and_then (reader_count bound r) (\<lambda>(len, r).
     and_then (reader_bytes len r) (\<lambda>(bytes, r).
       if utf8 bytes then Inr (bytes, r) else Inl InvalidRuntimeSnapshot))"

text \<open>\<open>for _ in 0..n { ... }\<close> over a reader and the values collected so far.\<close>

fun reader_loop :: "('s \<Rightarrow> reader \<Rightarrow> transplant_error + ('s \<times> reader)) \<Rightarrow> nat \<Rightarrow> 's \<Rightarrow> reader
    \<Rightarrow> transplant_error + ('s \<times> reader)" where
  "reader_loop f 0 s r = Inr (s, r)"
| "reader_loop f (Suc n) s r = and_then (f s r) (\<lambda>(s, r). reader_loop f n s r)"

text \<open>A reader that has consumed \<open>pre\<close> and has \<open>rest\<close> before it.\<close>

definition reader_at :: "u8 list \<Rightarrow> u8 list \<Rightarrow> reader" where
  "reader_at pre rest = \<lparr> rd_bytes = pre @ rest, rd_pos = length pre \<rparr>"

named_theorems read_back \<open>what a reading function returns on an encoding\<close>

lemma reader_at_new: "reader_new bytes = reader_at [] bytes"
  by (simp add: reader_new_def reader_at_def)

lemma finished_at [simp]: "finished (reader_at pre rest) \<longleftrightarrow> rest = []"
  by (simp add: finished_def reader_at_def)

lemma reader_at_cases:
  assumes "rd_pos r \<le> length (rd_bytes r)"
  obtains pre rest where "r = reader_at pre rest"
proof -
  have "r = reader_at (take (rd_pos r) (rd_bytes r)) (drop (rd_pos r) (rd_bytes r))"
    using assms by (simp add: reader_at_def)
  with that show thesis by blast
qed

lemma reader_bytes_at [read_back]:
  "n = length bs \<Longrightarrow> reader_bytes n (reader_at pre (bs @ rest)) = Inr (bs, reader_at (pre @ bs) rest)"
  by (simp add: reader_bytes_def reader_at_def)

lemma reader_bytes_short:
  "length rest < n \<Longrightarrow> reader_bytes n (reader_at pre rest) = Inl LengthMismatch"
  by (simp add: reader_bytes_def reader_at_def)

lemma reader_word_at [read_back]:
  "reader_word (reader_at pre (to_le_bytes x @ rest)) = Inr (x, reader_at (pre @ to_le_bytes x) rest)"
  by (simp add: reader_word_def reader_bytes_at)

lemma reader_index_at [read_back]:
  "reader_index (reader_at pre (to_le_bytes (x :: u64) @ rest)) =
     Inr (unat x, reader_at (pre @ to_le_bytes x) rest)"
  by (simp add: reader_index_def reader_word_at)

lemma reader_flag_at [read_back]:
  "reader_flag (reader_at pre (to_le_bytes (of_bool b :: u64) @ rest)) =
     Inr (b, reader_at (pre @ to_le_bytes (of_bool b :: u64)) rest)"
  by (simp add: reader_flag_def reader_word_at)

lemma reader_count_at [read_back]:
  assumes "n \<le> bound" and "n \<le> length rest" and "n < 2 ^ 64"
  shows "reader_count bound (reader_at pre (to_le_bytes (of_nat n :: u64) @ rest)) =
     Inr (n, reader_at (pre @ to_le_bytes (of_nat n :: u64)) rest)"
proof -
  have "unat (of_nat n :: u64) = n" using assms(3) by (simp add: unsigned_of_nat take_bit_nat_eq_self)
  with assms show ?thesis
    by (simp add: reader_count_def reader_word_at Let_def) (simp add: reader_at_def)
qed

text \<open>A successful read consumes the input from the front.\<close>

lemma reader_bytes_Inr:
  assumes "reader_bytes n (reader_at pre rest) = Inr (bs, r)"
  obtains rest' where "rest = bs @ rest'" "r = reader_at (pre @ bs) rest'" "length bs = n"
proof -
  from assms have "n \<le> length rest" by (auto simp: reader_bytes_def reader_at_def Let_def split: if_splits)
  then have "rest = take n rest @ drop n rest" "length (take n rest) = n" by simp_all
  with assms that [of "drop n rest"] reader_bytes_at [of n "take n rest" pre "drop n rest"]
  show thesis by auto
qed

lemma reader_word_Inr:
  assumes "reader_word (reader_at pre rest) = Inr (x, r)"
  obtains rest' where "rest = to_le_bytes x @ rest'" "r = reader_at (pre @ to_le_bytes x) rest'"
proof -
  from assms obtain bs where "reader_bytes 8 (reader_at pre rest) = Inr (bs, r)" "x = from_le_bytes bs"
    by (auto simp: reader_word_def and_then_Inr)
  with that show thesis
    by (elim reader_bytes_Inr) (simp add: to_from_le_bytes)
qed

section \<open>The codec contract\<close>

text \<open>
  \<open>wr\<close> writes the encoding \<open>enc x\<close> of a value, and \<open>rd\<close> reads the value back
  from the front of any input that starts with it, and stops right behind it.
  \<open>dom\<close> are the values the pair is used on.
\<close>

locale codec =
  fixes enc :: "'a \<Rightarrow> u8 list"
    and wr :: "'a \<Rightarrow> writer \<Rightarrow> transplant_error + writer"
    and rd :: "reader \<Rightarrow> transplant_error + ('a \<times> reader)"
    and dom :: "'a \<Rightarrow> bool"
  assumes wr_enc: "dom x \<Longrightarrow> writes (enc x) (wr x)"
    and rd_enc: "dom x \<Longrightarrow> rd (reader_at pre (enc x @ rest)) = Inr (x, reader_at (pre @ enc x) rest)"
begin

lemma write_read:
  assumes "dom x" and "wr x (writer_new buffer) = Inr w"
  shows "written w = enc x \<and> rd (reader_new (written w)) = Inr (x, reader_at (written w) [])"
proof -
  have "writer_bytes (enc x) (writer_new buffer) = Inr w"
    using assms writesD [OF wr_enc] by fastforce
  from writer_bytes_Inr [OF this] have "written w = enc x" by simp
  with rd_enc [OF assms(1), of "[]" "[]"] show ?thesis by (simp add: reader_at_new)
qed

lemma write_fits:
  assumes "dom x"
  shows "(\<exists>w. wr x (writer_new buffer) = Inr w) \<longleftrightarrow> length (enc x) \<le> length buffer"
  using writesD [OF wr_enc [OF assms] writer_new_ok(1), of buffer]
  by (auto simp: writer_bytes_def writer_new_def Let_def)

lemma enc_inj: "dom x \<Longrightarrow> dom y \<Longrightarrow> enc x @ a = enc y @ b \<Longrightarrow> x = y \<and> a = b"
  using rd_enc [of x "[]" a] rd_enc [of y "[]" b] by (auto simp: reader_at_def)

end

interpretation word_codec: codec to_le_bytes writer_word reader_word "\<lambda>_. True"
proof (rule codec.intro)
  show "writes (to_le_bytes x) (writer_word x)" for x by (rule writes_word)
  show "reader_word (reader_at pre (to_le_bytes x @ rest)) = Inr (x, reader_at (pre @ to_le_bytes x) rest)"
    for x pre rest by (rule reader_word_at)
qed

end
