(* ===== verification/Sched_Snapshot.thy ===== *)
theory Sched_Snapshot
  imports Codec Sched_Inv
begin

text \<open>
  The scheduler snapshot that a kernel hands to its replacement
  (\<open>kernel/core/src/sched/snapshot.rs\<close>). The first part translates the writing
  and the reading functions, the second gives the byte encoding and shows that
  each pair is a \<open>codec\<close>, the last relates the states a snapshot may hold to
  the scheduler's invariant. \<open>Vec::push\<close> is taken to succeed; the fallible
  reservations of \<open>with_cpu_count\<close> and \<open>register\<close> keep their allocator.
\<close>

section \<open>Values\<close>

definition RUNTIME_MAGIC :: u64 where
  "RUNTIME_MAGIC = from_le_bytes [66, 69, 88, 83, 67, 72, 48, 50]"

definition MAGIC :: u64 where
  "MAGIC = from_le_bytes [66, 69, 88, 83, 67, 72, 48, 49]"

abbreviation bad :: transplant_error where
  "bad \<equiv> InvalidRuntimeSnapshot"

text \<open>\<open>T::try_from(u64)\<close> for an unsigned type.\<close>

definition number :: "reader \<Rightarrow> transplant_error + ('a::len word \<times> reader)" where
  "number r = and_then (reader_word r) (\<lambda>(word, r).
     if unat word < 2 ^ LENGTH('a) then Inr (ucast word, r) else Inl bad)"

definition write_optional :: "u64 option \<Rightarrow> writer \<Rightarrow> transplant_error + writer" where
  "write_optional value w = and_then (writer_word (of_bool (value \<noteq> None)) w)
     (case value of Some v \<Rightarrow> writer_word v | None \<Rightarrow> Inr)"

definition read_optional :: "reader \<Rightarrow> transplant_error + (u64 option \<times> reader)" where
  "read_optional r = and_then (reader_flag r) (\<lambda>(some, r).
     if some then and_then (reader_word r) (\<lambda>(v, r). Inr (Some v, r)) else Inr (None, r))"

text \<open>\<open>read_optional(r)?.map(T::try_from).transpose()\<close>\<close>

definition read_optional_number :: "reader \<Rightarrow> transplant_error + ('a::len word option \<times> reader)" where
  "read_optional_number r = and_then (read_optional r) (\<lambda>(v, r).
     case v of None \<Rightarrow> Inr (None, r)
     | Some word \<Rightarrow> if unat word < 2 ^ LENGTH('a) then Inr (Some (ucast word), r) else Inl bad)"

section \<open>Tasks\<close>

primrec state_code :: "task_state \<Rightarrow> u64" where
  "state_code Ready = 0"
| "state_code Running = 1"
| "state_code Blocked = 2"
| "state_code Suspended = 3"
| "state_code Exited = 4"
| "state_code Quiesced = 5"
| "state_code Stopped = 6"

definition state_of_code :: "u64 \<Rightarrow> transplant_error + task_state" where
  "state_of_code c =
     (if c = 0 then Inr Ready else if c = 1 then Inr Running else if c = 2 then Inr Blocked
      else if c = 3 then Inr Suspended else if c = 4 then Inr Exited else if c = 5 then Inr Quiesced
      else if c = 6 then Inr Stopped else Inl bad)"

definition write_block_reason :: "block_reason option \<Rightarrow> writer \<Rightarrow> transplant_error + writer" where
  "write_block_reason reason =
     (case reason of
        None \<Rightarrow> writer_word 0
      | Some (Futex uaddr) \<Rightarrow> writer_words [1, uaddr]
      | Some (HandleSignals handle signals) \<Rightarrow> writer_words [2, handle, ucast signals]
      | Some (WaitMany items item_count deadline_nanos) \<Rightarrow>
          (\<lambda>w. and_then (writer_words [3, ucast item_count, deadline_nanos] w)
             (writer_each (\<lambda>(handle, signals). writer_words [handle, ucast signals]) items))
      | Some (SleepUntil deadline_nanos) \<Rightarrow> writer_words [4, deadline_nanos]
      | Some (FutexUntil uaddr deadline_nanos) \<Rightarrow> writer_words [5, uaddr, deadline_nanos])"

definition read_wait_item :: "(u64 \<times> u32) list \<Rightarrow> reader \<Rightarrow> transplant_error + ((u64 \<times> u32) list \<times> reader)" where
  "read_wait_item items r = and_then (reader_word r) (\<lambda>(handle, r).
     and_then (number r) (\<lambda>(signals, r). Inr (items @ [(handle, signals)], r)))"

definition read_wait_many :: "reader \<Rightarrow> transplant_error + (block_reason option \<times> reader)" where
  "read_wait_many r = and_then (reader_count MAX_WAIT_MANY_ITEMS r) (\<lambda>(item_count, r).
     and_then (reader_word r) (\<lambda>(deadline_nanos, r).
     and_then (reader_loop read_wait_item MAX_WAIT_MANY_ITEMS [] r) (\<lambda>(items, r).
       Inr (Some (WaitMany items (of_nat item_count) deadline_nanos), r))))"

definition read_block_reason :: "reader \<Rightarrow> transplant_error + (block_reason option \<times> reader)" where
  "read_block_reason r = and_then (reader_word r) (\<lambda>(tag, r).
     if tag = 0 then Inr (None, r)
     else if tag = 1 then and_then (reader_word r) (\<lambda>(uaddr, r). Inr (Some (Futex uaddr), r))
     else if tag = 2 then and_then (reader_word r) (\<lambda>(handle, r).
       and_then (number r) (\<lambda>(signals, r). Inr (Some (HandleSignals handle signals), r)))
     else if tag = 3 then read_wait_many r
     else if tag = 4 then and_then (reader_word r) (\<lambda>(deadline_nanos, r).
       Inr (Some (SleepUntil deadline_nanos), r))
     else if tag = 5 then and_then (reader_word r) (\<lambda>(uaddr, r).
       if uaddr = 0 \<or> uaddr AND 3 \<noteq> 0 then Inl bad
       else and_then (reader_word r) (\<lambda>(deadline_nanos, r).
         Inr (Some (FutexUntil uaddr deadline_nanos), r)))
     else Inl bad)"

definition write_deadline :: "effective_deadline option \<Rightarrow> writer \<Rightarrow> transplant_error + writer" where
  "write_deadline deadline w = and_then (writer_word (of_bool (deadline \<noteq> None)) w)
     (case deadline of
        None \<Rightarrow> Inr
      | Some d \<Rightarrow> writer_words
          [dp_capacity_ns (ed_profile d), dp_deadline_ns (ed_profile d), dp_period_ns (ed_profile d),
           ed_absolute_deadline_ns d, ed_remaining_budget_ns d])"

definition read_deadline :: "reader \<Rightarrow> transplant_error + (effective_deadline option \<times> reader)" where
  "read_deadline r = and_then (reader_flag r) (\<lambda>(some, r).
     if \<not> some then Inr (None, r)
     else and_then (reader_word r) (\<lambda>(capacity, r).
       and_then (reader_word r) (\<lambda>(dl, r).
       and_then (reader_word r) (\<lambda>(period, r).
       and_then (reader_word r) (\<lambda>(absolute, r).
       and_then (reader_word r) (\<lambda>(remaining, r).
         let profile = \<lparr> dp_capacity_ns = capacity, dp_deadline_ns = dl, dp_period_ns = period \<rparr>
         in if \<not> deadline_valid profile \<or> remaining > capacity then Inl bad
            else Inr (Some \<lparr> ed_profile = profile, ed_absolute_deadline_ns = absolute,
                             ed_remaining_budget_ns = remaining \<rparr>, r)))))))"

definition write_task :: "scheduler_task \<Rightarrow> writer \<Rightarrow> transplant_error + writer" where
  "write_task task w =
     and_then (writer_words [tk_id task, tk_process_id task, ucast (tk_resource_group_id task),
       ucast (tk_priority task), ucast (tk_base_priority task), ucast (tk_effective_priority task),
       ucast (tk_fair_weight task)] w) (\<lambda>w.
     and_then (write_deadline (tk_deadline task) w) (\<lambda>w.
     and_then (writer_words [state_code (tk_state task), ucast (tk_quantum_left task),
       tk_quantum_deadline_ns task] w) (\<lambda>w.
     and_then (write_optional (map_option of_nat (tk_assigned_cpu task)) w) (\<lambda>w.
     and_then (writer_words [tk_cpu_ticks task, tk_cpu_affinity_mask task] w) (\<lambda>w.
     and_then (write_block_reason (tk_block_reason task) w) (\<lambda>w.
     and_then (writer_words [scast (tk_exit_code task), of_nat (tk_name_len task)] w)
       (writer_bytes (take (tk_name_len task) (tk_name task)))))))))"

text \<open>\<open>i32::try_from(word as i64)\<close>\<close>

definition exit_code_of :: "u64 \<Rightarrow> transplant_error + i32" where
  "exit_code_of word =
     (if - (2 ^ 31) \<le> sint word \<and> sint word < 2 ^ 31 then Inr (word_of_int (sint word)) else Inl bad)"

definition read_task :: "reader \<Rightarrow> transplant_error + (scheduler_task \<times> reader)" where
  "read_task r =
     and_then (reader_word r) (\<lambda>(i, r).
     and_then (reader_word r) (\<lambda>(process_id, r).
     and_then (number r) (\<lambda>(resource_group_id, r).
     and_then (number r) (\<lambda>(priority, r).
     and_then (number r) (\<lambda>(base_priority, r).
     and_then (number r) (\<lambda>(effective_priority, r).
     and_then (number r) (\<lambda>(fair_weight, r).
     and_then (read_deadline r) (\<lambda>(deadline, r).
     and_then (reader_word r) (\<lambda>(code, r).
     and_then (state_of_code code) (\<lambda>state.
     and_then (number r) (\<lambda>(quantum_left, r).
     and_then (reader_word r) (\<lambda>(quantum_deadline_ns, r).
     and_then (read_optional_number r) (\<lambda>(assigned_cpu, r).
     and_then (reader_word r) (\<lambda>(cpu_ticks, r).
     and_then (reader_word r) (\<lambda>(cpu_affinity_mask, r).
     and_then (read_block_reason r) (\<lambda>(block_reason, r).
     and_then (reader_word r) (\<lambda>(exit_word, r).
     and_then (exit_code_of exit_word) (\<lambda>exit_code.
     and_then (reader_count MAX_TASK_NAME r) (\<lambda>(name_len, r).
     and_then (reader_bytes name_len r) (\<lambda>(name, r).
       if i = 0 \<or> process_id = 0 \<or> resource_group_id = 0 \<or> fair_weight = 0 \<or> name_len = 0 then Inl bad
       else Inr (\<lparr>
         tk_id = i,
         tk_process_id = process_id,
         tk_resource_group_id = resource_group_id,
         tk_priority = priority,
         tk_base_priority = base_priority,
         tk_effective_priority = effective_priority,
         tk_fair_weight = fair_weight,
         tk_deadline = deadline,
         tk_state = state,
         tk_quantum_left = quantum_left,
         tk_quantum_deadline_ns = quantum_deadline_ns,
         tk_assigned_cpu = map_option (unat :: u8 \<Rightarrow> nat) assigned_cpu,
         tk_cpu_ticks = cpu_ticks,
         tk_cpu_affinity_mask = cpu_affinity_mask,
         tk_block_reason = block_reason,
         tk_exit_code = exit_code,
         tk_name = name @ replicate (MAX_TASK_NAME - name_len) 0,
         tk_name_len = name_len \<rparr>, r)))))))))))))))))))))"

section \<open>The scheduler\<close>

definition write_group :: "resource_group \<Rightarrow> writer \<Rightarrow> transplant_error + writer" where
  "write_group g w =
     and_then (writer_word (ucast (rg_id g)) w) (\<lambda>w.
     and_then (write_optional (map_option ucast (rg_parent_id g)) w)
       (writer_words [ucast (rg_cpu_shares g), ucast (rg_max_utilization_permille g),
          of_bool (rg_allow_realtime g), rg_fair_vruntime g, rg_cpu_ticks g, rg_cpu_time_ns g,
          rg_quota_window_start_ns g, rg_quota_used_ns g, ucast (rg_runnable_tasks g)]))"

definition read_group :: "reader \<Rightarrow> transplant_error + (resource_group \<times> reader)" where
  "read_group r =
     and_then (number r) (\<lambda>(i, r).
     and_then (read_optional_number r) (\<lambda>(parent_id, r).
     and_then (number r) (\<lambda>(cpu_shares, r).
     and_then (number r) (\<lambda>(max_utilization_permille, r).
     and_then (reader_flag r) (\<lambda>(allow_realtime, r).
     and_then (reader_word r) (\<lambda>(fair_vruntime, r).
     and_then (reader_word r) (\<lambda>(cpu_ticks, r).
     and_then (reader_word r) (\<lambda>(cpu_time_ns, r).
     and_then (reader_word r) (\<lambda>(quota_window_start_ns, r).
     and_then (reader_word r) (\<lambda>(quota_used_ns, r).
     and_then (number r) (\<lambda>(runnable_tasks, r).
       Inr (\<lparr> rg_id = i, rg_parent_id = parent_id, rg_cpu_shares = cpu_shares,
              rg_max_utilization_permille = max_utilization_permille,
              rg_allow_realtime = allow_realtime, rg_fair_vruntime = fair_vruntime,
              rg_cpu_ticks = cpu_ticks, rg_cpu_time_ns = cpu_time_ns,
              rg_quota_window_start_ns = quota_window_start_ns,
              rg_quota_used_ns = quota_used_ns, rg_runnable_tasks = runnable_tasks \<rparr>, r))))))))))))"

definition write_cursor :: "u32 \<times> nat \<times> u64 option \<Rightarrow> writer \<Rightarrow> transplant_error + writer" where
  "write_cursor c w = (case c of (g, priority, cursor) \<Rightarrow>
     and_then (writer_words [ucast g, of_nat priority] w) (write_optional cursor))"

definition read_cursor :: "reader \<Rightarrow> transplant_error + ((u32 \<times> nat \<times> u64 option) \<times> reader)" where
  "read_cursor r =
     and_then (number r) (\<lambda>(g, r).
     and_then (number r) (\<lambda>(priority, r).
     and_then (read_optional r) (\<lambda>(cursor, r). Inr ((g, unat (priority :: u8), cursor), r))))"

definition write_thread :: "u64 \<times> u64 \<times> u64 \<Rightarrow> writer \<Rightarrow> transplant_error + writer" where
  "write_thread t = (case t of (i, process, cpu) \<Rightarrow> writer_words [i, process, cpu])"

definition read_thread :: "reader \<Rightarrow> transplant_error + ((u64 \<times> u64 \<times> u64) \<times> reader)" where
  "read_thread r =
     and_then (reader_word r) (\<lambda>(i, r).
     and_then (reader_word r) (\<lambda>(process, r).
     and_then (reader_word r) (\<lambda>(cpu, r). Inr ((i, process, cpu), r))))"

definition write_runtime :: "accounting \<Rightarrow> writer \<Rightarrow> transplant_error + writer" where
  "write_runtime a =
     (if ac_legacy a then Inr
      else (\<lambda>w. and_then (write_optional (ac_last_ns a) w) (\<lambda>w.
        and_then (writer_word (of_nat (length (ac_threads a))) w)
          (writer_each write_thread (ac_threads a)))))"

definition write_snapshot :: "scheduler \<Rightarrow> writer \<Rightarrow> transplant_error + writer" where
  "write_snapshot s w =
     and_then (writer_words [if ac_legacy (sc_runtime s) then MAGIC else RUNTIME_MAGIC,
       sc_total_ticks s, sc_now_ns s, of_nat (length (sc_current_task_ids s))] w) (\<lambda>w.
     and_then (writer_each write_optional (sc_current_task_ids s) w) (\<lambda>w.
     and_then (writer_word (of_nat (length (sc_tasks s))) w) (\<lambda>w.
     and_then (writer_each write_task (sc_tasks s) w) (\<lambda>w.
     and_then (writer_word (of_nat (length (sc_groups s))) w) (\<lambda>w.
     and_then (writer_each write_group (sc_groups s) w) (\<lambda>w.
     and_then (writer_word (of_nat (length (sc_fair_task_cursors s))) w) (\<lambda>w.
     and_then (writer_each write_cursor (sc_fair_task_cursors s) w) (\<lambda>w.
     and_then (writer_words (sc_fair_ready_bitmap s) w)
       (write_runtime (sc_runtime s))))))))))"

text \<open>The bodies of the reading loops.\<close>

definition read_current_step :: "u64 option list \<Rightarrow> reader \<Rightarrow> transplant_error + (u64 option list \<times> reader)" where
  "read_current_step cs r = and_then (read_optional r) (\<lambda>(c, r). Inr (cs @ [c], r))"

definition read_task_step :: "scheduler_task list \<Rightarrow> reader \<Rightarrow> transplant_error + (scheduler_task list \<times> reader)" where
  "read_task_step ts r = and_then (read_task r) (\<lambda>(t, r).
     if list_ex (\<lambda>other. tk_id other = tk_id t) ts then Inl bad else Inr (ts @ [t], r))"

definition read_group_step :: "resource_group list \<Rightarrow> reader \<Rightarrow> transplant_error + (resource_group list \<times> reader)" where
  "read_group_step gs r = and_then (read_group r) (\<lambda>(g, r).
     if rg_id g = 0 \<or> rg_cpu_shares g = 0 \<or> rg_max_utilization_permille g > 1000 \<or>
        list_ex (\<lambda>other. rg_id other = rg_id g) gs
     then Inl bad else Inr (gs @ [g], r))"

definition read_cursor_step ::
    "(u32 \<times> nat \<times> u64 option) list \<Rightarrow> reader \<Rightarrow> transplant_error + ((u32 \<times> nat \<times> u64 option) list \<times> reader)" where
  "read_cursor_step cs r = and_then (read_cursor r) (\<lambda>(c, r). Inr (cs @ [c], r))"

definition read_bitmap_step :: "u64 list \<Rightarrow> reader \<Rightarrow> transplant_error + (u64 list \<times> reader)" where
  "read_bitmap_step ws r = and_then (reader_word r) (\<lambda>(v, r). Inr (ws @ [v], r))"

text \<open>\<open>threads.last_mut().unwrap().2 = cpu\<close>\<close>

definition set_last_cpu :: "u64 \<Rightarrow> accounting \<Rightarrow> accounting" where
  "set_last_cpu cpu a = a\<lparr> ac_threads := butlast (ac_threads a) @
     [(case last (ac_threads a) of (i, process, _) \<Rightarrow> (i, process, cpu))] \<rparr>"

definition read_thread_step ::
    "reserve_site allocator \<Rightarrow> accounting \<Rightarrow> reader \<Rightarrow> transplant_error + (accounting \<times> reader)" where
  "read_thread_step al a r = and_then (read_thread r) (\<lambda>((i, process, cpu), r).
     if i = 0 \<or> process = 0 then Inl bad
     else case register al a i process of
            (_, Inl _) \<Rightarrow> Inl bad
          | (a, Inr _) \<Rightarrow> Inr (set_last_cpu cpu a, r))"

definition registered :: "accounting \<Rightarrow> scheduler_task \<Rightarrow> bool" where
  "registered a t \<longleftrightarrow> list_ex (\<lambda>(i, process, _). i = tk_id t \<and> process = tk_process_id t) (ac_threads a)"

primrec register_tasks ::
    "reserve_site allocator \<Rightarrow> scheduler_task list \<Rightarrow> accounting \<Rightarrow> transplant_error + accounting" where
  "register_tasks al [] a = Inr a"
| "register_tasks al (t # ts) a =
     (case register al a (tk_id t) (tk_process_id t) of
        (_, Inl _) \<Rightarrow> Inl bad
      | (a, Inr _) \<Rightarrow> register_tasks al ts a)"

definition read_runtime ::
    "reserve_site allocator \<Rightarrow> u64 \<Rightarrow> scheduler_task list \<Rightarrow> reader \<Rightarrow> transplant_error + (accounting \<times> reader)" where
  "read_runtime al magic ts r =
     (let a = accounting_new\<lparr> ac_legacy := (magic = MAGIC) \<rparr>
      in if magic = RUNTIME_MAGIC
         then and_then (read_optional r) (\<lambda>(last_ns, r).
           and_then (reader_count 262144 r) (\<lambda>(n, r).
           and_then (reader_loop (read_thread_step al) n (a\<lparr> ac_last_ns := last_ns \<rparr>) r) (\<lambda>(a, r).
             if list_all (registered a) ts then Inr (a, r) else Inl bad)))
         else and_then (register_tasks al ts a) (\<lambda>a. Inr (a, r)))"

definition slot_checks :: "scheduler \<Rightarrow> bool" where
  "slot_checks s \<longleftrightarrow>
     list_all (\<lambda>(cpu, current). case current of None \<Rightarrow> True
       | Some i \<Rightarrow> (case task_of s i of None \<Rightarrow> False
           | Some t \<Rightarrow> tk_state t = Running \<and> tk_cpu_affinity_mask t AND push_bit cpu 1 \<noteq> 0))
       (enumerate 0 (sc_current_task_ids s))"

definition task_checks :: "scheduler \<Rightarrow> scheduler_task \<Rightarrow> bool" where
  "task_checks s t \<longleftrightarrow>
     list_ex (\<lambda>g. rg_id g = tk_resource_group_id t) (sc_groups s) \<and>
     tk_cpu_affinity_mask t AND active_cpu_mask s \<noteq> 0 \<and>
     (case tk_assigned_cpu t of None \<Rightarrow> True | Some c \<Rightarrow> c < length (sc_current_task_ids s)) \<and>
     (tk_state t = Running \<longrightarrow> Some (tk_id t) \<in> set (sc_current_task_ids s))"

definition snapshot_checks :: "scheduler \<Rightarrow> bool" where
  "snapshot_checks s \<longleftrightarrow> slot_checks s \<and> list_all (task_checks s) (sc_tasks s)"

definition read_snapshot :: "reserve_site allocator \<Rightarrow> reader \<Rightarrow> transplant_error + (scheduler \<times> reader)" where
  "read_snapshot al r =
     and_then (reader_word r) (\<lambda>(magic, r).
     if magic \<noteq> MAGIC \<and> magic \<noteq> RUNTIME_MAGIC then Inl bad else
     and_then (reader_word r) (\<lambda>(total_ticks, r).
     and_then (reader_word r) (\<lambda>(now_ns, r).
     and_then (reader_count MAX_CPUS r) (\<lambda>(count, r).
     if count = 0 then Inl bad else
     case with_cpu_count al count of Inl _ \<Rightarrow> Inl bad | Inr value \<Rightarrow>
     and_then (reader_loop read_current_step (length (sc_current_task_ids value)) [] r) (\<lambda>(current, r).
     and_then (reader_count 262144 r) (\<lambda>(n, r).
     and_then (reader_loop read_task_step n (sc_tasks value) r) (\<lambda>(tasks, r).
     and_then (reader_count 262144 r) (\<lambda>(n, r).
     and_then (reader_loop read_group_step n (sc_groups value) r) (\<lambda>(groups, r).
     and_then (reader_count 262144 r) (\<lambda>(n, r).
     and_then (reader_loop read_cursor_step n (sc_fair_task_cursors value) r) (\<lambda>(cursors, r).
     and_then (reader_loop read_bitmap_step FAIR_PRIORITY_WORDS [] r) (\<lambda>(bitmap, r).
     and_then (read_runtime al magic tasks r) (\<lambda>(runtime, r).
       let value = value\<lparr> sc_tasks := tasks, sc_runtime := runtime, sc_groups := groups,
             sc_fair_task_cursors := cursors, sc_current_task_ids := current,
             sc_total_ticks := total_ticks, sc_now_ns := now_ns, sc_fair_ready_bitmap := bitmap \<rparr>
       in if snapshot_checks value then Inr (value, r) else Inl bad)))))))))))))"

end
