(* ===== verification/Snapshot_Codec.thy ===== *)
theory Snapshot_Codec
  imports Sched_Snapshot
begin

text \<open>
  The byte encoding of a scheduler snapshot, the proof that the writing and
  reading functions of every part form a \<open>codec\<close>, and what an accepted
  snapshot guarantees.
\<close>

section \<open>Reading a list\<close>

context codec
begin

text \<open>
  A loop that reads an item, checks it against the items before and collects
  it reads back a written list that passes the checks.
\<close>

lemma loop_enc:
  assumes "\<And>ys x zs. xs = ys @ x # zs \<Longrightarrow> dom x \<and> \<not> ko (acc @ ys) x"
    and step: "\<And>ys r. step (g ys) r =
      and_then (rd r) (\<lambda>(x, r). if ko ys x then Inl e else Inr (g (ys @ [x]), r))"
  shows "reader_loop step (length xs) (g acc) (reader_at pre (concat (map enc xs) @ rest)) =
    Inr (g (acc @ xs), reader_at (pre @ concat (map enc xs)) rest)"
  using assms(1)
proof (induction xs arbitrary: acc pre)
  case (Cons x xs)
  from Cons.prems [of "[]" x xs] have "dom x" "\<not> ko acc x" by auto
  moreover have "dom y \<and> \<not> ko ((acc @ [x]) @ ys) y" if "xs = ys @ y # zs" for ys y zs
    using Cons.prems [of "x # ys" y zs] that by simp
  ultimately show ?case
    using Cons.IH [of "acc @ [x]" "pre @ enc x"] by (simp add: step rd_enc)
qed simp

end

lemma length_le_concat:
  assumes "\<And>x. f x \<noteq> []"
  shows "length xs \<le> length (concat (map f xs))"
proof (induction xs)
  case (Cons x xs)
  moreover have "Suc 0 \<le> length (f x)" using assms [of x] by (simp add: Suc_le_eq)
  ultimately show ?case by simp
qed simp

section \<open>Optional values and numbers\<close>

definition enc_word :: "u64 \<Rightarrow> u8 list" where
  "enc_word = to_le_bytes"

definition enc_words :: "u64 list \<Rightarrow> u8 list" where
  "enc_words xs = concat (map enc_word xs)"

definition enc_optional :: "u64 option \<Rightarrow> u8 list" where
  "enc_optional v = enc_word (of_bool (v \<noteq> None)) @ (case v of None \<Rightarrow> [] | Some x \<Rightarrow> enc_word x)"

lemma length_enc_word [simp]: "length (enc_word x) = 8"
  by (simp add: enc_word_def)

lemma enc_word_not_Nil [simp]: "enc_word x \<noteq> []"
  using length_enc_word [of x] by (auto simp del: length_enc_word)

lemma enc_words_simps [simp]:
  "enc_words [] = []" "enc_words (x # xs) = enc_word x @ enc_words xs"
  by (simp_all add: enc_words_def)

lemma writes_enc_word [writes_intros]: "writes (enc_word x) (writer_word x)"
  unfolding enc_word_def by (rule writes_word)

lemma writes_enc_words [writes_intros]: "writes (enc_words xs) (writer_words xs)"
  unfolding enc_words_def enc_word_def by (rule writes_words)

lemma writes_optional [writes_intros]: "writes (enc_optional v) (write_optional v)"
  unfolding enc_optional_def write_optional_def
  by (intro writes_then writes_enc_word) (auto intro: writes_intros split: option.split)

lemma read_enc_word [read_back]:
  "reader_word (reader_at pre (enc_word x @ rest)) = Inr (x, reader_at (pre @ enc_word x) rest)"
  unfolding enc_word_def by (rule reader_word_at)

lemma read_enc_flag [read_back]:
  "reader_flag (reader_at pre (enc_word (of_bool b) @ rest)) =
     Inr (b, reader_at (pre @ enc_word (of_bool b)) rest)"
  unfolding enc_word_def by (rule reader_flag_at)

lemma read_enc_flag_cases [read_back]:
  "reader_flag (reader_at pre (enc_word 0 @ rest)) = Inr (False, reader_at (pre @ enc_word 0) rest)"
  "reader_flag (reader_at pre (enc_word 1 @ rest)) = Inr (True, reader_at (pre @ enc_word 1) rest)"
  using read_enc_flag [of pre False rest] read_enc_flag [of pre True rest] by simp_all

lemma read_enc_count [read_back]:
  "n \<le> bound \<Longrightarrow> n \<le> length rest \<Longrightarrow> n < 2 ^ 64 \<Longrightarrow>
     reader_count bound (reader_at pre (enc_word (of_nat n) @ rest)) =
       Inr (n, reader_at (pre @ enc_word (of_nat n)) rest)"
  unfolding enc_word_def by (rule reader_count_at)

lemma ucast_fits:
  assumes "LENGTH('a) \<le> 64"
  shows "unat (ucast (x :: 'a::len word) :: u64) = unat x" "ucast (ucast x :: u64) = x"
proof -
  have "unat x < 2 ^ LENGTH('a)" by simp
  also have "\<dots> \<le> 2 ^ 64" using assms by (intro power_increasing) simp_all
  finally show "unat (ucast x :: u64) = unat x"
    by (simp add: unsigned_ucast_eq take_bit_nat_eq_self)
  show "ucast (ucast x :: u64) = x"
    using assms by (intro bit_word_eqI) (simp add: bit_simps)
qed

lemma read_enc_number [read_back]:
  assumes "LENGTH('a) \<le> 64"
  shows "number (reader_at pre (enc_word (ucast (x :: 'a::len word)) @ rest)) =
     Inr (x, reader_at (pre @ enc_word (ucast x)) rest)"
  using ucast_fits [OF assms, of x] unsigned_less [of x]
  by (simp add: number_def read_enc_word)

lemma read_enc_optional [read_back]:
  "read_optional (reader_at pre (enc_optional v @ rest)) = Inr (v, reader_at (pre @ enc_optional v) rest)"
  by (cases v) (simp_all add: read_optional_def enc_optional_def read_back)

lemma read_enc_optional_number [read_back]:
  assumes "LENGTH('a) \<le> 64"
  shows "read_optional_number (reader_at pre (enc_optional (map_option ucast (v :: 'a::len word option)) @ rest)) =
     Inr (v, reader_at (pre @ enc_optional (map_option ucast v)) rest)"
  using ucast_fits [OF assms] unsigned_less [where ?'b = 'a]
  by (cases v) (simp_all add: read_optional_number_def read_back)

interpretation optional_codec: codec enc_optional write_optional read_optional "\<lambda>_. True"
  by unfold_locales (simp_all add: writes_optional read_enc_optional)

section \<open>Tasks\<close>

definition enc_reason :: "block_reason option \<Rightarrow> u8 list" where
  "enc_reason reason =
     (case reason of
        None \<Rightarrow> enc_word 0
      | Some (Futex uaddr) \<Rightarrow> enc_words [1, uaddr]
      | Some (HandleSignals handle signals) \<Rightarrow> enc_words [2, handle, ucast signals]
      | Some (WaitMany items item_count deadline_nanos) \<Rightarrow>
          enc_words [3, ucast item_count, deadline_nanos] @
          concat (map (\<lambda>(handle, signals). enc_words [handle, ucast signals]) items)
      | Some (SleepUntil deadline_nanos) \<Rightarrow> enc_words [4, deadline_nanos]
      | Some (FutexUntil uaddr deadline_nanos) \<Rightarrow> enc_words [5, uaddr, deadline_nanos])"

definition enc_deadline :: "effective_deadline option \<Rightarrow> u8 list" where
  "enc_deadline deadline = enc_word (of_bool (deadline \<noteq> None)) @
     (case deadline of
        None \<Rightarrow> []
      | Some d \<Rightarrow> enc_words
          [dp_capacity_ns (ed_profile d), dp_deadline_ns (ed_profile d), dp_period_ns (ed_profile d),
           ed_absolute_deadline_ns d, ed_remaining_budget_ns d])"

definition enc_task :: "scheduler_task \<Rightarrow> u8 list" where
  "enc_task task =
     enc_words [tk_id task, tk_process_id task, ucast (tk_resource_group_id task),
       ucast (tk_priority task), ucast (tk_base_priority task), ucast (tk_effective_priority task),
       ucast (tk_fair_weight task)] @
     enc_deadline (tk_deadline task) @
     enc_words [state_code (tk_state task), ucast (tk_quantum_left task), tk_quantum_deadline_ns task] @
     enc_optional (map_option of_nat (tk_assigned_cpu task)) @
     enc_words [tk_cpu_ticks task, tk_cpu_affinity_mask task] @
     enc_reason (tk_block_reason task) @
     enc_words [scast (tk_exit_code task), of_nat (tk_name_len task)] @
     take (tk_name_len task) (tk_name task)"

text \<open>The records a snapshot may hold: what \<open>read_task\<close> checks, and what the types allow.\<close>

definition task_valid :: "scheduler_task \<Rightarrow> bool" where
  "task_valid t \<longleftrightarrow>
     tk_id t \<noteq> 0 \<and> tk_process_id t \<noteq> 0 \<and> tk_resource_group_id t \<noteq> 0 \<and> tk_fair_weight t \<noteq> 0 \<and>
     length (tk_name t) = MAX_TASK_NAME \<and> 0 < tk_name_len t \<and> tk_name_len t \<le> MAX_TASK_NAME \<and>
     drop (tk_name_len t) (tk_name t) = replicate (MAX_TASK_NAME - tk_name_len t) 0 \<and>
     (case tk_deadline t of None \<Rightarrow> True | Some d \<Rightarrow> deadline_ok d) \<and>
     (case tk_block_reason t of None \<Rightarrow> True | Some r \<Rightarrow> block_ok r) \<and>
     (case tk_assigned_cpu t of None \<Rightarrow> True | Some c \<Rightarrow> c < 256)"

lemma state_of_state_code [simp]: "state_of_code (state_code st) = Inr st"
  by (cases st) (simp_all add: state_of_code_def)

lemma exit_code_of_scast [simp]: "exit_code_of (scast (x :: i32)) = Inr x"
proof -
  have "sint (scast x :: u64) = sint x"
    by (simp add: sint_up_scast is_up)
  moreover have "- (2 ^ 31) \<le> sint x" "sint x < 2 ^ 31"
    using sint_greater_eq [of x] sint_less [of x] by simp_all
  ultimately show ?thesis by (simp add: exit_code_of_def)
qed

lemma writes_reason [writes_intros]: "writes (enc_reason v) (write_block_reason v)"
  unfolding enc_reason_def write_block_reason_def
  by (auto intro!: writes_intros simp del: enc_words_simps split: option.split block_reason.split prod.split)

lemma writes_deadline [writes_intros]: "writes (enc_deadline v) (write_deadline v)"
  unfolding enc_deadline_def write_deadline_def
  by (intro writes_then writes_enc_word)
    (auto intro: writes_intros simp del: enc_words_simps split: option.split)

lemma writes_task [writes_intros]: "writes (enc_task t) (write_task t)"
  unfolding enc_task_def write_task_def by (intro writes_intros)

lemma read_enc_items:
  "reader_loop read_wait_item (length items) acc
     (reader_at pre (concat (map (\<lambda>(handle, signals). enc_words [handle, ucast signals]) items) @ rest)) =
   Inr (acc @ items, reader_at (pre @ concat (map (\<lambda>(handle, signals). enc_words [handle, ucast signals]) items)) rest)"
  by (induction items arbitrary: acc pre) (auto simp: read_wait_item_def read_back)

lemma read_enc_reason [read_back]:
  assumes "case v of None \<Rightarrow> True | Some r \<Rightarrow> block_ok r"
  shows "read_block_reason (reader_at pre (enc_reason v @ rest)) = Inr (v, reader_at (pre @ enc_reason v) rest)"
proof (cases "\<exists>items n d. v = Some (WaitMany items n d)")
  case True
  then obtain items n d where v: "v = Some (WaitMany items n d)" by blast
  with assms have len: "length items = 8" and n: "unat n \<le> 8"
    by (simp_all add: block_ok_def MAX_WAIT_MANY_ITEMS_def)
  have cnt: "reader_count 8 (reader_at p (enc_word (ucast n) @ q)) =
      Inr (unat n, reader_at (p @ enc_word (ucast n)) q)" if "8 \<le> length q" for p q
    using read_enc_count [of "unat n" 8 q p] n that by simp
  have "8 \<le> length (concat (map (\<lambda>(handle, signals). enc_words [handle, ucast (signals :: u32)]) items))"
    using len by (simp add: length_concat case_prod_unfold comp_def sum_list_triv)
  with n show ?thesis
    using read_enc_items [of items "[]"] len
    by (simp add: v read_block_reason_def enc_reason_def read_wait_many_def read_enc_word cnt MAX_WAIT_MANY_ITEMS_def)
next
  case False
  with assms show ?thesis
    by (auto simp: read_block_reason_def enc_reason_def block_ok_def read_back
        split: option.split block_reason.split)
qed

lemma read_enc_deadline [read_back]:
  assumes "case v of None \<Rightarrow> True | Some d \<Rightarrow> deadline_ok d"
  shows "read_deadline (reader_at pre (enc_deadline v @ rest)) = Inr (v, reader_at (pre @ enc_deadline v) rest)"
  using assms
  by (cases v) (auto simp: read_deadline_def enc_deadline_def deadline_ok_def deadline_valid_def read_back Let_def)

lemma read_enc_assigned [read_back]:
  assumes "case v of None \<Rightarrow> True | Some c \<Rightarrow> c < 256"
  shows "read_optional_number (reader_at pre (enc_optional (map_option of_nat v) @ rest)) =
    Inr (map_option (of_nat :: nat \<Rightarrow> u8) v, reader_at (pre @ enc_optional (map_option of_nat v)) rest)"
proof -
  have "map_option (of_nat :: nat \<Rightarrow> u64) v = map_option ucast (map_option (of_nat :: nat \<Rightarrow> u8) v)"
    using assms by (cases v) (simp_all add: word_eq_iff_unsigned unsigned_of_nat take_bit_nat_eq_self)
  then show ?thesis by (simp add: read_back)
qed

lemma assigned_back: "case v of None \<Rightarrow> True | Some c \<Rightarrow> c < 256 \<Longrightarrow>
    map_option (unat :: u8 \<Rightarrow> nat) (map_option of_nat v) = v"
  by (cases v) (simp_all add: unsigned_of_nat take_bit_nat_eq_self)

lemma read_enc_task [read_back]:
  assumes "task_valid t"
  shows "read_task (reader_at pre (enc_task t @ rest)) = Inr (t, reader_at (pre @ enc_task t) rest)"
proof -
  note v = assms [unfolded task_valid_def]
  have name: "take (tk_name_len t) (tk_name t) @ replicate (MAX_TASK_NAME - tk_name_len t) 0 = tk_name t"
    using v append_take_drop_id [of "tk_name_len t" "tk_name t"] by simp
  have len: "length (take (tk_name_len t) (tk_name t)) = tk_name_len t" using v by simp
  have "tk_name_len t < 2 ^ 64" using v by (simp add: MAX_TASK_NAME_def)
  with v len name show ?thesis
    by (simp add: read_task_def enc_task_def read_back assigned_back del: length_take)
qed

interpretation task_codec: codec enc_task write_task read_task task_valid
  by unfold_locales (simp_all add: writes_task read_enc_task)

section \<open>Groups, cursors and threads\<close>

definition enc_group :: "resource_group \<Rightarrow> u8 list" where
  "enc_group g = enc_word (ucast (rg_id g)) @ enc_optional (map_option ucast (rg_parent_id g)) @
     enc_words [ucast (rg_cpu_shares g), ucast (rg_max_utilization_permille g),
       of_bool (rg_allow_realtime g), rg_fair_vruntime g, rg_cpu_ticks g, rg_cpu_time_ns g,
       rg_quota_window_start_ns g, rg_quota_used_ns g, ucast (rg_runnable_tasks g)]"

definition enc_cursor :: "u32 \<times> nat \<times> u64 option \<Rightarrow> u8 list" where
  "enc_cursor c = (case c of (g, priority, cursor) \<Rightarrow>
     enc_words [ucast g, of_nat priority] @ enc_optional cursor)"

definition enc_thread :: "u64 \<times> u64 \<times> u64 \<Rightarrow> u8 list" where
  "enc_thread t = (case t of (i, process, cpu) \<Rightarrow> enc_words [i, process, cpu])"

definition cursor_valid :: "u32 \<times> nat \<times> u64 option \<Rightarrow> bool" where
  "cursor_valid c \<longleftrightarrow> fst (snd c) < 256"

lemma writes_group [writes_intros]: "writes (enc_group g) (write_group g)"
  unfolding enc_group_def write_group_def by (intro writes_intros)

lemma writes_cursor [writes_intros]: "writes (enc_cursor c) (write_cursor c)"
  unfolding enc_cursor_def write_cursor_def by (cases c) (auto intro!: writes_intros simp del: enc_words_simps)

lemma writes_thread [writes_intros]: "writes (enc_thread t) (write_thread t)"
  unfolding enc_thread_def write_thread_def by (cases t) (auto intro!: writes_intros simp del: enc_words_simps)

lemma read_enc_group [read_back]:
  "read_group (reader_at pre (enc_group g @ rest)) = Inr (g, reader_at (pre @ enc_group g) rest)"
  by (simp add: read_group_def enc_group_def read_back)

lemma read_enc_cursor [read_back]:
  assumes "cursor_valid c"
  shows "read_cursor (reader_at pre (enc_cursor c @ rest)) = Inr (c, reader_at (pre @ enc_cursor c) rest)"
proof -
  obtain g p v where c: "c = (g, p, v)" by (cases c)
  with assms have p: "(of_nat p :: u64) = ucast (of_nat p :: u8)" "unat (of_nat p :: u8) = p"
    by (simp_all add: cursor_valid_def word_eq_iff_unsigned unsigned_of_nat take_bit_nat_eq_self)
  show ?thesis by (simp add: c read_cursor_def enc_cursor_def p read_back)
qed

lemma read_enc_thread [read_back]:
  "read_thread (reader_at pre (enc_thread t @ rest)) = Inr (t, reader_at (pre @ enc_thread t) rest)"
  by (cases t) (simp add: read_thread_def enc_thread_def read_back)

interpretation group_codec: codec enc_group write_group read_group "\<lambda>_. True"
  by unfold_locales (simp_all add: writes_group read_enc_group)

interpretation cursor_codec: codec enc_cursor write_cursor read_cursor cursor_valid
  by unfold_locales (simp_all add: writes_cursor read_enc_cursor)

interpretation thread_codec: codec enc_thread write_thread read_thread "\<lambda>_. True"
  by unfold_locales (simp_all add: writes_thread read_enc_thread)

section \<open>The whole snapshot\<close>

definition group_valid :: "resource_group \<Rightarrow> bool" where
  "group_valid g \<longleftrightarrow> rg_id g \<noteq> 0 \<and> rg_cpu_shares g \<noteq> 0 \<and> rg_max_utilization_permille g \<le> 1000"

definition threads_valid :: "scheduler \<Rightarrow> bool" where
  "threads_valid s \<longleftrightarrow>
     length (ac_threads (sc_runtime s)) \<le> 262144 \<and> distinct (map fst (ac_threads (sc_runtime s))) \<and>
     (\<forall>(i, process, _)\<in>set (ac_threads (sc_runtime s)). i \<noteq> 0 \<and> process \<noteq> 0) \<and>
     list_all (registered (sc_runtime s)) (sc_tasks s)"

definition snapshot_valid :: "scheduler \<Rightarrow> bool" where
  "snapshot_valid s \<longleftrightarrow>
     1 \<le> length (sc_current_task_ids s) \<and> length (sc_current_task_ids s) \<le> MAX_CPUS \<and>
     length (sc_tasks s) \<le> 262144 \<and> length (sc_groups s) \<le> 262144 \<and>
     length (sc_fair_task_cursors s) \<le> 262144 \<and>
     distinct (map tk_id (sc_tasks s)) \<and> (\<forall>t\<in>set (sc_tasks s). task_valid t) \<and>
     distinct (map rg_id (sc_groups s)) \<and> (\<forall>g\<in>set (sc_groups s). group_valid g) \<and>
     (\<forall>c\<in>set (sc_fair_task_cursors s). cursor_valid c) \<and>
     length (sc_fair_ready_bitmap s) = FAIR_PRIORITY_WORDS \<and>
     threads_valid s \<and> snapshot_checks s"

definition enc_runtime :: "accounting \<Rightarrow> u8 list" where
  "enc_runtime a = (if ac_legacy a then []
     else enc_optional (ac_last_ns a) @ enc_word (of_nat (length (ac_threads a))) @
          concat (map enc_thread (ac_threads a)))"

definition enc_snapshot :: "scheduler \<Rightarrow> u8 list" where
  "enc_snapshot s =
     enc_words [if ac_legacy (sc_runtime s) then MAGIC else RUNTIME_MAGIC,
       sc_total_ticks s, sc_now_ns s, of_nat (length (sc_current_task_ids s))] @
     concat (map enc_optional (sc_current_task_ids s)) @
     enc_word (of_nat (length (sc_tasks s))) @ concat (map enc_task (sc_tasks s)) @
     enc_word (of_nat (length (sc_groups s))) @ concat (map enc_group (sc_groups s)) @
     enc_word (of_nat (length (sc_fair_task_cursors s))) @
     concat (map enc_cursor (sc_fair_task_cursors s)) @
     enc_words (sc_fair_ready_bitmap s) @ enc_runtime (sc_runtime s)"

lemma writes_runtime [writes_intros]: "writes (enc_runtime a) (write_runtime a)"
  unfolding enc_runtime_def write_runtime_def by (simp add: writes_intros)

lemma writes_snapshot: "writes (enc_snapshot s) (write_snapshot s)"
  unfolding enc_snapshot_def write_snapshot_def by (intro writes_intros)

lemmas enc_defs = enc_optional_def enc_task_def enc_group_def enc_cursor_def enc_thread_def

lemma enc_lengths [simp]:
  "length cs \<le> length (concat (map enc_optional cs)) + n"
  "length ts \<le> length (concat (map enc_task ts)) + n"
  "length gs \<le> length (concat (map enc_group gs)) + n"
  "length fs \<le> length (concat (map enc_cursor fs)) + n"
  "length hs \<le> length (concat (map enc_thread hs)) + n"
  by (rule trans_le_add1, rule length_le_concat, auto simp: enc_defs)+

lemma magic_distinct: "MAGIC \<noteq> RUNTIME_MAGIC"
  by (simp add: MAGIC_def RUNTIME_MAGIC_def)

lemma read_enc_currents [read_back]:
  "reader_loop read_current_step (length cs) [] (reader_at pre (concat (map enc_optional cs) @ rest)) =
     Inr (cs, reader_at (pre @ concat (map enc_optional cs)) rest)"
  using optional_codec.loop_enc [of cs "\<lambda>_ _. False" "[]" read_current_step "\<lambda>ys. ys"]
  by (simp add: read_current_step_def)

lemma read_enc_tasks [read_back]:
  assumes "distinct (map tk_id ts)" and "\<forall>t\<in>set ts. task_valid t"
  shows "reader_loop read_task_step (length ts) [] (reader_at pre (concat (map enc_task ts) @ rest)) =
     Inr (ts, reader_at (pre @ concat (map enc_task ts)) rest)"
proof -
  have "task_valid t \<and> \<not> list_ex (\<lambda>other. tk_id other = tk_id t) us" if "ts = us @ t # vs" for us t vs
    using assms that by (auto simp: list_ex_iff image_iff)
  then show ?thesis
    using task_codec.loop_enc [of ts "\<lambda>ts t. list_ex (\<lambda>other. tk_id other = tk_id t) ts" "[]"
        read_task_step "\<lambda>ys. ys" bad]
    by (simp add: read_task_step_def)
qed

lemma read_enc_groups [read_back]:
  assumes "distinct (map rg_id gs)" and "\<forall>g\<in>set gs. group_valid g"
  shows "reader_loop read_group_step (length gs) [] (reader_at pre (concat (map enc_group gs) @ rest)) =
     Inr (gs, reader_at (pre @ concat (map enc_group gs)) rest)"
proof -
  let ?ko = "\<lambda>gs g. rg_id g = 0 \<or> rg_cpu_shares g = 0 \<or> rg_max_utilization_permille g > 1000 \<or>
        list_ex (\<lambda>other. rg_id other = rg_id g) gs"
  have "\<not> ?ko us g" if "gs = us @ g # vs" for us g vs
    using assms that by (auto simp: list_ex_iff image_iff group_valid_def not_less)
  then show ?thesis
    using group_codec.loop_enc [of gs ?ko "[]" read_group_step "\<lambda>ys. ys" bad]
    by (simp add: read_group_step_def)
qed

lemma read_enc_cursors [read_back]:
  assumes "\<forall>c\<in>set cs. cursor_valid c"
  shows "reader_loop read_cursor_step (length cs) [] (reader_at pre (concat (map enc_cursor cs) @ rest)) =
     Inr (cs, reader_at (pre @ concat (map enc_cursor cs)) rest)"
  using cursor_codec.loop_enc [of cs "\<lambda>_ _. False" "[]" read_cursor_step "\<lambda>ys. ys"] assms
  by (simp add: read_cursor_step_def)

lemma read_enc_bitmap [read_back]:
  assumes "length ws = FAIR_PRIORITY_WORDS"
  shows "reader_loop read_bitmap_step FAIR_PRIORITY_WORDS [] (reader_at pre (enc_words ws @ rest)) =
     Inr (ws, reader_at (pre @ enc_words ws) rest)"
  using word_codec.loop_enc [of ws "\<lambda>_ _. False" "[]" read_bitmap_step "\<lambda>ys. ys"] assms
  by (simp add: read_bitmap_step_def enc_words_def enc_word_def)

text \<open>Reading threads rebuilds the accounting one registration at a time.\<close>

lemma read_thread_step_eq:
  assumes "\<And>n. al ReserveThreads n"
  shows "read_thread_step al (a\<lparr> ac_threads := ys \<rparr>) r =
    and_then (read_thread r) (\<lambda>(t, r).
      if fst t = 0 \<or> fst (snd t) = 0 \<or> list_ex (\<lambda>u. fst u = fst t) ys then Inl bad
      else Inr (a\<lparr> ac_threads := ys @ [t] \<rparr>, r))"
  using assms by (auto simp: read_thread_step_def register_def set_last_cpu_def intro!: and_then_cong)

lemma read_enc_threads:
  assumes al: "\<And>n. al ReserveThreads n" and d: "distinct (map fst ts)"
    and nz: "\<forall>(i, process, _)\<in>set ts. i \<noteq> 0 \<and> process \<noteq> 0" and a: "ac_threads a = []"
  shows "reader_loop (read_thread_step al) (length ts) a
      (reader_at pre (concat (map enc_thread ts) @ rest)) =
     Inr (a\<lparr> ac_threads := ts \<rparr>, reader_at (pre @ concat (map enc_thread ts)) rest)"
proof -
  let ?ko = "\<lambda>ys t. fst t = 0 \<or> fst (snd t) = 0 \<or> list_ex (\<lambda>u. fst u = fst t) ys"
  have a0: "a\<lparr> ac_threads := [] \<rparr> = a" using a by simp
  have "\<not> ?ko us t" if "ts = us @ t # vs" for us t vs
    using d nz that by (auto simp: list_ex_iff image_iff)
  then show ?thesis
    using thread_codec.loop_enc [of ts ?ko "[]" "read_thread_step al" "\<lambda>ys. a\<lparr> ac_threads := ys \<rparr>" bad]
    by (simp add: read_thread_step_eq [where al = al, OF al] a0)
qed

lemma read_enc_runtime:
  assumes al: "\<And>n. al ReserveThreads n" and v: "threads_valid s" "\<not> ac_legacy (sc_runtime s)"
  shows "read_runtime al RUNTIME_MAGIC (sc_tasks s) (reader_at pre (enc_runtime (sc_runtime s) @ rest)) =
    Inr (sc_runtime s, reader_at (pre @ enc_runtime (sc_runtime s)) rest)"
proof -
  have eq: "accounting_new\<lparr> ac_legacy := False, ac_last_ns := ac_last_ns a, ac_threads := ac_threads a \<rparr> = a"
    if "\<not> ac_legacy a" for a using that by (cases a) (simp add: accounting_new_def)
  have new: "ac_threads accounting_new = []" by (simp add: accounting_new_def)
  from v have "length (ac_threads (sc_runtime s)) \<le> 262144" "distinct (map fst (ac_threads (sc_runtime s)))"
      "\<forall>(i, process, _)\<in>set (ac_threads (sc_runtime s)). i \<noteq> 0 \<and> process \<noteq> 0"
      "list_all (registered (sc_runtime s)) (sc_tasks s)"
    by (simp_all add: threads_valid_def)
  then show ?thesis
    using v(2) magic_distinct
    by (simp add: read_runtime_def enc_runtime_def Let_def read_back read_enc_threads [where al = al, OF al] new eq)
qed

lemma read_enc_snapshot:
  assumes v: "snapshot_valid s" "\<not> ac_legacy (sc_runtime s)"
    and al: "\<And>n. al ReserveThreads n" "\<And>n. al ReserveCurrent n"
  shows "read_snapshot al (reader_at pre (enc_snapshot s @ rest)) =
    Inr (s, reader_at (pre @ enc_snapshot s) rest)"
proof -
  let ?n = "length (sc_current_task_ids s)"
  note V = v(1) [unfolded snapshot_valid_def]
  have wc: "with_cpu_count al ?n = Inr (scheduler_empty\<lparr> sc_current_task_ids := replicate ?n None \<rparr>)"
    using V al by (auto simp: with_cpu_count_def)
  have eq: "scheduler_empty\<lparr> sc_tasks := sc_tasks s, sc_runtime := sc_runtime s,
     sc_groups := sc_groups s, sc_fair_task_cursors := sc_fair_task_cursors s,
     sc_current_task_ids := sc_current_task_ids s, sc_total_ticks := sc_total_ticks s,
     sc_now_ns := sc_now_ns s, sc_fair_ready_bitmap := sc_fair_ready_bitmap s \<rparr> = s"
    by (cases s) (simp add: scheduler_empty_def)
  have sel: "sc_tasks scheduler_empty = []" "sc_groups scheduler_empty = []"
    "sc_fair_task_cursors scheduler_empty = []" by (simp_all add: scheduler_empty_def)
  have "?n < 2 ^ 64" "?n \<noteq> 0" using V by (auto simp: MAX_CPUS_def)
  then show ?thesis
    using V v(2) magic_distinct
    by (simp add: read_snapshot_def enc_snapshot_def read_back wc sel Let_def eq
        read_enc_runtime [where al = al, OF al(1)])
qed

interpretation snapshot_codec: codec enc_snapshot write_snapshot "read_snapshot (\<lambda>_ _. True)"
    "\<lambda>s. snapshot_valid s \<and> \<not> ac_legacy (sc_runtime s)"
  by unfold_locales (simp_all add: writes_snapshot read_enc_snapshot)

lemma list_ex_key: "list_ex (\<lambda>y. k y = v) xs \<longleftrightarrow> v \<in> k ` set xs"
  by (auto simp: list_ex_iff)

section \<open>What a reader accepts\<close>

named_theorems accepted \<open>what is true of a value that was read\<close>

lemma reader_loop_invariant:
  assumes "reader_loop f n s r = Inr (s', r')" and "I 0 s"
    and "\<And>k s r s' r'. I k s \<Longrightarrow> f s r = Inr (s', r') \<Longrightarrow> I (Suc k) s'"
  shows "I n s'"
proof -
  have "I (k + n) s'" if "I k s" "reader_loop f n s r = Inr (s', r')" for k
    using that
  proof (induction n arbitrary: k s r)
    case (Suc n)
    then obtain t q where "f s r = Inr (t, q)" "reader_loop f n t q = Inr (s', r')"
      by (auto simp: and_then_Inr)
    with Suc assms(3) show ?case by (metis add_Suc_shift)
  qed simp
  from this [OF assms(2,1)] show ?thesis by simp
qed

lemma reader_count_accepted [accepted]: "reader_count bound r = Inr (n, r') \<Longrightarrow> n \<le> bound"
  by (auto simp: reader_count_def and_then_Inr Let_def split: if_splits)

lemma reader_bytes_accepted [accepted]: "reader_bytes n r = Inr (bs, r') \<Longrightarrow> length bs = n"
  by (auto simp: reader_bytes_def Let_def split: if_splits)

lemma read_deadline_accepted [accepted]:
  "read_deadline r = Inr (v, r') \<Longrightarrow> case v of None \<Rightarrow> True | Some d \<Rightarrow> deadline_ok d"
  by (auto simp: read_deadline_def and_then_Inr Let_def deadline_ok_def split: if_splits)

lemma read_wait_many_accepted:
  assumes "read_wait_many r = Inr (v, r')"
  shows "\<exists>items n d. v = Some (WaitMany items n d) \<and> block_ok (WaitMany items n d)"
proof -
  from assms obtain n d items r1 r2 where v: "v = Some (WaitMany items (of_nat n) d)"
      and n: "n \<le> MAX_WAIT_MANY_ITEMS"
      and l: "reader_loop read_wait_item MAX_WAIT_MANY_ITEMS [] r1 = Inr (items, r2)"
    by (auto simp: read_wait_many_def and_then_Inr dest!: accepted)
  have "length items = MAX_WAIT_MANY_ITEMS"
    by (rule reader_loop_invariant [OF l, where I = "\<lambda>k xs. length xs = k"])
      (auto simp: read_wait_item_def and_then_Inr)
  with n have "block_ok (WaitMany items (of_nat n) d)"
    by (simp add: block_ok_def MAX_WAIT_MANY_ITEMS_def unsigned_of_nat take_bit_nat_eq_self)
  with v show ?thesis by blast
qed

lemma read_block_reason_accepted [accepted]:
  "read_block_reason r = Inr (v, r') \<Longrightarrow> case v of None \<Rightarrow> True | Some b \<Rightarrow> block_ok b"
  by (auto simp: read_block_reason_def and_then_Inr block_ok_def split: if_splits
      dest: read_wait_many_accepted)

lemma read_assigned_accepted:
  "case map_option (unat :: u8 \<Rightarrow> nat) v of None \<Rightarrow> True | Some c \<Rightarrow> c < 256"
  using unsigned_less [where 'b = 8] by (cases v) simp_all

lemma read_task_accepted:
  assumes "read_task r = Inr (t, r')"
  shows "task_valid t"
proof -
  from assms obtain r1 r2 r3 r4 r5 r6 r7 r8 nm and a :: "u8 option" where
    "read_deadline r1 = Inr (tk_deadline t, r2)" "read_block_reason r3 = Inr (tk_block_reason t, r4)"
    "reader_count MAX_TASK_NAME r5 = Inr (tk_name_len t, r6)" "reader_bytes (tk_name_len t) r7 = Inr (nm, r8)"
    "tk_name t = nm @ replicate (MAX_TASK_NAME - tk_name_len t) 0" "tk_assigned_cpu t = map_option unat a"
    "tk_id t \<noteq> 0" "tk_process_id t \<noteq> 0" "tk_resource_group_id t \<noteq> 0" "tk_fair_weight t \<noteq> 0" "tk_name_len t \<noteq> 0"
    unfolding read_task_def
    by (auto simp: and_then_Inr split: if_splits)
  then show ?thesis
    unfolding task_valid_def using read_assigned_accepted [of a]
    by (auto dest!: accepted)
qed

lemma read_tasks_accepted:
  assumes "reader_loop read_task_step n [] r = Inr (ts, r')"
  shows "length ts = n \<and> distinct (map tk_id ts) \<and> (\<forall>t\<in>set ts. task_valid t)"
  by (rule reader_loop_invariant [OF assms, where I = "\<lambda>k ts. length ts = k \<and> distinct (map tk_id ts) \<and>
        (\<forall>t\<in>set ts. task_valid t)"])
    (auto simp: read_task_step_def and_then_Inr list_ex_key dest: read_task_accepted split: if_splits)

lemma read_groups_accepted:
  assumes "reader_loop read_group_step n [] r = Inr (gs, r')"
  shows "length gs = n \<and> distinct (map rg_id gs) \<and> (\<forall>g\<in>set gs. group_valid g)"
  by (rule reader_loop_invariant [OF assms, where I = "\<lambda>k gs. length gs = k \<and> distinct (map rg_id gs) \<and>
        (\<forall>g\<in>set gs. group_valid g)"])
    (auto simp: read_group_step_def and_then_Inr list_ex_key group_valid_def not_less split: if_splits)

lemma read_cursors_accepted:
  assumes "reader_loop read_cursor_step n [] r = Inr (cs, r')"
  shows "length cs = n \<and> (\<forall>c\<in>set cs. cursor_valid c)"
proof (rule reader_loop_invariant [OF assms, where I = "\<lambda>k cs. length cs = k \<and> (\<forall>c\<in>set cs. cursor_valid c)"])
  fix k cs r cs' r' assume "length cs = k \<and> (\<forall>c\<in>set cs. cursor_valid c)" "read_cursor_step cs r = Inr (cs', r')"
  moreover have "unat (p :: u8) < 256" for p using unsigned_less [of p] by simp
  ultimately show "length cs' = Suc k \<and> (\<forall>c\<in>set cs'. cursor_valid c)"
    by (auto simp: read_cursor_step_def read_cursor_def and_then_Inr cursor_valid_def)
qed simp

lemma read_words_accepted:
  assumes "reader_loop read_bitmap_step n [] r = Inr (ws, r')"
  shows "length ws = n"
  by (rule reader_loop_invariant [OF assms, where I = "\<lambda>k ws. length ws = k"])
    (auto simp: read_bitmap_step_def and_then_Inr)

lemma read_currents_accepted:
  assumes "reader_loop read_current_step n [] r = Inr (cs, r')"
  shows "length cs = n"
  by (rule reader_loop_invariant [OF assms, where I = "\<lambda>k cs. length cs = k"])
    (auto simp: read_current_step_def and_then_Inr)

definition threads_good :: "(u64 \<times> u64 \<times> u64) list \<Rightarrow> bool" where
  "threads_good ts \<longleftrightarrow> distinct (map fst ts) \<and> (\<forall>(i, process, _)\<in>set ts. i \<noteq> 0 \<and> process \<noteq> 0)"

lemma threads_good_Nil [simp]: "threads_good []"
  by (simp add: threads_good_def)

lemma read_thread_step_accepted:
  assumes "read_thread_step al a r = Inr (a', r')" and "threads_good (ac_threads a)"
  shows "threads_good (ac_threads a') \<and> length (ac_threads a') = Suc (length (ac_threads a))"
  using assms
  by (auto simp: read_thread_step_def and_then_Inr register_def set_last_cpu_def threads_good_def
      list_ex_key split: if_splits)

lemma register_tasks_accepted:
  assumes "register_tasks al ts a = Inr a'" and "threads_good (ac_threads a)"
    and "\<forall>t\<in>set ts. tk_id t \<noteq> 0 \<and> tk_process_id t \<noteq> 0"
  shows "threads_good (ac_threads a') \<and>
    ac_threads a' = ac_threads a @ map (\<lambda>t. (tk_id t, tk_process_id t, 0)) ts"
  using assms
proof (induction ts arbitrary: a)
  case (Cons t ts)
  then obtain b where b: "register al a (tk_id t) (tk_process_id t) = (b, Inr ())"
      and rest: "register_tasks al ts b = Inr a'"
    by (auto split: prod.splits sum.splits)
  from b have t: "ac_threads b = ac_threads a @ [(tk_id t, tk_process_id t, 0)]"
      "\<not> list_ex (\<lambda>u. fst u = tk_id t) (ac_threads a)"
    by (auto simp: register_def split: if_splits)
  with Cons.prems have "threads_good (ac_threads b)"
    by (auto simp: threads_good_def list_ex_key)
  with Cons.IH [OF rest] Cons.prems have "threads_good (ac_threads a')"
      "ac_threads a' = ac_threads b @ map (\<lambda>t. (tk_id t, tk_process_id t, 0)) ts" by auto
  then show ?case by (simp add: t)
qed simp

lemma read_runtime_accepted:
  assumes r: "read_runtime al magic ts r = Inr (a, r')"
    and ts: "length ts \<le> 262144" "\<forall>t\<in>set ts. task_valid t"
  shows "length (ac_threads a) \<le> 262144 \<and> threads_good (ac_threads a) \<and> list_all (registered a) ts"
proof (cases "magic = RUNTIME_MAGIC")
  case True
  with r obtain n r1 r2 r3 l where n: "n \<le> 262144" "list_all (registered a) ts"
      and loop: "reader_loop (read_thread_step al) n
        (accounting_new\<lparr> ac_legacy := (magic = MAGIC), ac_last_ns := l \<rparr>) r1 = Inr (a, r2)"
    by (auto simp: read_runtime_def and_then_Inr Let_def split: if_splits dest!: reader_count_accepted)
  have "threads_good (ac_threads a) \<and> length (ac_threads a) = n"
    by (rule reader_loop_invariant [OF loop,
          where I = "\<lambda>k a. threads_good (ac_threads a) \<and> length (ac_threads a) = k"])
      (auto simp: accounting_new_def dest: read_thread_step_accepted)
  with n show ?thesis by simp
next
  case False
  with r have "register_tasks al ts (accounting_new\<lparr> ac_legacy := (magic = MAGIC) \<rparr>) = Inr a"
    by (auto simp: read_runtime_def and_then_Inr Let_def)
  from register_tasks_accepted [OF this] ts
  have "threads_good (ac_threads a)" "ac_threads a = map (\<lambda>t. (tk_id t, tk_process_id t, 0)) ts"
    by (auto simp: accounting_new_def task_valid_def)
  with ts show ?thesis by (auto simp: registered_def list_all_iff list_ex_iff)
qed

lemma read_snapshot_accepted:
  assumes "read_snapshot al r = Inr (s, r')"
  shows "snapshot_valid s"
proof -
  from assms obtain magic n1 n2 n3 n4 r1 r2 r3 r4 r5 r6 r7 r8 r9 r10 r11 r12 where
      n: "n1 \<noteq> 0" "n1 \<le> MAX_CPUS" "n2 \<le> 262144" "n3 \<le> 262144" "n4 \<le> 262144"
    and cs: "reader_loop read_current_step n1 [] r1 = Inr (sc_current_task_ids s, r2)"
    and ts: "reader_loop read_task_step n2 [] r3 = Inr (sc_tasks s, r4)"
    and gs: "reader_loop read_group_step n3 [] r5 = Inr (sc_groups s, r6)"
    and fs: "reader_loop read_cursor_step n4 [] r7 = Inr (sc_fair_task_cursors s, r8)"
    and ws: "reader_loop read_bitmap_step FAIR_PRIORITY_WORDS [] r9 = Inr (sc_fair_ready_bitmap s, r10)"
    and rt: "read_runtime al magic (sc_tasks s) r11 = Inr (sc_runtime s, r12)"
    and ch: "snapshot_checks s"
    unfolding read_snapshot_def
    by (auto simp: and_then_Inr with_cpu_count_def scheduler_empty_def Let_def
        split: if_splits dest!: reader_count_accepted)
  note T = read_tasks_accepted [OF ts]
  have "length (sc_tasks s) \<le> 262144" using T n by simp
  from read_runtime_accepted [OF rt this] T have "threads_valid s"
    by (simp add: threads_valid_def threads_good_def)
  with n T read_groups_accepted [OF gs] read_cursors_accepted [OF fs] read_words_accepted [OF ws]
    read_currents_accepted [OF cs] ch
  show ?thesis by (simp add: snapshot_valid_def)
qed

end
