(* ===== verification/Snapshot_Roundtrip.thy ===== *)
theory Snapshot_Roundtrip
  imports Snapshot_Codec Sched_Behave
begin

text \<open>
  The scheduler survives a kernel replacement: every state the scheduler can
  reach is read back from its snapshot. The reader's checks are then measured
  against the scheduler's invariant: what they guarantee, and what they leave out.
\<close>

section \<open>The scheduler's invariant covers the reader's checks\<close>

text \<open>The reader's limits on vector lengths.\<close>

definition snapshot_fits :: "scheduler \<Rightarrow> bool" where
  "snapshot_fits s \<longleftrightarrow>
     length (sc_tasks s) \<le> 262144 \<and> length (sc_fair_task_cursors s) \<le> 262144 \<and>
     length (ac_threads (sc_runtime s)) \<le> 262144"

lemma length_cursors:
  assumes "cursors_ok s"
  shows "length (sc_fair_task_cursors s) = length (sc_groups s) * length (sc_current_task_ids s)"
proof -
  have "length (cursor_keys s) = length (sc_groups s) * length (sc_current_task_ids s)"
    using assms unfolding cursors_ok_def by (simp add: length_concat comp_def sum_list_triv)
  then show ?thesis by (simp add: cursor_keys_def)
qed

lemma cursors_ok_valid:
  assumes "cursors_ok s" and "cpus_ok s" and "c \<in> set (sc_fair_task_cursors s)"
  shows "cursor_valid c"
proof -
  from assms(3) have "(fst c, fst (snd c)) \<in> set (cursor_keys s)"
    unfolding cursor_keys_def set_map by (intro image_eqI [of _ _ c]) (simp add: case_prod_unfold)
  with assms(1,2) show ?thesis
    unfolding cursors_ok_def by (auto simp: cursor_valid_def cpus_ok_def MAX_CPUS_def)
qed

lemma task_ok_valid:
  assumes t: "task_ok s t" and g: "groups_ok (sc_groups s)" and c: "cpus_ok s"
  shows "task_valid t"
proof -
  have "tk_resource_group_id t \<noteq> 0" using t g by (auto simp: task_ok_def groups_ok_def group_ok_def)
  moreover have "case tk_assigned_cpu t of None \<Rightarrow> True | Some c \<Rightarrow> c < 256"
    using t c by (auto simp: task_ok_def cpus_ok_def MAX_CPUS_def split: option.splits)
  ultimately show ?thesis using t by (simp add: task_ok_def task_valid_def)
qed

lemma threads_ok_valid:
  assumes "threads_ok s" and "\<And>t. t \<in> set (sc_tasks s) \<Longrightarrow> task_ok s t"
    and "length (ac_threads (sc_runtime s)) \<le> 262144"
  shows "threads_valid s"
proof -
  have "map fst (thread_keys s) = map fst (ac_threads (sc_runtime s))"
    by (simp add: thread_keys_def case_prod_unfold)
  with assms(1) have "distinct (map fst (ac_threads (sc_runtime s)))" by (simp add: threads_ok_def)
  moreover have "registered (sc_runtime s) t" if "t \<in> set (sc_tasks s)" for t
    using assms(2) [OF that] by (auto simp: task_ok_def thread_keys_def registered_def list_ex_iff)
  moreover have "\<forall>(i, process, _)\<in>set (ac_threads (sc_runtime s)). i \<noteq> 0 \<and> process \<noteq> 0"
    using assms(1) by (auto simp: threads_ok_def thread_keys_def)
  ultimately show ?thesis using assms(3) by (simp add: threads_valid_def list_all_iff)
qed

lemma placed_slot_checks:
  assumes p: "sched_placed s"
  shows "slot_checks s"
proof -
  have "\<exists>t. task_of s i = Some t \<and> tk_state t = Running \<and> tk_cpu_affinity_mask t AND push_bit c 1 \<noteq> 0"
    if "c < length (sc_current_task_ids s)" "sc_current_task_ids s ! c = Some i" for c i
  proof -
    have "cur s c = Some i" using that by (simp add: cur_def)
    from task_of_slot [OF p this] show ?thesis by (metis task_can_run_on_cpu_def)
  qed
  then show ?thesis
    by (auto simp: slot_checks_def list_all_iff in_set_enumerate_eq split: option.split) (metis option.inject)+
qed

lemma inv_task_checks:
  assumes inv: "sched_inv s" and t: "t \<in> set (sc_tasks s)"
  shows "task_checks s t"
proof -
  note D = sched_invD [OF inv]
  have ok: "task_ok s t" using static_invD(1) [OF D(3) t] .
  let ?m = "tk_cpu_affinity_mask t" and ?a = "cpu_mask (length (sc_current_task_ids s))"
  have "?m = (?m AND ?a) OR (?m AND NOT ?a)" by (intro bit_word_eqI) (auto simp: bit_simps)
  with ok have "?m AND active_cpu_mask s \<noteq> 0"
    unfolding active_cpu_mask_eq [OF D(1)] by (metis or.right_neutral task_ok_def)
  moreover have "tk_state t = Running \<longrightarrow> Some (tk_id t) \<in> set (sc_current_task_ids s)"
    using placedD_running [OF D(2) t] by (metis nth_mem)
  ultimately show ?thesis
    using ok by (auto simp: task_ok_def task_checks_def list_ex_key)
qed

lemma sched_inv_snapshot_valid:
  assumes inv: "sched_inv s" and fits: "snapshot_fits s"
  shows "snapshot_valid s"
proof -
  note D = sched_invD [OF inv] and S = static_invD [OF sched_invD(3) [OF inv]]
  have n: "1 \<le> length (sc_current_task_ids s)" "length (sc_current_task_ids s) \<le> MAX_CPUS"
    using D(1) by (auto simp: cpus_ok_def)
  have "length (sc_groups s) \<le> length (sc_fair_task_cursors s)"
    unfolding length_cursors [OF S(4)] using n(1) by (cases "length (sc_current_task_ids s)") auto
  then have "length (sc_groups s) \<le> 262144" using fits by (simp add: snapshot_fits_def)
  moreover have "\<forall>t\<in>set (sc_tasks s). task_valid t" using task_ok_valid [OF S(1,2) D(1)] by blast
  moreover have "\<forall>g\<in>set (sc_groups s). group_valid g"
    using S(2) by (auto simp: groups_ok_def group_ok_def group_valid_def)
  moreover have "\<forall>c\<in>set (sc_fair_task_cursors s). cursor_valid c"
    using cursors_ok_valid [OF S(4) D(1)] by blast
  moreover have "threads_valid s"
    using threads_ok_valid [OF S(3,1)] fits by (simp add: snapshot_fits_def)
  moreover have "snapshot_checks s"
    using placed_slot_checks [OF D(2)] inv_task_checks [OF inv] by (simp add: snapshot_checks_def list_all_iff)
  ultimately show ?thesis
    using n D(5,6) S(6) fits by (simp add: snapshot_valid_def snapshot_fits_def)
qed

section \<open>Properties\<close>

text \<open>
  C15. A snapshot restores the scheduler exactly. In any state of the scheduler
  with at most 262144 tasks, cursors and threads, writing a snapshot into a
  buffer that can hold it succeeds, and reading the bytes written gives back
  the same state, every field of it, and consumes all bytes. A buffer that is
  too small is reported as such.
\<close>

theorem snapshot_roundtrip:
  assumes inv: "sched_inv s" "snapshot_fits s" "\<not> ac_legacy (sc_runtime s)"
    and al: "\<And>n. al ReserveThreads n" "\<And>n. al ReserveCurrent n"
  shows "if length (enc_snapshot s) \<le> length buffer
    then \<exists>w. write_snapshot s (writer_new buffer) = Inr w \<and>
             read_snapshot al (reader_new (written w)) = Inr (s, reader_at (written w) [])
    else write_snapshot s (writer_new buffer) = Inl PayloadTooLarge"
proof -
  note v = sched_inv_snapshot_valid [OF inv(1,2)]
  note wr = writesD [OF writes_snapshot writer_new_ok(1), of s buffer]
  have "read_snapshot al (reader_new (written w)) = Inr (s, reader_at (written w) [])"
    if "write_snapshot s (writer_new buffer) = Inr w" for w
  proof -
    from that snapshot_codec.write_read [of s buffer w] v inv(3) have "written w = enc_snapshot s" by simp
    with read_enc_snapshot [where al = al, OF v inv(3) al, where pre = "[]" and rest = "[]"] show ?thesis by (simp add: reader_at_new)
  qed
  moreover have "(\<exists>w. write_snapshot s (writer_new buffer) = Inr w) \<longleftrightarrow> length (enc_snapshot s) \<le> length buffer"
    using snapshot_codec.write_fits [of s buffer] v inv(3) by simp
  moreover have "write_snapshot s (writer_new buffer) = Inl PayloadTooLarge" if "length (enc_snapshot s) > length buffer"
    using that unfolding wr by (simp add: writer_bytes_def writer_new_def)
  ultimately show ?thesis by auto
qed

theorem snapshot_roundtrip_witness:
  "\<exists>w. write_snapshot demo_sleeper (writer_new (replicate (length (enc_snapshot demo_sleeper)) 0)) = Inr w \<and>
     read_snapshot (\<lambda>_ _. True) (reader_new (written w)) = Inr (demo_sleeper, reader_at (written w) [])"
proof -
  have "snapshot_fits demo_sleeper" "\<not> ac_legacy (sc_runtime demo_sleeper)"
    by (simp_all add: snapshot_fits_def demo_sleeper_def accounting_new_def)
  from snapshot_roundtrip [OF demo_sleeper_inv this, of "\<lambda>_ _. True"
      "replicate (length (enc_snapshot demo_sleeper)) 0"]
  show ?thesis by simp
qed

section \<open>What an accepted snapshot guarantees\<close>

lemma valid_slot:
  assumes "snapshot_valid s" and "cur s c = Some i"
  shows "\<exists>t. task_of s i = Some t \<and> tk_state t = Running \<and> task_can_run_on_cpu t c"
proof -
  from assms(2) have "(c, Some i) \<in> set (enumerate 0 (sc_current_task_ids s))"
    by (auto simp: cur_def in_set_enumerate_eq split: if_splits)
  with assms(1) show ?thesis
    by (fastforce simp: snapshot_valid_def snapshot_checks_def slot_checks_def list_all_iff task_can_run_on_cpu_def
        split: option.splits)
qed

lemma valid_placed:
  assumes v: "snapshot_valid s" and u: "slots_unique (sc_current_task_ids s)"
  shows "sched_placed s"
proof -
  have "\<exists>t\<in>set (sc_tasks s). tk_id t = i \<and> tk_state t = Running \<and> task_can_run_on_cpu t c"
    if "c < length (sc_current_task_ids s)" "sc_current_task_ids s ! c = Some i" for c i
  proof -
    from valid_slot [OF v, of c i] that obtain t where
      "task_of s i = Some t" "tk_state t = Running" "task_can_run_on_cpu t c" by (auto simp: cur_def)
    then show ?thesis by (auto simp: task_of_def dest!: find_Some_in)
  qed
  with v u show ?thesis
    by (auto simp: placed_def snapshot_valid_def snapshot_checks_def task_checks_def list_all_iff)
qed

lemma valid_task_ok:
  assumes v: "snapshot_valid s" and t: "t \<in> set (sc_tasks s)"
    and m: "tk_cpu_affinity_mask t AND NOT (cpu_mask (length (sc_current_task_ids s))) = 0"
  shows "task_ok s t"
proof -
  have "task_valid t" "task_checks s t" "registered (sc_runtime s) t"
    using v t by (auto simp: snapshot_valid_def snapshot_checks_def threads_valid_def list_all_iff)
  moreover from this have "tk_resource_group_id t \<in> rg_id ` set (sc_groups s)" "tk_cpu_affinity_mask t \<noteq> 0"
    "(tk_id t, tk_process_id t) \<in> set (thread_keys s)"
    by (force simp: task_checks_def registered_def thread_keys_def list_ex_iff)+
  ultimately show ?thesis using m by (simp add: task_valid_def task_checks_def task_ok_def)
qed

lemma valid_threads_ok: "snapshot_valid s \<Longrightarrow> threads_ok s"
  by (auto simp: snapshot_valid_def threads_valid_def threads_ok_def thread_keys_def comp_def case_prod_unfold)

text \<open>One task on both CPUs, in a group that is its own grandparent.\<close>

definition demo_double :: scheduler where
  "demo_double = scheduler_empty\<lparr>
     sc_tasks := [(demo_task 1 5 9)\<lparr> tk_state := Running \<rparr>],
     sc_runtime := accounting_new\<lparr> ac_threads := [(1, 7, 0)] \<rparr>,
     sc_groups := [(demo_group 5 0)\<lparr> rg_parent_id := Some 6 \<rparr>, (demo_group 6 0)\<lparr> rg_parent_id := Some 5 \<rparr>],
     sc_current_task_ids := [Some 1, Some 1] \<rparr>"

lemmas snapshot_eval = snapshot_valid_def MAX_CPUS_def task_valid_def group_valid_def threads_valid_def
  registered_def snapshot_checks_def slot_checks_def task_checks_def task_of_def active_cpu_mask_def
  cpu_count_def cpu_mask_def max_of_def FAIR_PRIORITY_WORDS_def

lemma demo_double_valid: "snapshot_valid demo_double" "\<not> ac_legacy (sc_runtime demo_double)"
  by (simp_all add: demo_double_def demo_state_eval snapshot_eval)

text \<open>
  C16. What the reader guarantees about a state it accepts, whatever the bytes. The
  current task of a CPU exists, is running and may run there, and a running task is
  the current task of some CPU. Beyond that, the accepted state satisfies the
  scheduler's invariant exactly when it meets seven conditions, which the
  reader does not check: no task is current on two CPUs; the parent of a group
  exists; the parent links have no cycle; the affinity masks name no CPU that is
  not there; there is one cursor per group and CPU, in order; the admitted deadline
  utilization is at most the whole; and the groups' counts of runnable tasks
  are right.
\<close>

theorem snapshot_reader_sound:
  assumes "read_snapshot al r = Inr (s, r')"
  shows "(\<forall>c i. cur s c = Some i \<longrightarrow>
      (\<exists>t. task_of s i = Some t \<and> tk_state t = Running \<and> bit (tk_cpu_affinity_mask t) c)) \<and>
    (\<forall>t\<in>set (sc_tasks s). tk_state t = Running \<longrightarrow> (\<exists>c. cur s c = Some (tk_id t))) \<and>
    (sched_inv s \<longleftrightarrow>
      (\<forall>c d i. cur s c = Some i \<and> cur s d = Some i \<longrightarrow> c = d) \<and>
      (\<forall>g\<in>set (sc_groups s). \<forall>p. rg_parent_id g = Some p \<longrightarrow> p \<in> rg_id ` set (sc_groups s)) \<and>
      groups_acyclic (sc_groups s) \<and>
      (\<forall>t\<in>set (sc_tasks s). tk_cpu_affinity_mask t AND NOT (cpu_mask (length (sc_current_task_ids s))) = 0) \<and>
      cursors_ok s \<and> admission_ok (sc_tasks s) \<and> runnable_ok s)" (is "_ \<and> _ \<and> (_ \<longleftrightarrow> ?unique \<and> ?parents \<and> ?rest)")
proof -
  note v = read_snapshot_accepted [OF assms]
  have unique: "slots_unique (sc_current_task_ids s) \<longleftrightarrow> ?unique"
    unfolding slots_unique_def cur_def by (metis option.distinct(1) not_None_eq)
  have "\<exists>c. cur s c = Some (tk_id t)" if "t \<in> set (sc_tasks s)" "tk_state t = Running" for t
  proof -
    have "Some (tk_id t) \<in> set (sc_current_task_ids s)"
      using v that by (auto simp: snapshot_valid_def snapshot_checks_def task_checks_def list_all_iff)
    then show ?thesis unfolding in_set_conv_nth cur_def by metis
  qed
  moreover have "?unique \<and> ?parents \<and> ?rest" if inv: "sched_inv s"
  proof -
    note D = sched_invD [OF inv] and S = static_invD [OF sched_invD(3) [OF inv]]
    have "slots_unique (sc_current_task_ids s)" using D(2) by (simp add: placed_def)
    with D S inv show ?thesis
      unfolding unique by (auto simp: groups_ok_def group_ok_def task_ok_def sched_inv_def)
  qed
  moreover have "sched_inv s" if w: "?unique \<and> ?parents \<and> ?rest"
  proof -
    have "groups_ok (sc_groups s)"
      using v w by (auto simp: groups_ok_def group_ok_def snapshot_valid_def group_valid_def split: option.splits)
    moreover have "cpus_ok s" "length (sc_fair_ready_bitmap s) = FAIR_PRIORITY_WORDS"
      using v by (auto simp: snapshot_valid_def cpus_ok_def)
    ultimately show ?thesis
      using w valid_placed [OF v] valid_task_ok [OF v] valid_threads_ok [OF v] unique
      by (simp add: sched_inv_def static_inv_def)
  qed
  ultimately show ?thesis using valid_slot [OF v] can_run_bit by blast
qed

theorem snapshot_reader_sound_witness:
  "read_snapshot (\<lambda>_ _. True) (reader_new (enc_snapshot demo_double)) =
     Inr (demo_double, reader_at (enc_snapshot demo_double) []) \<and>
   (\<exists>t. task_of demo_double 1 = Some t \<and> tk_state t = Running \<and> bit (tk_cpu_affinity_mask t) 1) \<and>
   \<not> sched_inv demo_double"
proof -
  have run: "read_snapshot (\<lambda>_ _. True) (reader_new (enc_snapshot demo_double)) =
      Inr (demo_double, reader_at (enc_snapshot demo_double) [])"
    using read_enc_snapshot [OF demo_double_valid, of "\<lambda>_ _. True" "[]" "[]"] by (simp add: reader_at_new)
  have c: "cur demo_double 0 = Some 1" "cur demo_double 1 = Some 1" by (simp_all add: demo_double_def cur_def)
  note p = snapshot_reader_sound [OF run]
  from p c(2) have "\<exists>t. task_of demo_double 1 = Some t \<and> tk_state t = Running \<and> bit (tk_cpu_affinity_mask t) 1" by blast
  moreover from p c have "\<not> sched_inv demo_double" by (metis zero_neq_one)
  ultimately show ?thesis using run by blast
qed

text \<open>
  C17. The reader does not check that a task is current on one CPU only, nor
  that the parent links of the groups end. There are bytes it accepts in full
  whose state runs the same task on both CPUs, and in which the quota walk
  that every scheduling decision makes does not return.
\<close>

theorem snapshot_reader_accepts_broken_state:
  "\<exists>bytes s. read_snapshot (\<lambda>_ _. True) (reader_new bytes) = Inr (s, reader_at bytes []) \<and>
     cur s 0 = Some 1 \<and> cur s 1 = Some 1 \<and> has_quota_walk (sc_groups s) (Some 5) = None"
proof -
  have "quota_trap (sc_groups demo_double) {5, 6}"
    by (simp add: quota_trap_def demo_double_def demo_group_def find_group_def quota_exhausted_def)
  then have "has_quota_walk (sc_groups demo_double) (Some 5) = None"
    by (rule has_quota_walk_trap) simp
  moreover have "cur demo_double 0 = Some 1" "cur demo_double 1 = Some 1"
    by (simp_all add: demo_double_def cur_def)
  moreover have "read_snapshot (\<lambda>_ _. True) (reader_new (enc_snapshot demo_double)) =
      Inr (demo_double, reader_at (enc_snapshot demo_double) [])"
    using read_enc_snapshot [OF demo_double_valid, of "\<lambda>_ _. True" "[]" "[]"] by (simp add: reader_at_new)
  ultimately show ?thesis by blast
qed

end
