(* ===== verification/Fifo.thy ===== *)
theory Fifo
  imports Kernel_Prelude
begin

text \<open>
  The contract of a bounded message queue. The kernel has two: the ring of
  fixed capacity behind \<open>ipc::Channel\<close> and the growing queue behind the
  channel objects of the kernel services. The clients only rely on the laws
  below: a successful push appends, a pop takes the oldest element, and a push
  without room or a pop of an empty queue changes nothing and reports an error.
\<close>

datatype 'a queue_op = Push 'a | Pop

text \<open>
  What a sequence of operations on a queue leaves: the queue, the elements
  accepted and the elements delivered, each in order.
\<close>

fun queue_run ::
    "('a \<Rightarrow> 'q \<Rightarrow> 'q \<times> ('e + unit)) \<Rightarrow> ('q \<Rightarrow> 'q \<times> ('e + 'a)) \<Rightarrow> 'a queue_op list \<Rightarrow> 'q
      \<Rightarrow> 'q \<times> 'a list \<times> 'a list" where
  "queue_run push pop [] q = (q, [], [])"
| "queue_run push pop (Push x # xs) q =
     (case push x q of (q1, r) \<Rightarrow> (case queue_run push pop xs q1 of (q2, ins, outs) \<Rightarrow>
        (q2, if is_ok r then x # ins else ins, outs)))"
| "queue_run push pop (Pop # xs) q =
     (case pop q of (q1, r) \<Rightarrow> (case queue_run push pop xs q1 of (q2, ins, outs) \<Rightarrow>
        (q2, ins, (case r of Inl _ \<Rightarrow> outs | Inr x \<Rightarrow> x # outs))))"

locale fifo =
  fixes ok :: "'q \<Rightarrow> bool"
    and contents :: "'q \<Rightarrow> 'a list"
    and room :: "'q \<Rightarrow> bool"
    and push :: "'a \<Rightarrow> 'q \<Rightarrow> 'q \<times> ('e + unit)"
    and pop :: "'q \<Rightarrow> 'q \<times> ('e + 'a)"
    and full :: 'e
    and empty :: 'e
  assumes push_room: "ok q \<Longrightarrow> room q \<Longrightarrow>
      \<exists>q'. push x q = (q', Inr ()) \<and> ok q' \<and> contents q' = contents q @ [x]"
    and push_full: "ok q \<Longrightarrow> \<not> room q \<Longrightarrow> push x q = (q, Inl full)"
    and pop_Cons: "ok q \<Longrightarrow> contents q = x # xs \<Longrightarrow>
      \<exists>q'. pop q = (q', Inr x) \<and> ok q' \<and> contents q' = xs"
    and pop_Nil: "ok q \<Longrightarrow> contents q = [] \<Longrightarrow> pop q = (q, Inl empty)"
begin

lemma push_cases:
  assumes "ok q"
  obtains q' where "room q" "push x q = (q', Inr ())" "ok q'" "contents q' = contents q @ [x]"
  | "\<not> room q" "push x q = (q, Inl full)" "ok q"
  using assms push_room push_full by blast

lemma pop_cases:
  assumes "ok q"
  obtains x xs q' where "contents q = x # xs" "pop q = (q', Inr x)" "ok q'" "contents q' = xs"
  | "contents q = []" "pop q = (q, Inl empty)" "ok q"
  using assms pop_Cons pop_Nil by (cases "contents q") blast+

lemma push_ok: "ok q \<Longrightarrow> ok (fst (push x q))"
  by (cases rule: push_cases [of q x]) auto

lemma pop_ok: "ok q \<Longrightarrow> ok (fst (pop q))"
  by (cases rule: pop_cases [of q]) auto

text \<open>Nothing is lost, duplicated or reordered.\<close>

lemma run_fifo:
  assumes "ok q" and "queue_run push pop xs q = (q', ins, outs)"
  shows "ok q' \<and> contents q @ ins = outs @ contents q'"
  using assms
proof (induction xs arbitrary: q ins outs)
  case (Cons x xs)
  show ?case
  proof (cases x)
    case (Push a)
    with Cons.prems obtain q1 r ins1 where p: "push a q = (q1, r)"
        and run: "queue_run push pop xs q1 = (q', ins1, outs)" and ins: "ins = (if is_ok r then a # ins1 else ins1)"
      by (auto split: prod.splits)
    from Cons.prems(1) show ?thesis
      by (cases rule: push_cases [of q a]) (use p Cons.IH [OF _ run] ins in auto)
  next
    case Pop
    with Cons.prems obtain q1 r outs1 where p: "pop q = (q1, r)"
        and run: "queue_run push pop xs q1 = (q', ins, outs1)"
        and outs: "outs = (case r of Inl _ \<Rightarrow> outs1 | Inr y \<Rightarrow> y # outs1)"
      by (auto split: prod.splits)
    from Cons.prems(1) show ?thesis
      by (cases rule: pop_cases [of q]) (use p Cons.IH [OF _ run] outs in auto)
  qed
qed simp

end

end
