(* ===== verification/Ipc_Ring.thy ===== *)
theory Ipc_Ring
  imports Fifo
begin

text \<open>
  The fixed-size channel of \<open>kernel/core/src/ipc.rs\<close>: messages of at most 64
  bytes with an optional capability, the ring \<open>Queue<N>\<close> and the two-way
  \<open>Channel<N>\<close>. The capacity \<open>N\<close>, a constant of the type in the source, is a
  parameter. The ring refines a bounded queue (locale \<open>fifo\<close>).
\<close>

section \<open>Messages\<close>

definition IPC_PAYLOAD_SIZE :: nat where "IPC_PAYLOAD_SIZE = 64"

datatype endpoint = A | B

record capability =
  cp_object_id :: u64
  cp_rights :: u32

record ipc_message =
  im_bytes :: "u8 list"
  im_len :: nat
  im_capability :: "capability option"

datatype ipc_error = IpcFull | IpcEmpty | IpcPayloadTooLarge

text \<open>The copy loop of \<open>Message::new\<close>.\<close>

function copy_payload :: "u8 list \<Rightarrow> nat \<Rightarrow> u8 list \<Rightarrow> u8 list" where
  "copy_payload payload index bytes =
     (if index < length payload
      then copy_payload payload (index + 1) (bytes[index := payload ! index]) else bytes)"
  by pat_completeness auto
termination
  by (relation "measure (\<lambda>(payload, index, _). length payload - index)") auto

declare copy_payload.simps [simp del]

definition message_new :: "u8 list \<Rightarrow> capability option \<Rightarrow> ipc_error + ipc_message" where
  "message_new payload cap =
     (if length payload > IPC_PAYLOAD_SIZE then Inl IpcPayloadTooLarge
      else Inr \<lparr> im_bytes = copy_payload payload 0 (replicate IPC_PAYLOAD_SIZE 0),
                 im_len = length payload, im_capability = cap \<rparr>)"

definition message_payload :: "ipc_message \<Rightarrow> u8 list" where
  "message_payload m = take (im_len m) (im_bytes m)"

section \<open>The ring\<close>

record ring =
  rq_entries :: "ipc_message option list"
  rq_head :: nat
  rq_tail :: nat
  rq_len :: nat

definition ring_new :: "nat \<Rightarrow> ring" where
  "ring_new N = \<lparr> rq_entries = replicate N None, rq_head = 0, rq_tail = 0, rq_len = 0 \<rparr>"

definition ring_push :: "nat \<Rightarrow> ipc_message \<Rightarrow> ring \<Rightarrow> ring \<times> (ipc_error + unit)" where
  "ring_push N m q =
     (if rq_len q = N then (q, Inl IpcFull)
      else (q\<lparr> rq_entries := (rq_entries q)[rq_tail q := Some m],
               rq_tail := (rq_tail q + 1) mod N,
               rq_len := rq_len q + 1 \<rparr>, Inr ()))"

definition ring_pop :: "nat \<Rightarrow> ring \<Rightarrow> ring \<times> (ipc_error + ipc_message)" where
  "ring_pop N q =
     (if rq_len q = 0 then (q, Inl IpcEmpty)
      else case rq_entries q ! rq_head q of
             None \<Rightarrow> (q, Inl IpcEmpty)
           | Some m \<Rightarrow> (q\<lparr> rq_entries := (rq_entries q)[rq_head q := None],
                           rq_head := (rq_head q + 1) mod N,
                           rq_len := rq_len q - 1 \<rparr>, Inr m))"

section \<open>The channel\<close>

record ring_channel =
  rc_to_a :: ring
  rc_to_b :: ring

definition channel_new :: "nat \<Rightarrow> ring_channel" where
  "channel_new N = \<lparr> rc_to_a = ring_new N, rc_to_b = ring_new N \<rparr>"

definition channel_send :: "nat \<Rightarrow> endpoint \<Rightarrow> ipc_message \<Rightarrow> ring_channel \<Rightarrow> ring_channel \<times> (ipc_error + unit)" where
  "channel_send N src m c =
     (case src of
        A \<Rightarrow> (case ring_push N m (rc_to_b c) of (q, r) \<Rightarrow> (c\<lparr> rc_to_b := q \<rparr>, r))
      | B \<Rightarrow> (case ring_push N m (rc_to_a c) of (q, r) \<Rightarrow> (c\<lparr> rc_to_a := q \<rparr>, r)))"

definition channel_receive :: "nat \<Rightarrow> endpoint \<Rightarrow> ring_channel \<Rightarrow> ring_channel \<times> (ipc_error + ipc_message)" where
  "channel_receive N dst c =
     (case dst of
        A \<Rightarrow> (case ring_pop N (rc_to_a c) of (q, r) \<Rightarrow> (c\<lparr> rc_to_a := q \<rparr>, r))
      | B \<Rightarrow> (case ring_pop N (rc_to_b c) of (q, r) \<Rightarrow> (c\<lparr> rc_to_b := q \<rparr>, r)))"

section \<open>The payload of a message\<close>

lemma copy_payload_eq:
  assumes "length payload \<le> length bytes" and "index \<le> length payload"
  shows "copy_payload payload index bytes = take index bytes @ drop index payload @ drop (length payload) bytes"
  using assms
proof (induction payload index bytes rule: copy_payload.induct)
  case (1 payload index bytes)
  show ?case
  proof (cases "index < length payload")
    case True
    with 1 have "copy_payload payload index bytes =
        take (index + 1) (bytes[index := payload ! index]) @ drop (index + 1) payload @ drop (length payload) bytes"
      by (subst copy_payload.simps) simp
    moreover have "take (index + 1) (bytes[index := payload ! index]) = take index bytes @ [payload ! index]"
      using True 1 by (simp add: take_Suc_conv_app_nth)
    moreover have "[payload ! index] @ drop (index + 1) payload = drop index payload"
      using True by (simp add: Cons_nth_drop_Suc)
    ultimately show ?thesis by simp
  next
    case False
    with 1 show ?thesis by (subst copy_payload.simps) simp
  qed
qed

section \<open>The ring is a queue\<close>

text \<open>The slot of the \<open>i\<close>-th oldest message, and the messages in order.\<close>

definition ring_slot :: "nat \<Rightarrow> nat \<Rightarrow> nat \<Rightarrow> nat" where
  "ring_slot N head i = (head + i) mod N"

definition ring_contents :: "nat \<Rightarrow> ring \<Rightarrow> ipc_message list" where
  "ring_contents N q = map (\<lambda>i. the (rq_entries q ! ring_slot N (rq_head q) i)) [0..<rq_len q]"

definition ring_ok :: "nat \<Rightarrow> ring \<Rightarrow> bool" where
  "ring_ok N q \<longleftrightarrow>
     length (rq_entries q) = N \<and> rq_len q \<le> N \<and> rq_tail q = ring_slot N (rq_head q) (rq_len q) \<and>
     (0 < N \<longrightarrow> rq_head q < N) \<and> (\<forall>i<rq_len q. rq_entries q ! ring_slot N (rq_head q) i \<noteq> None)"

lemma ring_slot_inj:
  assumes "i < N" and "j < N" and "ring_slot N h i = ring_slot N h j"
  shows "i = j"
proof -
  have "i \<le> j" if "i < N" "(h + i) mod N = (h + j) mod N" for i j h
  proof (rule ccontr)
    assume "\<not> i \<le> j"
    then have "N dvd i - j" using that mod_eq_dvd_iff_nat [of "h + j" "h + i" N] by simp
    with \<open>\<not> i \<le> j\<close> \<open>i < N\<close> show False by (auto dest: dvd_imp_le)
  qed
  from this [of i h j] this [of j h i] assms show ?thesis
    by (auto simp: ring_slot_def)
qed

lemma ring_slot_less: "0 < N \<Longrightarrow> ring_slot N h i < N"
  by (simp add: ring_slot_def)

lemma ring_new_ok: "ring_ok N (ring_new N)" "ring_contents N (ring_new N) = []"
  by (auto simp: ring_ok_def ring_new_def ring_slot_def ring_contents_def)

lemma ring_push_room:
  assumes ok: "ring_ok N q" and room: "rq_len q < N"
  shows "\<exists>q'. ring_push N m q = (q', Inr ()) \<and> ring_ok N q' \<and> ring_contents N q' = ring_contents N q @ [m]"
proof -
  let ?n = "rq_len q"
  let ?q = "q\<lparr> rq_entries := (rq_entries q)[rq_tail q := Some m],
               rq_tail := (rq_tail q + 1) mod N, rq_len := ?n + 1 \<rparr>"
  have tail: "rq_tail q = ring_slot N (rq_head q) ?n" and len: "length (rq_entries q) = N"
    using ok by (auto simp: ring_ok_def)
  have old: "(rq_entries q)[rq_tail q := Some m] ! ring_slot N (rq_head q) i = rq_entries q ! ring_slot N (rq_head q) i" if "i < ?n" for i
  proof -
    have "ring_slot N (rq_head q) i \<noteq> ring_slot N (rq_head q) ?n" using ring_slot_inj [of i N ?n "rq_head q"] that room by auto
    then show ?thesis by (simp add: tail)
  qed
  have new: "(rq_entries q)[rq_tail q := Some m] ! ring_slot N (rq_head q) ?n = Some m"
    using room ring_slot_less [of N "rq_head q" ?n] by (simp add: tail len)
  have "(rq_tail q + 1) mod N = ring_slot N (rq_head q) (?n + 1)"
    by (simp add: tail ring_slot_def mod_Suc_eq)
  then have "ring_ok N ?q"
    using ok room old new by (auto simp: ring_ok_def less_Suc_eq)
  moreover have "ring_contents N ?q = ring_contents N q @ [m]"
    using old new by (simp add: ring_contents_def)
  ultimately show ?thesis using room by (auto simp: ring_push_def)
qed

lemma ring_pop_Cons:
  assumes ok: "ring_ok N q" and c: "ring_contents N q = x # xs"
  shows "\<exists>q'. ring_pop N q = (q', Inr x) \<and> ring_ok N q' \<and> ring_contents N q' = xs"
proof -
  obtain n where n: "rq_len q = Suc n" using c by (cases "rq_len q") (auto simp: ring_contents_def)
  let ?q = "q\<lparr> rq_entries := (rq_entries q)[rq_head q := None], rq_head := (rq_head q + 1) mod N,
               rq_len := n \<rparr>"
  have N: "0 < N" "n < N" and len: "length (rq_entries q) = N" and h: "rq_head q < N"
    using ok n by (auto simp: ring_ok_def)
  have head: "ring_slot N (rq_head q) 0 = rq_head q" using h by (simp add: ring_slot_def)
  have slot: "ring_slot N (Suc (rq_head q) mod N) i = ring_slot N (rq_head q) (Suc i)" for i
    by (simp add: ring_slot_def mod_add_left_eq)
  have old: "(rq_entries q)[rq_head q := None] ! ring_slot N (rq_head q) (Suc i) = rq_entries q ! ring_slot N (rq_head q) (Suc i)"
    if "i < n" for i
  proof -
    have "ring_slot N (rq_head q) (Suc i) \<noteq> rq_head q"
      using ring_slot_inj [of "Suc i" N 0 "rq_head q"] that N by (auto simp: head)
    then show ?thesis by simp
  qed
  have "rq_entries q ! ring_slot N (rq_head q) 0 \<noteq> None" using ok n by (simp add: ring_ok_def)
  then have "rq_entries q ! rq_head q \<noteq> None" by (simp add: head)
  moreover have cs: "ring_contents N q = the (rq_entries q ! rq_head q) #
      map (\<lambda>i. the (rq_entries q ! ring_slot N (rq_head q) (Suc i))) [0..<n]"
    unfolding ring_contents_def n upt_conv_Cons [OF zero_less_Suc] by (simp add: head map_Suc_upt [symmetric] del: upt_Suc)
  ultimately have x: "rq_entries q ! rq_head q = Some x" using c by auto
  have "ring_ok N ?q"
    using ok n N old by (auto simp: ring_ok_def slot)
  moreover have "ring_contents N ?q = xs"
    using c cs old by (simp add: ring_contents_def slot)
  moreover have "ring_pop N q = (?q, Inr x)" by (simp add: ring_pop_def n x)
  ultimately show ?thesis by blast
qed

interpretation ring: fifo "ring_ok N" "ring_contents N" "\<lambda>q. rq_len q < N" "ring_push N" "ring_pop N"
    IpcFull IpcEmpty for N
proof unfold_locales
  show "ring_ok N q \<Longrightarrow> rq_len q < N \<Longrightarrow>
      \<exists>q'. ring_push N x q = (q', Inr ()) \<and> ring_ok N q' \<and> ring_contents N q' = ring_contents N q @ [x]" for q x
    by (rule ring_push_room)
  show "ring_ok N q \<Longrightarrow> \<not> rq_len q < N \<Longrightarrow> ring_push N x q = (q, Inl IpcFull)" for q x
    by (auto simp: ring_ok_def ring_push_def)
  show "ring_ok N q \<Longrightarrow> ring_contents N q = x # xs \<Longrightarrow>
      \<exists>q'. ring_pop N q = (q', Inr x) \<and> ring_ok N q' \<and> ring_contents N q' = xs" for q x xs
    by (rule ring_pop_Cons)
  show "ring_ok N q \<Longrightarrow> ring_contents N q = [] \<Longrightarrow> ring_pop N q = (q, Inl IpcEmpty)" for q
    by (simp add: ring_contents_def ring_pop_def)
qed

section \<open>Properties\<close>

text \<open>
  A run of a channel: the channel it leaves, the messages whose send
  succeeded with the endpoint that sent them, and the messages received with
  the endpoint that received them, in order.
\<close>

datatype channel_op = Send endpoint ipc_message | Receive endpoint

fun channel_run :: "nat \<Rightarrow> channel_op list \<Rightarrow> ring_channel
    \<Rightarrow> ring_channel \<times> (endpoint \<times> ipc_message) list \<times> (endpoint \<times> ipc_message) list" where
  "channel_run N [] c = (c, [], [])"
| "channel_run N (Send src m # xs) c =
     (case channel_send N src m c of (c1, r) \<Rightarrow> (case channel_run N xs c1 of (c2, sent, got) \<Rightarrow>
        (c2, if is_ok r then (src, m) # sent else sent, got)))"
| "channel_run N (Receive dst # xs) c =
     (case channel_receive N dst c of (c1, r) \<Rightarrow> (case channel_run N xs c1 of (c2, sent, got) \<Rightarrow>
        (c2, sent, (case r of Inl _ \<Rightarrow> got | Inr m \<Rightarrow> (dst, m) # got))))"

definition at_endpoint :: "endpoint \<Rightarrow> (endpoint \<times> ipc_message) list \<Rightarrow> ipc_message list" where
  "at_endpoint e log = map snd (filter (\<lambda>(f, _). f = e) log)"

lemma at_endpoint_simps [simp]:
  "at_endpoint e [] = []"
  "at_endpoint e ((f, m) # log) = (if f = e then m # at_endpoint e log else at_endpoint e log)"
  by (simp_all add: at_endpoint_def)

lemma channel_run_fifo:
  assumes "ring_ok N (rc_to_a c)" "ring_ok N (rc_to_b c)" and "channel_run N xs c = (c', sent, got)"
  shows "ring_ok N (rc_to_a c') \<and> ring_ok N (rc_to_b c') \<and>
    ring_contents N (rc_to_b c) @ at_endpoint A sent = at_endpoint B got @ ring_contents N (rc_to_b c') \<and>
    ring_contents N (rc_to_a c) @ at_endpoint B sent = at_endpoint A got @ ring_contents N (rc_to_a c')"
  using assms
proof (induction xs arbitrary: c sent got)
  case (Cons x xs)
  show ?case
  proof (cases x)
    case (Send src m)
    with Cons.prems(3) obtain c1 r sent1 where p: "channel_send N src m c = (c1, r)"
        and run: "channel_run N xs c1 = (c', sent1, got)"
        and sent: "sent = (if is_ok r then (src, m) # sent1 else sent1)"
      by (auto split: prod.splits)
    note IH = Cons.IH [OF _ _ run]
    show ?thesis
    proof (cases src)
      case A
      from Cons.prems(2) show ?thesis
        by (cases rule: ring.push_cases [of N "rc_to_b c" m])
          (use A p sent IH Cons.prems(1) in \<open>auto simp: channel_send_def\<close>)
    next
      case B
      from Cons.prems(1) show ?thesis
        by (cases rule: ring.push_cases [of N "rc_to_a c" m])
          (use B p sent IH Cons.prems(2) in \<open>auto simp: channel_send_def\<close>)
    qed
  next
    case (Receive dst)
    with Cons.prems(3) obtain c1 r got1 where p: "channel_receive N dst c = (c1, r)"
        and run: "channel_run N xs c1 = (c', sent, got1)"
        and got: "got = (case r of Inl _ \<Rightarrow> got1 | Inr m \<Rightarrow> (dst, m) # got1)"
      by (auto split: prod.splits)
    note IH = Cons.IH [OF _ _ run]
    show ?thesis
    proof (cases dst)
      case A
      from Cons.prems(1) show ?thesis
        by (cases rule: ring.pop_cases [of N "rc_to_a c"])
          (use A p got IH Cons.prems(2) in \<open>auto simp: channel_receive_def\<close>)
    next
      case B
      from Cons.prems(2) show ?thesis
        by (cases rule: ring.pop_cases [of N "rc_to_b c"])
          (use B p got IH Cons.prems(1) in \<open>auto simp: channel_receive_def\<close>)
    qed
  qed
qed simp

text \<open>
  C18. The fixed-size channel delivers messages in order and keeps its two
  directions apart: whatever sequence of sends and receives at the two
  endpoints is made on a new channel of any capacity, the messages received
  at B, followed by those still queued for B, are exactly the messages whose
  send from A succeeded, in order, and likewise in the other direction; no
  more than the capacity is ever queued.
\<close>

theorem channel_is_fifo:
  assumes "channel_run N xs (channel_new N) = (c, sent, got)"
  shows "at_endpoint A sent = at_endpoint B got @ ring_contents N (rc_to_b c) \<and>
    at_endpoint B sent = at_endpoint A got @ ring_contents N (rc_to_a c) \<and>
    length (ring_contents N (rc_to_a c)) \<le> N \<and> length (ring_contents N (rc_to_b c)) \<le> N"
proof -
  have "rc_to_a (channel_new N) = ring_new N" "rc_to_b (channel_new N) = ring_new N"
    by (simp_all add: channel_new_def)
  with channel_run_fifo [of N "channel_new N", OF _ _ assms] ring_new_ok [of N] show ?thesis
    by (auto simp: ring_contents_def ring_ok_def)
qed

definition demo_message :: "u8 \<Rightarrow> ipc_message" where
  "demo_message b = \<lparr> im_bytes = b # replicate 63 0, im_len = 1, im_capability = None \<rparr>"

definition demo_traffic :: "channel_op list" where
  "demo_traffic = [Send A (demo_message 1), Send A (demo_message 2), Send A (demo_message 3), Receive B,
     Send B (demo_message 7), Send A (demo_message 4), Receive B, Receive A]"

theorem channel_is_fifo_witness:
  "case channel_run 2 demo_traffic (channel_new 2) of (c, sent, got) \<Rightarrow>
     at_endpoint A sent = [demo_message 1, demo_message 2, demo_message 4] \<and>
     at_endpoint B got = [demo_message 1, demo_message 2] \<and>
     at_endpoint A sent = at_endpoint B got @ ring_contents 2 (rc_to_b c)"
proof -
  have run: "at_endpoint A (fst (snd (channel_run 2 demo_traffic (channel_new 2)))) =
      [demo_message 1, demo_message 2, demo_message 4]"
    "at_endpoint B (snd (snd (channel_run 2 demo_traffic (channel_new 2)))) = [demo_message 1, demo_message 2]"
    by (simp_all add: demo_traffic_def channel_new_def channel_send_def channel_receive_def
        ring_new_def ring_push_def ring_pop_def numeral_2_eq_2)
  obtain c sent got where e: "channel_run 2 demo_traffic (channel_new 2) = (c, sent, got)"
    using prod_cases3 by blast
  from channel_is_fifo [OF e] run e show ?thesis by simp
qed

text \<open>
  \<open>Message::new\<close> copies the payload: it fails exactly for more than 64
  bytes, and otherwise \<open>payload\<close> returns the bytes it was given and the buffer
  has its fixed size, zero behind them.
\<close>

lemma message_payload_roundtrip:
  "message_new payload cap =
     (if length payload > 64 then Inl IpcPayloadTooLarge
      else Inr \<lparr> im_bytes = payload @ replicate (64 - length payload) 0,
                 im_len = length payload, im_capability = cap \<rparr>) \<and>
   (case message_new payload cap of
      Inl _ \<Rightarrow> length payload > 64
    | Inr m \<Rightarrow> message_payload m = payload \<and> length (im_bytes m) = 64)"
  by (auto simp: message_new_def message_payload_def IPC_PAYLOAD_SIZE_def copy_payload_eq)

end
