(* ===== verification/Frames.thy ===== *)
theory Frames
  imports Kernel_Prelude
begin

text \<open>
  The page frame allocator (\<open>kernel/core/src/memory.rs\<close>): a bump pointer over
  a physical range and a table of 128 freed frames. Addresses are 64-bit
  words, so the rounding of \<open>align_up\<close> wraps as it does in the code. The
  allocator is a \<open>machine\<close> whose state also records which frames its callers
  hold.
\<close>

section \<open>The allocator\<close>

definition PAGE_SIZE :: u64 where "PAGE_SIZE = 4096"
definition DEFAULT_RECYCLED_FRAMES :: nat where "DEFAULT_RECYCLED_FRAMES = 128"

text \<open>\<open>Frame { start }\<close> is represented by its start address.\<close>

type_synonym frame = u64

record frame_allocator =
  fa_start :: u64
  fa_next :: u64
  fa_end :: u64
  fa_recycled :: "frame option list"

definition align_down :: "u64 \<Rightarrow> u64 \<Rightarrow> u64" where
  "align_down value alignment = value AND NOT (alignment - 1)"

definition align_up :: "u64 \<Rightarrow> u64 \<Rightarrow> u64" where
  "align_up value alignment = align_down (value + alignment - 1) alignment"

definition allocator_empty :: frame_allocator where
  "allocator_empty = \<lparr> fa_start = 0, fa_next = 0, fa_end = 0,
     fa_recycled = replicate DEFAULT_RECYCLED_FRAMES None \<rparr>"

definition allocator_new :: "u64 \<Rightarrow> u64 \<Rightarrow> frame_allocator" where
  "allocator_new start stop =
     (let next = align_up start PAGE_SIZE; stop = align_down stop PAGE_SIZE
      in if next > stop
         then \<lparr> fa_start = stop, fa_next = stop, fa_end = stop,
                fa_recycled = replicate DEFAULT_RECYCLED_FRAMES None \<rparr>
         else \<lparr> fa_start = next, fa_next = next, fa_end = stop,
                fa_recycled = replicate DEFAULT_RECYCLED_FRAMES None \<rparr>)"

definition allocate :: "frame_allocator \<Rightarrow> frame_allocator \<times> frame option" where
  "allocate a =
     (case position (\<lambda>slot. slot \<noteq> None) (fa_recycled a) of
        Some i \<Rightarrow> (a\<lparr> fa_recycled := (fa_recycled a)[i := None] \<rparr>, fa_recycled a ! i)
      | None \<Rightarrow>
          if fa_next a \<ge> fa_end a then (a, None)
          else (a\<lparr> fa_next := fa_next a + PAGE_SIZE \<rparr>, Some (fa_next a)))"

definition free :: "frame \<Rightarrow> frame_allocator \<Rightarrow> frame_allocator \<times> bool" where
  "free f a =
     (if f mod PAGE_SIZE \<noteq> 0 \<or> f < fa_start a \<or> f \<ge> fa_end a then (a, False)
      else if list_ex (\<lambda>slot. slot = Some f) (fa_recycled a) then (a, False)
      else case position (\<lambda>slot. slot = None) (fa_recycled a) of
             None \<Rightarrow> (a, False)
           | Some i \<Rightarrow> (a\<lparr> fa_recycled := (fa_recycled a)[i := Some f] \<rparr>, True))"

definition recycled_len :: "frame_allocator \<Rightarrow> nat" where
  "recycled_len a = length (filter (\<lambda>slot. slot \<noteq> None) (fa_recycled a))"

definition remaining_frames :: "frame_allocator \<Rightarrow> nat" where
  "remaining_frames a = unat (sat_sub (fa_end a) (fa_next a) div PAGE_SIZE) + recycled_len a"

section \<open>Alignment\<close>

lemma align_down_page: "unat (align_down w PAGE_SIZE) = unat w div 4096 * 4096"
proof -
  have "(PAGE_SIZE - 1) = (mask 12 :: u64)" by (simp add: PAGE_SIZE_def mask_eq_exp_minus_1)
  then have "align_down w PAGE_SIZE = push_bit 12 (drop_bit 12 w)"
    unfolding align_down_def by (intro bit_word_eqI) (auto simp: bit_simps)
  moreover have "unat w div 4096 * 4096 < 2 ^ LENGTH(64)"
    using div_times_less_eq_dividend [of "unat w" 4096] by (rule le_less_trans) (rule unsigned_less)
  ultimately show ?thesis
    by (simp add: push_bit_eq_mult drop_bit_eq_div unat_word_ariths unat_div)
qed

lemma align_up_page:
  assumes "unat w + 4095 < 2 ^ 64"
  shows "unat (align_up w PAGE_SIZE) = (unat w + 4095) div 4096 * 4096"
proof -
  have "unat (w + 4095) = unat w + 4095" using assms by (simp add: unat_word_ariths)
  moreover have e: "w + PAGE_SIZE - 1 = w + 4095" by (simp add: PAGE_SIZE_def)
  ultimately show ?thesis unfolding align_up_def align_down_page e by simp
qed

section \<open>The frames in the table\<close>

definition recycled :: "frame_allocator \<Rightarrow> frame list" where
  "recycled a = List.map_filter (\<lambda>slot. slot) (fa_recycled a)"

lemma length_recycled: "recycled_len a = length (recycled a)"
  by (simp add: recycled_len_def recycled_def List.map_filter_def)

lemma in_recycled: "f \<in> set (recycled a) \<longleftrightarrow> Some f \<in> set (fa_recycled a)"
  by (force simp: recycled_def List.map_filter_def)

lemma mset_recycled_upd:
  assumes "i < length xs"
  shows "mset (List.map_filter (\<lambda>slot. slot) (xs[i := v])) + (case xs ! i of None \<Rightarrow> {#} | Some f \<Rightarrow> {# f #}) =
    mset (List.map_filter (\<lambda>slot. slot) xs) + (case v of None \<Rightarrow> {#} | Some f \<Rightarrow> {# f #})"
proof -
  let ?g = "List.map_filter (\<lambda>slot. slot)" and ?one = "\<lambda>u. case u of None \<Rightarrow> {#} | Some f \<Rightarrow> {# f #}"
  have split: "mset (?g (ys @ u # zs)) = mset (?g ys) + ?one u + mset (?g zs)" for ys u zs
    by (cases u) (simp_all add: List.map_filter_def)
  have xs: "xs = take i xs @ xs ! i # drop (Suc i) xs" using assms by (rule id_take_nth_drop)
  have "mset (?g xs) = mset (?g (take i xs)) + ?one (xs ! i) + mset (?g (drop (Suc i) xs))"
    using split [of "take i xs" "xs ! i" "drop (Suc i) xs"] xs by simp
  moreover have "mset (?g (xs[i := v])) = mset (?g (take i xs)) + ?one v + mset (?g (drop (Suc i) xs))"
    using split [of "take i xs" v "drop (Suc i) xs"] upd_conv_take_nth_drop [OF assms, of v] by simp
  ultimately show ?thesis by (simp add: ac_simps)
qed

section \<open>Exclusive ownership\<close>

text \<open>The allocator with the frames its callers hold.\<close>

datatype frame_op = Allocate | Free frame

definition frame_step :: "frame_op \<Rightarrow> frame_allocator \<times> frame list \<Rightarrow> frame_allocator \<times> frame list" where
  "frame_step x = (\<lambda>(a, owned).
     case x of
       Allocate \<Rightarrow> (case allocate a of (a', None) \<Rightarrow> (a', owned) | (a', Some f) \<Rightarrow> (a', f # owned))
     | Free f \<Rightarrow> (case free f a of (a', freed) \<Rightarrow> (a', if freed then remove1 f owned else owned)))"

text \<open>Callers free frames they hold.\<close>

definition frame_allowed :: "frame_op \<Rightarrow> frame_allocator \<times> frame list \<Rightarrow> bool" where
  "frame_allowed x = (\<lambda>(a, owned). case x of Allocate \<Rightarrow> True | Free f \<Rightarrow> f \<in> set owned)"

definition frame_initial :: "frame_allocator \<times> frame list \<Rightarrow> bool" where
  "frame_initial = (\<lambda>(a, owned). owned = [] \<and> (\<exists>start stop. unat start + 4095 < 2 ^ 64 \<and> a = allocator_new start stop))"

definition page_aligned :: "u64 \<Rightarrow> bool" where
  "page_aligned w \<longleftrightarrow> 4096 dvd unat w"

definition range_ok :: "frame_allocator \<Rightarrow> bool" where
  "range_ok a \<longleftrightarrow>
     page_aligned (fa_start a) \<and> page_aligned (fa_next a) \<and> page_aligned (fa_end a) \<and>
     fa_start a \<le> fa_next a \<and> fa_next a \<le> fa_end a"

definition frames_inv :: "frame_allocator \<times> frame list \<Rightarrow> bool" where
  "frames_inv = (\<lambda>(a, owned).
     range_ok a \<and> length (fa_recycled a) = DEFAULT_RECYCLED_FRAMES \<and>
     distinct (owned @ recycled a) \<and>
     (\<forall>f\<in>set (owned @ recycled a). page_aligned f \<and> fa_start a \<le> f \<and> f < fa_next a) \<and>
     length (owned @ recycled a) = (unat (fa_next a) - unat (fa_start a)) div 4096)"

lemma frames_inv_mset:
  assumes "frames_inv (a, owned)" and "fa_start a' = fa_start a" "fa_next a' = fa_next a" "fa_end a' = fa_end a"
    and "length (fa_recycled a') = length (fa_recycled a)"
    and m: "mset (owned' @ recycled a') = mset (owned @ recycled a)"
  shows "frames_inv (a', owned')"
proof -
  from m have "set (owned' @ recycled a') = set (owned @ recycled a)"
      "length (owned' @ recycled a') = length (owned @ recycled a)"
      "distinct (owned' @ recycled a') = distinct (owned @ recycled a)"
    by (metis mset_eq_setD, metis size_mset, metis mset_eq_imp_distinct_iff)
  with assms(1-5) show ?thesis unfolding frames_inv_def range_ok_def by (simp only: prod.case) blast
qed

lemma frames_inv_initial: "frame_initial s \<Longrightarrow> frames_inv s"
proof -
  assume "frame_initial s"
  then obtain start stop where s: "s = (allocator_new start stop, [])" and b: "unat start + 4095 < 2 ^ 64"
    by (auto simp: frame_initial_def)
  have "page_aligned (align_up start PAGE_SIZE)" "page_aligned (align_down stop PAGE_SIZE)"
    by (simp_all add: page_aligned_def align_up_page [OF b] align_down_page)
  then show ?thesis
    by (auto simp: s frames_inv_def allocator_new_def Let_def range_ok_def recycled_def
        List.map_filter_def DEFAULT_RECYCLED_FRAMES_def)
qed

lemma bump:
  assumes r: "range_ok a" and n: "fa_next a < fa_end a"
  shows "unat (fa_next a + PAGE_SIZE) = unat (fa_next a) + 4096" "range_ok (a\<lparr> fa_next := fa_next a + PAGE_SIZE \<rparr>)"
    "(unat (fa_next a + PAGE_SIZE) - unat (fa_start a)) div 4096 =
      Suc ((unat (fa_next a) - unat (fa_start a)) div 4096)"
proof -
  from r n have d: "4096 dvd unat (fa_next a)" "4096 dvd unat (fa_end a)" "4096 dvd unat (fa_start a)"
      and l: "unat (fa_next a) < unat (fa_end a)" "unat (fa_start a) \<le> unat (fa_next a)"
    by (simp_all add: range_ok_def page_aligned_def word_less_nat_alt word_le_nat_alt)
  then have le: "unat (fa_next a) + 4096 \<le> unat (fa_end a)" by (auto elim!: dvdE)
  also have "\<dots> < 2 ^ 64" using unsigned_less [of "fa_end a"] by simp
  finally show u: "unat (fa_next a + PAGE_SIZE) = unat (fa_next a) + 4096"
    by (simp add: PAGE_SIZE_def unat_word_ariths)
  then show "range_ok (a\<lparr> fa_next := fa_next a + PAGE_SIZE \<rparr>)"
    using r d le l by (simp add: range_ok_def page_aligned_def word_le_nat_alt)
  show "(unat (fa_next a + PAGE_SIZE) - unat (fa_start a)) div 4096 =
      Suc ((unat (fa_next a) - unat (fa_start a)) div 4096)"
    using d l by (auto simp: u elim!: dvdE)
qed

lemma frames_inv_allocate:
  assumes inv: "frames_inv (a, owned)"
  shows "frames_inv (frame_step Allocate (a, owned))"
proof (cases "position (\<lambda>slot. slot \<noteq> None) (fa_recycled a)")
  case (Some i)
  then obtain f where i: "i < length (fa_recycled a)" "fa_recycled a ! i = Some f" by (auto simp: position_Some)
  let ?a = "a\<lparr> fa_recycled := (fa_recycled a)[i := None] \<rparr>"
  have "mset (recycled ?a) + {# f #} = mset (recycled a)"
    using mset_recycled_upd [OF i(1), of None] i(2) by (simp add: recycled_def)
  then have "frames_inv (?a, f # owned)" by (intro frames_inv_mset [OF inv]) auto
  with Some i show ?thesis by (simp add: frame_step_def allocate_def)
next
  case None
  show ?thesis
  proof (cases "fa_next a < fa_end a")
    case True
    let ?n = "fa_next a" and ?a = "a\<lparr> fa_next := fa_next a + PAGE_SIZE \<rparr>"
    have r: "range_ok a" using inv by (simp add: frames_inv_def)
    note b = bump [OF r True]
    have lt: "?n < ?n + PAGE_SIZE" by (simp add: word_less_nat_alt b(1))
    have rec: "recycled ?a = recycled a" by (simp add: recycled_def)
    have "\<forall>f\<in>set (?n # owned @ recycled a). page_aligned f \<and> fa_start a \<le> f \<and> f < ?n + PAGE_SIZE"
      using inv lt r by (auto simp: frames_inv_def range_ok_def intro: less_trans [OF _ lt])
    moreover have "distinct (?n # owned @ recycled a)"
      using inv by (auto simp: frames_inv_def)
    ultimately have "frames_inv (?a, ?n # owned)"
      using inv b by (simp add: frames_inv_def rec)
    with None True show ?thesis by (simp add: frame_step_def allocate_def not_le [symmetric])
  qed (use None inv in \<open>simp add: frame_step_def allocate_def not_less\<close>)
qed

lemma frames_inv_free:
  assumes inv: "frames_inv (a, owned)" and f: "f \<in> set owned"
  shows "frames_inv (frame_step (Free f) (a, owned))"
proof -
  let ?p = "position (\<lambda>slot. slot = None) (fa_recycled a)"
  show ?thesis
  proof (cases "snd (free f a)")
    case True
    then obtain i where i: "?p = Some i" and a': "fst (free f a) = a\<lparr> fa_recycled := (fa_recycled a)[i := Some f] \<rparr>"
      by (auto simp: free_def split: if_splits option.splits)
    then have "i < length (fa_recycled a)" "fa_recycled a ! i = None" by (auto simp: position_Some)
    then have "mset (recycled (fst (free f a))) = mset (recycled a) + {# f #}"
      using mset_recycled_upd [of i "fa_recycled a" "Some f"] by (simp add: recycled_def a')
    then have "frames_inv (fst (free f a), remove1 f owned)"
      by (intro frames_inv_mset [OF inv]) (use f in \<open>simp_all add: a' insert_DiffM\<close>)
    with True show ?thesis by (simp add: frame_step_def case_prod_unfold)
  next
    case False
    then have "fst (free f a) = a" by (auto simp: free_def split: if_splits option.splits)
    with False inv show ?thesis by (simp add: frame_step_def case_prod_unfold)
  qed
qed

interpretation frames: machine frame_initial frame_step frame_allowed frames_inv
proof unfold_locales
  show "frame_initial s \<Longrightarrow> frames_inv s" for s by (rule frames_inv_initial)
  show "frames_inv s \<Longrightarrow> frame_allowed x s \<Longrightarrow> frames_inv (frame_step x s)" for s x
    using frames_inv_allocate frames_inv_free
    by (cases s; cases x) (auto simp: frame_allowed_def simp del: split_paired_All)
qed

section \<open>Properties\<close>

text \<open>
  C19. Page frames are handed out exclusively and none is lost. In every run of
  a new allocator in which callers free only frames they hold, the frames held
  are pairwise different, page aligned and inside the range; none of them is
  in the table of frames ready for reuse; and the frames held and the
  remaining frames add up to the size of the range. The range must leave room
  to round its start up.
\<close>

theorem frames_exclusive:
  assumes b: "unat start + 4095 < 2 ^ 64"
    and run: "run_ok frame_allowed frame_step xs (allocator_new start stop, [])"
    and e: "fold frame_step xs (allocator_new start stop, []) = (a, owned)"
  shows "distinct owned \<and> (\<forall>f\<in>set owned. 4096 dvd unat f \<and> fa_start a \<le> f \<and> f < fa_end a \<and>
      Some f \<notin> set (fa_recycled a)) \<and>
    length owned + remaining_frames a = (unat (fa_end a) - unat (fa_start a)) div 4096"
proof -
  have "frame_initial (allocator_new start stop, [])" using b by (auto simp: frame_initial_def)
  from frames.run_inv [OF frames_inv_initial [OF this] run] have inv: "frames_inv (a, owned)"
    by (simp add: e)
  have r: "range_ok a" using inv by (simp add: frames_inv_def)
  then have le: "unat (fa_start a) \<le> unat (fa_next a)" "unat (fa_next a) \<le> unat (fa_end a)"
      "4096 dvd unat (fa_start a)" "4096 dvd unat (fa_next a)" "4096 dvd unat (fa_end a)"
    by (simp_all add: range_ok_def word_le_nat_alt page_aligned_def)
  have "length owned + remaining_frames a =
      (unat (fa_next a) - unat (fa_start a)) div 4096 + (unat (fa_end a) - unat (fa_next a)) div 4096"
    using inv by (simp add: remaining_frames_def length_recycled frames_inv_def unat_div unat_sat_sub PAGE_SIZE_def)
  also have "\<dots> = (unat (fa_end a) - unat (fa_start a)) div 4096"
    using le by (auto simp: diff_mult_distrib2 [symmetric] elim!: dvdE)
  finally have "length owned + remaining_frames a = (unat (fa_end a) - unat (fa_start a)) div 4096" .
  moreover have "f < fa_end a" if "f \<in> set owned" for f
  proof -
    from that inv have "f < fa_next a" by (auto simp: frames_inv_def)
    with r show ?thesis by (auto simp: range_ok_def)
  qed
  ultimately show ?thesis
    using inv by (auto simp: frames_inv_def page_aligned_def in_recycled [symmetric])
qed

lemmas frame_eval = allocator_new_def align_up_def align_down_def PAGE_SIZE_def DEFAULT_RECYCLED_FRAMES_def
  frame_step_def frame_allowed_def allocate_def free_def Let_def

lemma position_replicate [simp]: "position P (replicate n x) = (if 0 < n \<and> P x then Some 0 else None)"
  by (induction n) auto

lemma demo_run: "fold frame_step [Allocate, Allocate, Free 4096, Allocate] (allocator_new 100 20000, []) =
    (\<lparr> fa_start = 4096, fa_next = 12288, fa_end = 16384, fa_recycled = replicate 128 None \<rparr>, [4096, 8192])"
proof -
  have "(replicate 128 None)[0 := Some x] = Some x # replicate 127 None" for x :: u64
    by (simp add: numeral_eq_Suc)
  then show ?thesis by (simp add: frame_eval) (simp add: numeral_eq_Suc)
qed

theorem frames_exclusive_witness:
  "case fold frame_step [Allocate, Allocate, Free 4096, Allocate] (allocator_new 100 20000, []) of (a, owned) \<Rightarrow>
     owned = [4096, 8192] \<and> length owned + remaining_frames a = 3"
proof -
  have ok: "run_ok frame_allowed frame_step [Allocate, Allocate, Free 4096, Allocate] (allocator_new 100 20000, [])"
    by (simp add: frame_eval)
  from frames_exclusive [OF _ ok demo_run] show ?thesis unfolding demo_run by simp
qed

section \<open>Frames that were never handed out\<close>

lemma free_accepts:
  assumes "f mod PAGE_SIZE = 0" and "fa_start a \<le> f" and "f < fa_end a" and "f \<notin> set (recycled a)"
    and "None \<in> set (fa_recycled a)"
  obtains a' where "free f a = (a', True)" "fa_start a' = fa_start a" "fa_next a' = fa_next a" "fa_end a' = fa_end a"
    "mset (recycled a') = add_mset f (mset (recycled a))"
proof -
  obtain i where i: "position (\<lambda>slot. slot = None) (fa_recycled a) = Some i"
    using assms(5) by (cases "position (\<lambda>slot. slot = None) (fa_recycled a)") (auto simp: position_None)
  then have "i < length (fa_recycled a)" "fa_recycled a ! i = None" by (auto simp: position_Some)
  then have "mset (recycled (a\<lparr> fa_recycled := (fa_recycled a)[i := Some f] \<rparr>)) = add_mset f (mset (recycled a))"
    using mset_recycled_upd [of i "fa_recycled a" "Some f"] by (simp add: recycled_def)
  moreover have "free f a = (a\<lparr> fa_recycled := (fa_recycled a)[i := Some f] \<rparr>, True)"
    using assms(1-4) i by (auto simp: free_def list_ex_iff in_recycled not_less not_le)
  ultimately show thesis by (intro that) simp_all
qed

text \<open>Allocating empties the table first, and then moves the bump pointer.\<close>

lemma allocate_drains:
  "\<exists>a' owned'. fold frame_step (replicate (length (recycled a)) Allocate) (a, owned) = (a', owned') \<and> recycled a' = [] \<and>
     fa_start a' = fa_start a \<and> fa_next a' = fa_next a \<and> fa_end a' = fa_end a \<and>
     mset owned' = mset owned + mset (recycled a)"
proof (induction "length (recycled a)" arbitrary: a owned)
  case 0
  then show ?case by simp
next
  case (Suc n)
  then obtain g where "Some g \<in> set (fa_recycled a)" by (metis in_recycled length_Suc_conv list.set_intros(1))
  then obtain i where i: "position (\<lambda>slot. slot \<noteq> None) (fa_recycled a) = Some i"
    by (cases "position (\<lambda>slot. slot \<noteq> None) (fa_recycled a)") (auto simp: position_None)
  then obtain h where h: "i < length (fa_recycled a)" "fa_recycled a ! i = Some h" by (auto simp: position_Some)
  let ?a = "a\<lparr> fa_recycled := (fa_recycled a)[i := None] \<rparr>"
  have m: "add_mset h (mset (recycled ?a)) = mset (recycled a)"
    using mset_recycled_upd [OF h(1), of None] h(2) by (simp add: recycled_def)
  then have "length (recycled a) = Suc (length (recycled ?a))" by (metis size_mset size_add_mset)
  moreover have "frame_step Allocate (a, owned) = (?a, h # owned)"
    using i h by (simp add: frame_step_def allocate_def)
  ultimately show ?case using Suc.hyps(1) [of ?a "h # owned"] Suc.hyps(2) m by (auto simp flip: m)
qed

lemma recycled_empty: "recycled a = [] \<Longrightarrow> position (\<lambda>slot. slot \<noteq> None) (fa_recycled a) = None"
  using in_recycled [of _ a] unfolding position_None by (metis not_None_eq empty_iff empty_set)

lemma allocate_reaches:
  assumes "recycled a = []" and "range_ok a" and "unat (fa_next a) + 4096 * k < unat (fa_end a)"
    and "unat f = unat (fa_next a) + 4096 * k"
  shows "\<exists>a' owned'. fold frame_step (replicate (Suc k) Allocate) (a, owned) = (a', owned') \<and>
    add_mset f (mset owned) \<subseteq># mset owned'"
  using assms
proof (induction k arbitrary: a owned)
  case (0 a owned)
  then have none: "position (\<lambda>slot. slot \<noteq> None) (fa_recycled a) = None" by (intro recycled_empty)
  from 0 have "fa_next a < fa_end a" "f = fa_next a" by (simp_all add: word_less_nat_alt word_unat_eq_iff)
  with none show ?case by (simp add: frame_step_def allocate_def not_le [symmetric])
next
  case (Suc k a owned)
  then have none: "position (\<lambda>slot. slot \<noteq> None) (fa_recycled a) = None" by (intro recycled_empty)
  from Suc.prems have lt: "fa_next a < fa_end a" by (simp add: word_less_nat_alt)
  let ?a = "a\<lparr> fa_next := fa_next a + PAGE_SIZE \<rparr>"
  note b = bump [OF Suc.prems(2) lt]
  have "recycled ?a = []" using Suc.prems(1) by (simp add: recycled_def)
  from Suc.IH [OF this b(2), of "fa_next a # owned"] Suc.prems(3,4) b(1) obtain a' owned' where
      "fold frame_step (replicate (Suc k) Allocate) (?a, fa_next a # owned) = (a', owned')"
      "add_mset f (mset (fa_next a # owned)) \<subseteq># mset owned'"
    by auto
  moreover have "frame_step Allocate (a, owned) = (?a, fa_next a # owned)"
    using none lt by (simp add: frame_step_def allocate_def not_le [symmetric])
  ultimately show ?case
    by (metis fold_simps(2) insert_subset_eq_iff mset.simps(2) mset_subset_eq_insertD replicate_Suc subset_mset.order_trans
        add_mset_commute mset_subset_eq_add_right add_mset_add_single mset_subset_eq_add_left)
qed

text \<open>
  C20. \<open>free\<close> accepts a frame that was never handed out: it compares the
  address with the end of the range and not with the bump pointer. In every state
  that an allocator reaches while its callers free only frames they hold, take any page-aligned
  address of the range at or above the bump pointer, which nobody holds. If the
  table has an empty slot, freeing that address succeeds, and after some further
  allocations its callers hold the same frame twice: once from the table and once from the
  bump pointer.
\<close>

theorem free_of_unallocated_frame_duplicates:
  assumes b: "unat start + 4095 < 2 ^ 64"
    and run: "run_ok frame_allowed frame_step xs (allocator_new start stop, [])"
    and e: "fold frame_step xs (allocator_new start stop, []) = (a, owned)"
    and f: "f mod PAGE_SIZE = 0" "fa_next a \<le> f" "f < fa_end a" and slot: "None \<in> set (fa_recycled a)"
  shows "f \<notin> set owned \<and> snd (free f a) \<and>
    (\<exists>n. 2 \<le> count_list (snd (fold frame_step (replicate n Allocate) (fst (free f a), owned))) f)"
proof -
  have "frame_initial (allocator_new start stop, [])" using b by (auto simp: frame_initial_def)
  from frames.run_inv [OF frames_inv_initial [OF this] run] have inv: "frames_inv (a, owned)" by (simp add: e)
  then have r: "range_ok a" and fresh: "f \<notin> set (owned @ recycled a)"
    using f(2) unfolding frames_inv_def prod.case by (blast, meson not_le)
  have "fa_start a \<le> f" using r f(2) by (auto simp: range_ok_def)
  with f slot fresh obtain a1 where a1: "free f a = (a1, True)" "fa_start a1 = fa_start a" "fa_next a1 = fa_next a"
      "fa_end a1 = fa_end a" "mset (recycled a1) = add_mset f (mset (recycled a))"
    using free_accepts [of f a] by auto
  obtain a2 o2 where d: "fold frame_step (replicate (length (recycled a1)) Allocate) (a1, owned) = (a2, o2)"
      "recycled a2 = []" "fa_start a2 = fa_start a" "fa_next a2 = fa_next a" "fa_end a2 = fa_end a"
      "mset o2 = mset owned + mset (recycled a1)"
    using allocate_drains [of a1 owned] a1 by auto
  have "4096 dvd unat f" using f(1) by (simp add: PAGE_SIZE_def dvd_eq_mod_eq_0 word_unat_eq_iff unat_mod)
  then have "4096 dvd unat f - unat (fa_next a)" using r by (simp add: range_ok_def page_aligned_def)
  then obtain k where k: "unat f = unat (fa_next a) + 4096 * k"
    using f(2) unfolding word_le_nat_alt by (metis dvdE le_add_diff_inverse)
  have "range_ok a2" using r d(3-5) by (simp add: range_ok_def)
  then obtain a3 o3 where u: "fold frame_step (replicate (Suc k) Allocate) (a2, o2) = (a3, o3)"
      "add_mset f (mset o2) \<subseteq># mset o3"
    using allocate_reaches [of a2 k f o2] d(2,4,5) k f(3) by (auto simp: word_less_nat_alt)
  have "2 \<le> count (add_mset f (mset o2)) f" using d(6) a1(5) by simp
  then have "2 \<le> count_list o3 f" using mset_subset_eq_count [OF u(2), of f] by (simp add: count_mset)
  moreover have "fold frame_step (replicate (length (recycled a1) + Suc k) Allocate) (a1, owned) = (a3, o3)"
    using d(1) u(1) by (simp only: replicate_add fold_append o_apply)
  ultimately show ?thesis using fresh a1(1) by (metis Un_iff fst_conv set_append snd_conv)
qed

theorem free_of_unallocated_frame_duplicates_witness:
  "snd (free 8192 (allocator_new 0 16384)) \<and>
   (\<exists>n. 2 \<le> count_list (snd (fold frame_step (replicate n Allocate) (fst (free 8192 (allocator_new 0 16384)), []))) 8192)"
  using free_of_unallocated_frame_duplicates [of 0 "[]" 16384 "allocator_new 0 16384" "[]" 8192]
  by (simp add: allocator_new_def align_up_def align_down_def PAGE_SIZE_def DEFAULT_RECYCLED_FRAMES_def)

end
