(* ===== verification/Page_Tables.thy ===== *)
theory Page_Tables
  imports Kernel_Prelude
begin

text \<open>
  What the kernel relies on in the page-table encodings of
  \<open>kernel/core/src/mmu\<close>, whichever architecture is selected: the common enums
  and, as the locale \<open>page_tables\<close>, how the memory-management unit reads the
  descriptors that the encoding functions build. The reading functions are the
  architectures' documented descriptor bits.
\<close>

datatype memory_attr = Device | Normal

datatype access = KernelReadWrite | KernelReadOnly | KernelUserReadOnly | KernelUserReadWrite

definition user_access :: "access \<Rightarrow> bool" where
  "user_access a \<longleftrightarrow> a = KernelUserReadOnly \<or> a = KernelUserReadWrite"

definition write_access :: "access \<Rightarrow> bool" where
  "write_access a \<longleftrightarrow> a = KernelReadWrite \<or> a = KernelUserReadWrite"

lemma access_simps [simp]:
  "\<not> user_access KernelReadWrite" "\<not> user_access KernelReadOnly"
  "user_access KernelUserReadOnly" "user_access KernelUserReadWrite"
  "write_access KernelReadWrite" "\<not> write_access KernelReadOnly"
  "\<not> write_access KernelUserReadOnly" "write_access KernelUserReadWrite"
  by (simp_all add: user_access_def write_access_def)

text \<open>The bits of a word that is \<open>2 ^ n - 1\<close> moved up.\<close>

lemma mask_range: "w = push_bit m (mask n) \<Longrightarrow> bit w k \<longleftrightarrow> m \<le> k \<and> k < m + n \<and> k < LENGTH('a)"
  for w :: "'a::len word"
  by (auto simp: bit_simps)

lemma bit_small:
  "bit (2 :: u64) k \<longleftrightarrow> k = 1" "bit (3 :: u64) k \<longleftrightarrow> k = 0 \<or> k = 1" "bit (4 :: u64) k \<longleftrightarrow> k = 2"
  "bit (6 :: u64) k \<longleftrightarrow> k = 1 \<or> k = 2" "bit (24 :: u64) k \<longleftrightarrow> k = 3 \<or> k = 4"
proof -
  have "bit (2 :: u64) k \<longleftrightarrow> 1 \<le> k \<and> k < 1 + 1 \<and> k < LENGTH(64)"
    by (rule mask_range) (simp add: mask_eq_exp_minus_1)
  then show "bit (2 :: u64) k \<longleftrightarrow> k = 1" by auto
  have "bit (3 :: u64) k \<longleftrightarrow> 0 \<le> k \<and> k < 0 + 2 \<and> k < LENGTH(64)"
    by (rule mask_range) (simp add: mask_eq_exp_minus_1)
  then show "bit (3 :: u64) k \<longleftrightarrow> k = 0 \<or> k = 1" by auto
  have "bit (4 :: u64) k \<longleftrightarrow> 2 \<le> k \<and> k < 2 + 1 \<and> k < LENGTH(64)"
    by (rule mask_range) (simp add: mask_eq_exp_minus_1 push_bit_eq_mult)
  then show "bit (4 :: u64) k \<longleftrightarrow> k = 2" by auto
  have "bit (6 :: u64) k \<longleftrightarrow> 1 \<le> k \<and> k < 1 + 2 \<and> k < LENGTH(64)"
    by (rule mask_range) (simp add: mask_eq_exp_minus_1 push_bit_eq_mult)
  then show "bit (6 :: u64) k \<longleftrightarrow> k = 1 \<or> k = 2" by auto
  have "bit (24 :: u64) k \<longleftrightarrow> 3 \<le> k \<and> k < 3 + 2 \<and> k < LENGTH(64)"
    by (rule mask_range) (simp add: mask_eq_exp_minus_1 push_bit_eq_mult)
  then show "bit (24 :: u64) k \<longleftrightarrow> k = 3 \<or> k = 4" by auto
qed

lemma bit_shifted: "bit (push_bit n 1 :: u64) k \<longleftrightarrow> n = k \<and> n < 64"
  by (auto simp: bit_push_bit_iff bit_1_iff simp del: push_bit_of_1)

lemma bit_shifted_two: "bit (push_bit n 2 :: u64) k \<longleftrightarrow> k = Suc n \<and> k < 64"
  and bit_shifted_three: "bit (push_bit n 3 :: u64) k \<longleftrightarrow> (k = n \<or> k = Suc n) \<and> k < 64"
  unfolding bit_push_bit_iff bit_small by auto

locale page_tables =
  fixes page :: "u64 \<Rightarrow> memory_attr \<Rightarrow> access \<Rightarrow> u64"
    and kernel_page :: "u64 \<Rightarrow> memory_attr \<Rightarrow> access \<Rightarrow> bool \<Rightarrow> u64"
    and user_code :: "u64 \<Rightarrow> u64"
    and user_data :: "u64 \<Rightarrow> u64"
    and frame_mask :: u64
    and present :: "u64 \<Rightarrow> bool"
    and user :: "u64 \<Rightarrow> bool"
    and writable :: "u64 \<Rightarrow> bool"
    and user_exec :: "u64 \<Rightarrow> bool"
    and kernel_exec :: "u64 \<Rightarrow> bool"
  assumes frame_bits: "bit frame_mask k \<Longrightarrow> 12 \<le> k"
    and page_reads: "present (page p a c)" "user (page p a c) \<longleftrightarrow> user_access c"
      "writable (page p a c) \<longleftrightarrow> write_access c" "page p a c AND frame_mask = p AND frame_mask"
    and kernel_reads: "present (kernel_page p a c x)" "\<not> (user (kernel_page p a c x) \<and> user_exec (kernel_page p a c x))"
      "writable (kernel_page p a c x) \<longleftrightarrow> write_access c"
      "kernel_exec (kernel_page p Normal c x) \<longleftrightarrow> x" "kernel_page p a c x AND frame_mask = p AND frame_mask"
    and code_reads: "present (user_code p)" "user (user_code p)" "\<not> writable (user_code p)"
      "user_exec (user_code p)" "user_code p AND frame_mask = p AND frame_mask"
    and data_reads: "present (user_data p)" "user (user_data p)" "writable (user_data p)"
      "\<not> user_exec (user_data p)" "user_data p AND frame_mask = p AND frame_mask"
begin

lemma user_write_xor_execute:
  "d = user_code p \<or> d = user_data p \<or> d = kernel_page p a c x \<Longrightarrow> \<not> (user d \<and> writable d \<and> user_exec d)"
  using code_reads data_reads kernel_reads by blast

lemma user_pages_differ:
  "user_code p \<noteq> user_data q"
  using code_reads(3) data_reads(3) by metis

lemma distinct_frames:
  "p AND frame_mask \<noteq> q AND frame_mask \<Longrightarrow> user_data p \<noteq> user_data q \<and> user_code p \<noteq> user_code q"
  using data_reads(5) code_reads(5) by metis

lemma kernel_pages_not_user_executable:
  "user (kernel_page p a c x) \<Longrightarrow> \<not> user_exec (kernel_page p a c x)"
  using kernel_reads(2) by blast

end

end
