(* ===== verification/Mmu_Aarch64.thy ===== *)
theory Mmu_Aarch64
  imports Page_Tables
begin

text \<open>
  The VMSAv8-64 descriptors of \<open>kernel/core/src/mmu/aarch64.rs\<close>.
\<close>

section \<open>Encoding\<close>

definition PAGE_TABLE_ENTRIES :: nat where "PAGE_TABLE_ENTRIES = 512"
definition TABLE_ADDR_MASK :: u64 where "TABLE_ADDR_MASK = 0x0000FFFFFFFFF000"
definition BLOCK_1G_SIZE :: u64 where "BLOCK_1G_SIZE = 1024 * 1024 * 1024"
definition BLOCK_2M_SIZE :: u64 where "BLOCK_2M_SIZE = 2 * 1024 * 1024"

definition DESC_VALID :: u64 where "DESC_VALID = push_bit 0 1"
definition DESC_TABLE_OR_PAGE :: u64 where "DESC_TABLE_OR_PAGE = push_bit 1 1"
definition DESC_AF :: u64 where "DESC_AF = push_bit 10 1"
definition DESC_INNER_SHAREABLE :: u64 where "DESC_INNER_SHAREABLE = push_bit 8 3"
definition DESC_PXN :: u64 where "DESC_PXN = push_bit 53 1"
definition DESC_UXN :: u64 where "DESC_UXN = push_bit 54 1"
definition DESC_AP_USER :: u64 where "DESC_AP_USER = push_bit 6 1"
definition DESC_AP_READ_ONLY :: u64 where "DESC_AP_READ_ONLY = push_bit 6 2"

primrec mair_index :: "memory_attr \<Rightarrow> u64" where
  "mair_index Device = 0"
| "mair_index Normal = 1"

primrec ap_bits :: "access \<Rightarrow> u64" where
  "ap_bits KernelReadWrite = push_bit 6 0"
| "ap_bits KernelReadOnly = push_bit 6 2"
| "ap_bits KernelUserReadOnly = DESC_AP_USER OR DESC_AP_READ_ONLY"
| "ap_bits KernelUserReadWrite = push_bit 6 1"

primrec shareability_bits :: "memory_attr \<Rightarrow> u64" where
  "shareability_bits Device = 0"
| "shareability_bits Normal = DESC_INNER_SHAREABLE"

primrec execute_never_bits :: "memory_attr \<Rightarrow> u64" where
  "execute_never_bits Device = DESC_PXN OR DESC_UXN"
| "execute_never_bits Normal = 0"

definition table_descriptor :: "u64 \<Rightarrow> u64" where
  "table_descriptor next_table_phys = (next_table_phys AND TABLE_ADDR_MASK) OR DESC_VALID OR DESC_TABLE_OR_PAGE"

definition block_descriptor_1g :: "u64 \<Rightarrow> memory_attr \<Rightarrow> access \<Rightarrow> u64" where
  "block_descriptor_1g phys attr access =
     (phys AND NOT (BLOCK_1G_SIZE - 1)) OR DESC_VALID OR push_bit 2 (mair_index attr) OR ap_bits access OR
     shareability_bits attr OR DESC_AF OR execute_never_bits attr"

definition block_descriptor_2m :: "u64 \<Rightarrow> memory_attr \<Rightarrow> access \<Rightarrow> u64" where
  "block_descriptor_2m phys attr access =
     (phys AND NOT (BLOCK_2M_SIZE - 1)) OR DESC_VALID OR push_bit 2 (mair_index attr) OR ap_bits access OR
     shareability_bits attr OR DESC_AF OR execute_never_bits attr"

definition page_descriptor :: "u64 \<Rightarrow> memory_attr \<Rightarrow> access \<Rightarrow> u64" where
  "page_descriptor phys attr access =
     (phys AND TABLE_ADDR_MASK) OR DESC_VALID OR DESC_TABLE_OR_PAGE OR push_bit 2 (mair_index attr) OR
     ap_bits access OR shareability_bits attr OR DESC_AF OR execute_never_bits attr"

definition kernel_page_descriptor :: "u64 \<Rightarrow> memory_attr \<Rightarrow> access \<Rightarrow> bool \<Rightarrow> u64" where
  "kernel_page_descriptor phys attr access executable =
     (let desc = page_descriptor phys attr access OR DESC_UXN
      in if executable then desc else desc OR DESC_PXN)"

definition kernel_block_descriptor_2m :: "u64 \<Rightarrow> memory_attr \<Rightarrow> access \<Rightarrow> bool \<Rightarrow> u64" where
  "kernel_block_descriptor_2m phys attr access executable =
     (let desc = block_descriptor_2m phys attr access OR DESC_UXN
      in if executable then desc else desc OR DESC_PXN)"

definition user_data_page_descriptor :: "u64 \<Rightarrow> u64" where
  "user_data_page_descriptor phys = page_descriptor phys Normal KernelUserReadWrite OR DESC_PXN OR DESC_UXN"

definition user_code_page_descriptor :: "u64 \<Rightarrow> u64" where
  "user_code_page_descriptor phys = page_descriptor phys Normal KernelUserReadOnly OR DESC_PXN"

record user_page_mapping =
  up_vaddr :: u64
  up_phys :: u64
  up_executable :: bool
  up_writable :: bool

definition mapping_descriptor :: "user_page_mapping \<Rightarrow> u64" where
  "mapping_descriptor m =
     (if up_executable m then user_code_page_descriptor (up_phys m)
      else user_data_page_descriptor (up_phys m))"

section \<open>How the hardware reads a page descriptor\<close>

definition pd_present :: "u64 \<Rightarrow> bool" where "pd_present d \<longleftrightarrow> bit d 0 \<and> bit d 1"
definition pd_user :: "u64 \<Rightarrow> bool" where "pd_user d \<longleftrightarrow> bit d 6"
definition pd_writable :: "u64 \<Rightarrow> bool" where "pd_writable d \<longleftrightarrow> \<not> bit d 7"
definition pd_kernel_exec :: "u64 \<Rightarrow> bool" where "pd_kernel_exec d \<longleftrightarrow> \<not> bit d 53"
definition pd_user_exec :: "u64 \<Rightarrow> bool" where "pd_user_exec d \<longleftrightarrow> \<not> bit d 54"

lemmas pd_defs = pd_present_def pd_user_def pd_writable_def pd_kernel_exec_def pd_user_exec_def

lemma bit_frame_mask: "bit TABLE_ADDR_MASK k \<longleftrightarrow> 12 \<le> k \<and> k < 48"
  using mask_range [of TABLE_ADDR_MASK 12 36 k]
  by (auto simp: TABLE_ADDR_MASK_def push_bit_eq_mult mask_eq_exp_minus_1)

lemma bit_flags:
  "bit DESC_VALID k \<longleftrightarrow> k = 0" "bit DESC_TABLE_OR_PAGE k \<longleftrightarrow> k = 1" "bit DESC_AF k \<longleftrightarrow> k = 10"
  "bit DESC_INNER_SHAREABLE k \<longleftrightarrow> k = 8 \<or> k = 9" "bit DESC_PXN k \<longleftrightarrow> k = 53" "bit DESC_UXN k \<longleftrightarrow> k = 54"
  "bit DESC_AP_USER k \<longleftrightarrow> k = 6" "bit DESC_AP_READ_ONLY k \<longleftrightarrow> k = 7"
  unfolding DESC_VALID_def DESC_TABLE_OR_PAGE_def DESC_AF_def DESC_INNER_SHAREABLE_def DESC_PXN_def
    DESC_UXN_def DESC_AP_USER_def DESC_AP_READ_ONLY_def bit_shifted bit_shifted_two bit_shifted_three
  by auto

lemma bit_attrs:
  "bit (push_bit 2 (mair_index a)) k \<longleftrightarrow> a = Normal \<and> k = 2"
  "bit (ap_bits c) k \<longleftrightarrow> user_access c \<and> k = 6 \<or> \<not> write_access c \<and> k = 7"
  "bit (shareability_bits a) k \<longleftrightarrow> a = Normal \<and> (k = 8 \<or> k = 9)"
  "bit (execute_never_bits a) k \<longleftrightarrow> a = Device \<and> (k = 53 \<or> k = 54)"
proof -
  show "bit (push_bit 2 (mair_index a)) k \<longleftrightarrow> a = Normal \<and> k = 2"
    by (cases a; simp only: mair_index.simps bit_shifted) auto
  show "bit (ap_bits c) k \<longleftrightarrow> user_access c \<and> k = 6 \<or> \<not> write_access c \<and> k = 7"
    by (cases c; simp only: ap_bits.simps bit_shifted bit_shifted_two bit_or_iff bit_flags access_simps) auto
  show "bit (shareability_bits a) k \<longleftrightarrow> a = Normal \<and> (k = 8 \<or> k = 9)"
    by (cases a; simp only: shareability_bits.simps bit_flags) auto
  show "bit (execute_never_bits a) k \<longleftrightarrow> a = Device \<and> (k = 53 \<or> k = 54)"
    by (cases a; simp only: execute_never_bits.simps bit_flags bit_or_iff) auto
qed

lemma bit_page:
  "bit (page_descriptor p a c) k \<longleftrightarrow>
     (12 \<le> k \<and> k < 48 \<and> bit p k) \<or> k = 0 \<or> k = 1 \<or> a = Normal \<and> (k = 2 \<or> k = 8 \<or> k = 9) \<or>
     user_access c \<and> k = 6 \<or> \<not> write_access c \<and> k = 7 \<or> k = 10 \<or> a = Device \<and> (k = 53 \<or> k = 54)"
  by (auto simp: page_descriptor_def bit_or_iff bit_and_iff bit_frame_mask bit_flags bit_attrs)

lemma page_frame:
  assumes "\<And>k. 12 \<le> k \<Longrightarrow> k < 48 \<Longrightarrow> bit d k = bit p k"
  shows "d AND TABLE_ADDR_MASK = p AND TABLE_ADDR_MASK"
  by (rule bit_word_eqI) (auto simp: bit_and_iff bit_frame_mask assms)

interpretation aarch64: page_tables page_descriptor kernel_page_descriptor user_code_page_descriptor
    user_data_page_descriptor TABLE_ADDR_MASK pd_present pd_user pd_writable pd_user_exec pd_kernel_exec
  by unfold_locales
    (auto simp: pd_defs bit_page bit_frame_mask bit_flags bit_or_iff kernel_page_descriptor_def
      user_code_page_descriptor_def user_data_page_descriptor_def Let_def intro!: page_frame)

section \<open>Protection of user mappings\<close>

lemma user_pages_privileged_xn:
  "\<not> pd_kernel_exec (user_code_page_descriptor p)" "\<not> pd_kernel_exec (user_data_page_descriptor p)"
  by (simp_all add: pd_defs user_code_page_descriptor_def user_data_page_descriptor_def bit_or_iff bit_flags)

text \<open>
  C21. The descriptor of a user mapping, as the hardware reads it: the page is
  present and open to user mode, it is executable there exactly when the mapping
  asks for it and writable exactly when it is not executable (so never both), the
  kernel may not execute it, and it leads to the frame of the mapping. The
  \<open>writable\<close> field of the mapping has no influence.
\<close>

theorem user_mapping_protection:
  "pd_present (mapping_descriptor m) \<and> pd_user (mapping_descriptor m) \<and>
   (pd_user_exec (mapping_descriptor m) \<longleftrightarrow> up_executable m) \<and>
   (pd_writable (mapping_descriptor m) \<longleftrightarrow> \<not> up_executable m) \<and>
   \<not> pd_kernel_exec (mapping_descriptor m) \<and>
   mapping_descriptor m AND TABLE_ADDR_MASK = up_phys m AND TABLE_ADDR_MASK"
  by (simp add: mapping_descriptor_def aarch64.code_reads aarch64.data_reads user_pages_privileged_xn)

text \<open>
  Kernel mappings on AArch64: whatever the attributes and the access, user mode
  can never execute the page; it is writable exactly when the access says so, the
  kernel may execute a normal page exactly when that was asked for and never a
  device page, and the frame is the one given.
\<close>

lemma kernel_mapping_protection:
  "\<not> pd_user_exec (kernel_page_descriptor p a c x) \<and>
   (pd_writable (kernel_page_descriptor p a c x) \<longleftrightarrow> write_access c) \<and>
   (pd_user (kernel_page_descriptor p a c x) \<longleftrightarrow> user_access c) \<and>
   (pd_kernel_exec (kernel_page_descriptor p a c x) \<longleftrightarrow> x \<and> a = Normal) \<and>
   kernel_page_descriptor p a c x AND TABLE_ADDR_MASK = p AND TABLE_ADDR_MASK"
proof -
  have "pd_kernel_exec (kernel_page_descriptor p a c x) \<longleftrightarrow> x \<and> a = Normal"
    "pd_user (kernel_page_descriptor p a c x) \<longleftrightarrow> user_access c"
    "\<not> pd_user_exec (kernel_page_descriptor p a c x)"
    by (cases a; simp add: pd_defs kernel_page_descriptor_def Let_def bit_or_iff bit_flags bit_page)+
  then show ?thesis by (simp add: aarch64.kernel_reads)
qed

end
