(* ===== verification/Mmu_X86_64.thy ===== *)
theory Mmu_X86_64
  imports Page_Tables
begin

text \<open>
  The x86-64 page-table entries of \<open>kernel/core/src/mmu/x86_64.rs\<close>.
\<close>

section \<open>Encoding\<close>

definition TABLE_ADDR_MASK :: u64 where "TABLE_ADDR_MASK = 0x000FFFFFFFFFF000"
definition BLOCK_1G_SIZE :: u64 where "BLOCK_1G_SIZE = push_bit 30 1"
definition BLOCK_2M_SIZE :: u64 where "BLOCK_2M_SIZE = push_bit 21 1"

definition table_descriptor :: "u64 \<Rightarrow> u64" where
  "table_descriptor physical = (physical AND TABLE_ADDR_MASK) OR 7"

definition page_descriptor :: "u64 \<Rightarrow> memory_attr \<Rightarrow> access \<Rightarrow> u64" where
  "page_descriptor physical attr access =
     (physical AND TABLE_ADDR_MASK) OR 1 OR push_bit 63 1 OR
     (case access of KernelReadWrite \<Rightarrow> 2 | KernelReadOnly \<Rightarrow> 0 | KernelUserReadOnly \<Rightarrow> 4
        | KernelUserReadWrite \<Rightarrow> 6) OR
     (case attr of Normal \<Rightarrow> 0 | Device \<Rightarrow> 0x18)"

definition kernel_page_descriptor :: "u64 \<Rightarrow> memory_attr \<Rightarrow> access \<Rightarrow> bool \<Rightarrow> u64" where
  "kernel_page_descriptor physical attr access executable =
     (let d = page_descriptor physical attr access AND NOT 4
      in if executable then d AND NOT (push_bit 63 1) else d)"

definition user_code_page_descriptor :: "u64 \<Rightarrow> u64" where
  "user_code_page_descriptor physical =
     page_descriptor physical Normal KernelUserReadOnly AND NOT (push_bit 63 1)"

definition user_data_page_descriptor :: "u64 \<Rightarrow> u64" where
  "user_data_page_descriptor physical = page_descriptor physical Normal KernelUserReadWrite"

definition block_descriptor_1g :: "u64 \<Rightarrow> memory_attr \<Rightarrow> access \<Rightarrow> u64" where
  "block_descriptor_1g physical attr access =
     page_descriptor (physical AND NOT (BLOCK_1G_SIZE - 1)) attr access OR 128"

definition block_descriptor_2m :: "u64 \<Rightarrow> memory_attr \<Rightarrow> access \<Rightarrow> u64" where
  "block_descriptor_2m physical attr access =
     page_descriptor (physical AND NOT (BLOCK_2M_SIZE - 1)) attr access OR 128"

section \<open>How the hardware reads a page-table entry\<close>

text \<open>Execution is controlled by one bit; supervisor execution of user pages is prevented elsewhere.\<close>

definition pt_present :: "u64 \<Rightarrow> bool" where "pt_present d \<longleftrightarrow> bit d 0"
definition pt_user :: "u64 \<Rightarrow> bool" where "pt_user d \<longleftrightarrow> bit d 2"
definition pt_writable :: "u64 \<Rightarrow> bool" where "pt_writable d \<longleftrightarrow> bit d 1"
definition pt_exec :: "u64 \<Rightarrow> bool" where "pt_exec d \<longleftrightarrow> \<not> bit d 63"

lemmas pt_defs = pt_present_def pt_user_def pt_writable_def pt_exec_def

lemma bit_entry_mask: "bit TABLE_ADDR_MASK k \<longleftrightarrow> 12 \<le> k \<and> k < 52"
  using mask_range [of TABLE_ADDR_MASK 12 40 k]
  by (auto simp: TABLE_ADDR_MASK_def push_bit_eq_mult mask_eq_exp_minus_1)

lemma bit_entry:
  "bit (page_descriptor p a c) k \<longleftrightarrow>
     (12 \<le> k \<and> k < 52 \<and> bit p k) \<or> k = 0 \<or> k = 63 \<or> write_access c \<and> k = 1 \<or> user_access c \<and> k = 2 \<or>
     a = Device \<and> (k = 3 \<or> k = 4)"
  unfolding page_descriptor_def bit_or_iff bit_and_iff bit_entry_mask bit_1_iff bit_shifted
  by (cases a; cases c; simp only: access.case memory_attr.case bit_small bit_0_eq bot_apply access_simps) auto

lemma bit_kernel:
  "bit (kernel_page_descriptor p a c x) k \<longleftrightarrow> bit (page_descriptor p a c) k \<and> k \<noteq> 2 \<and> (x \<longrightarrow> k \<noteq> 63)"
  unfolding kernel_page_descriptor_def Let_def if_distrib [of "\<lambda>d. bit d k"] bit_and_iff bit_not_iff
    bit_small bit_shifted
  using bit_imp_le_length [of "page_descriptor p a c" k] by auto

lemma bit_code:
  "bit (user_code_page_descriptor p) k \<longleftrightarrow> bit (page_descriptor p Normal KernelUserReadOnly) k \<and> k \<noteq> 63"
  unfolding user_code_page_descriptor_def bit_and_iff bit_not_iff bit_shifted
  using bit_imp_le_length [of "page_descriptor p Normal KernelUserReadOnly" k] by auto

lemma bit_data:
  "bit (user_data_page_descriptor p) k \<longleftrightarrow> bit (page_descriptor p Normal KernelUserReadWrite) k"
  by (simp add: user_data_page_descriptor_def)

lemma entry_frame:
  assumes "\<And>k. 12 \<le> k \<Longrightarrow> k < 52 \<Longrightarrow> bit d k = bit p k"
  shows "d AND TABLE_ADDR_MASK = p AND TABLE_ADDR_MASK"
  by (rule bit_word_eqI) (auto simp: bit_and_iff bit_entry_mask assms)

interpretation x86_64: page_tables page_descriptor kernel_page_descriptor user_code_page_descriptor
    user_data_page_descriptor TABLE_ADDR_MASK pt_present pt_user pt_writable pt_exec pt_exec
  by unfold_locales (auto simp: pt_defs bit_entry bit_kernel bit_code bit_data bit_entry_mask intro!: entry_frame)

section \<open>Protection\<close>

text \<open>
  C22. Page-table entries on x86-64: a code page is user-readable, executable and not
  writable, a data page is user-writable and not executable, a kernel page is never
  open to user mode and is executable exactly when that was asked for, and each
  entry leads to the frame it was given.
\<close>

theorem page_entry_protection:
  "pt_present (user_code_page_descriptor p) \<and> pt_user (user_code_page_descriptor p) \<and>
   pt_exec (user_code_page_descriptor p) \<and> \<not> pt_writable (user_code_page_descriptor p) \<and>
   pt_present (user_data_page_descriptor p) \<and> pt_user (user_data_page_descriptor p) \<and>
   pt_writable (user_data_page_descriptor p) \<and> \<not> pt_exec (user_data_page_descriptor p) \<and>
   \<not> pt_user (kernel_page_descriptor p a c x) \<and>
   (pt_exec (kernel_page_descriptor p a c x) \<longleftrightarrow> x) \<and>
   (pt_writable (kernel_page_descriptor p a c x) \<longleftrightarrow> write_access c) \<and>
   user_code_page_descriptor p AND TABLE_ADDR_MASK = p AND TABLE_ADDR_MASK \<and>
   user_data_page_descriptor p AND TABLE_ADDR_MASK = p AND TABLE_ADDR_MASK \<and>
   kernel_page_descriptor p a c x AND TABLE_ADDR_MASK = p AND TABLE_ADDR_MASK"
proof -
  have "\<not> pt_user (kernel_page_descriptor p a c x)" "pt_exec (kernel_page_descriptor p a c x) \<longleftrightarrow> x"
    by (auto simp: pt_defs bit_kernel bit_entry)
  then show ?thesis
    by (auto simp: x86_64.code_reads x86_64.data_reads x86_64.kernel_reads)
qed

end
