(* ===== verification/Transplant.thy ===== *)
theory Transplant
  imports Codec
begin

text \<open>
  Handing the machine to a replacement kernel (\<open>kernel/core/src/transplant.rs\<close>
  and \<open>transplant/handoff.rs\<close>): the snapshot header with its checksum, the
  records that describe preserved memory, and the handoff block the old kernel
  seals and the new kernel validates. The build-time choice of architecture is
  the parameter \<open>x86\<close>; it selects the update areas of \<open>lib/boot/lib.rs\<close>.
\<close>

section \<open>Snapshots\<close>

definition SNAPSHOT_MAGIC :: u32 where "SNAPSHOT_MAGIC = 0x42584854"
definition SNAPSHOT_VERSION :: u16 where "SNAPSHOT_VERSION = 1"

datatype snapshot_phase = LiveBulk | SwitchDelta

record preserved_region =
  pr_start :: u64
  pr_len :: u64

definition region_end :: "preserved_region \<Rightarrow> u64 option" where
  "region_end r = checked_add (pr_start r) (pr_len r)"

definition region_contains :: "preserved_region \<Rightarrow> u64 \<Rightarrow> u64 \<Rightarrow> bool" where
  "region_contains r ptr len =
     (case region_end r of
        None \<Rightarrow> False
      | Some stop \<Rightarrow>
          (case checked_add ptr len of
             None \<Rightarrow> False
           | Some range_stop \<Rightarrow> ptr \<ge> pr_start r \<and> range_stop \<le> stop))"

definition validate_preserved_range :: "preserved_region list \<Rightarrow> u64 \<Rightarrow> u64 \<Rightarrow> bool" where
  "validate_preserved_range regions ptr len \<longleftrightarrow> len > 0 \<and> list_ex (\<lambda>region. region_contains region ptr len) regions"

definition checksum_step :: "u8 \<Rightarrow> u32 \<Rightarrow> u32" where
  "checksum_step byte value = word_rotl 5 value XOR ucast byte"

definition checksum :: "u8 list \<Rightarrow> u32" where
  "checksum bytes = fold checksum_step bytes 0x42580005"

record snapshot_header =
  sh_magic :: u32
  sh_version :: u16
  sh_phase :: snapshot_phase
  sh_checksum :: u32
  sh_payload_len :: u32
  sh_preserved_ptr :: u64
  sh_preserved_len :: u64

definition header_new :: "snapshot_phase \<Rightarrow> u8 list \<Rightarrow> u64 \<Rightarrow> u64 \<Rightarrow> transplant_error + snapshot_header" where
  "header_new phase payload preserved_ptr preserved_len =
     (if length payload \<ge> 2 ^ 32 then Inl PayloadTooLarge
      else Inr \<lparr> sh_magic = SNAPSHOT_MAGIC, sh_version = SNAPSHOT_VERSION, sh_phase = phase,
                 sh_checksum = checksum payload, sh_payload_len = of_nat (length payload),
                 sh_preserved_ptr = preserved_ptr, sh_preserved_len = preserved_len \<rparr>)"

definition header_validate ::
    "snapshot_header \<Rightarrow> snapshot_phase \<Rightarrow> u8 list \<Rightarrow> preserved_region list \<Rightarrow> transplant_error + unit" where
  "header_validate h expected_phase payload preserved_regions =
     (if sh_magic h \<noteq> SNAPSHOT_MAGIC then Inl BadMagic
      else if sh_version h \<noteq> SNAPSHOT_VERSION then Inl UnsupportedVersion
      else if sh_phase h \<noteq> expected_phase then Inl WrongSnapshotPhase
      else if unat (sh_payload_len h) \<noteq> length payload then Inl LengthMismatch
      else if sh_checksum h \<noteq> checksum payload then Inl ChecksumMismatch
      else if \<not> validate_preserved_range preserved_regions (sh_preserved_ptr h) (sh_preserved_len h)
        then Inl RangeOutsidePreservedRam
      else Inr ())"

record frozen_task_record =
  ft_task_id :: u64
  ft_entry :: u64
  ft_stack_pointer :: u64
  ft_state_ptr :: u64
  ft_state_len :: u64

definition frozen_task_validate :: "frozen_task_record \<Rightarrow> preserved_region list \<Rightarrow> transplant_error + unit" where
  "frozen_task_validate t preserved_regions =
     (if ft_task_id t = 0 then Inl InvalidTransplantTask
      else if \<not> validate_preserved_range preserved_regions (ft_state_ptr t) (ft_state_len t)
        then Inl RangeOutsidePreservedRam
      else Inr ())"

record capability_handle_record =
  ch_object_id :: u64
  ch_rights :: u32
  ch_owner_task_id :: u64

definition capability_validate :: "capability_handle_record \<Rightarrow> transplant_error + unit" where
  "capability_validate c =
     (if ch_object_id c = 0 \<or> ch_owner_task_id c = 0 then Inl InvalidCapability else Inr ())"

record cpu_context_record =
  cc_cpu_id :: u64
  cc_program_counter :: u64
  cc_stack_pointer :: u64
  cc_pstate :: u64
  cc_ttbr0_el1 :: u64
  cc_ttbr1_el1 :: u64
  cc_vbar_el1 :: u64

definition cpu_context_validate :: "cpu_context_record \<Rightarrow> transplant_error + unit" where
  "cpu_context_validate c =
     (if cc_program_counter c = 0 \<or> cc_stack_pointer c = 0 \<or> cc_vbar_el1 c = 0 then Inl InvalidCpuContext
      else if cc_stack_pointer c AND 0xf \<noteq> 0 then Inl InvalidCpuContext
      else Inr ())"

section \<open>The handoff block\<close>

definition ARCHITECTURE :: "bool \<Rightarrow> u64" where "ARCHITECTURE x86 = (if x86 then 2 else 1)"
definition UPDATE_BASE :: "bool \<Rightarrow> u64" where "UPDATE_BASE x86 = (if x86 then 0x10000000 else 0x42000000)"
definition UPDATE_END :: "bool \<Rightarrow> u64" where "UPDATE_END x86 = (if x86 then 0x11000000 else 0x43000000)"
definition UPDATE_SNAPSHOT :: "bool \<Rightarrow> u64" where
  "UPDATE_SNAPSHOT x86 = (if x86 then 0x11000000 else 0x43000000)"
definition UPDATE_SNAPSHOT_END :: "bool \<Rightarrow> u64" where
  "UPDATE_SNAPSHOT_END x86 = (if x86 then 0x11400000 else 0x43400000)"

definition HANDOFF_MAGIC :: u64 where
  "HANDOFF_MAGIC = from_le_bytes [66, 69, 88, 75, 72, 48, 48, 51]"
definition HANDOFF_VERSION :: u64 where "HANDOFF_VERSION = 4"

record system_registers =
  sr_mair :: u64
  sr_tcr :: u64
  sr_sctlr :: u64
  sr_cpacr :: u64
  sr_cntkctl :: u64

record kernel_range =
  kr_start :: u64
  kr_len :: u64

definition range_end :: "kernel_range \<Rightarrow> u64 option" where
  "range_end r = checked_add (kr_start r) (kr_len r)"

definition is_page_aligned :: "kernel_range \<Rightarrow> bool" where
  "is_page_aligned r \<longleftrightarrow> kr_start r mod 4096 = 0 \<and> kr_len r mod 4096 = 0"

definition range_contains :: "kernel_range \<Rightarrow> kernel_range \<Rightarrow> bool" where
  "range_contains r other \<longleftrightarrow>
     kr_len r > 0 \<and> kr_len other > 0 \<and> kr_start r \<le> kr_start other \<and>
     (case (range_end r, range_end other) of (Some a, Some b) \<Rightarrow> b \<le> a | _ \<Rightarrow> False)"

definition overlaps :: "kernel_range \<Rightarrow> kernel_range \<Rightarrow> bool" where
  "overlaps r other \<longleftrightarrow>
     (case (range_end r, range_end other) of
        (Some a, Some b) \<Rightarrow> kr_start r < b \<and> kr_start other < a | _ \<Rightarrow> True)"

record handoff =
  ho_magic :: u64
  ho_version :: u64
  ho_generation :: u64
  ho_old_kernel :: kernel_range
  ho_old_reclaim :: kernel_range
  ho_replacement :: kernel_range
  ho_handoff :: kernel_range
  ho_snapshot :: kernel_range
  ho_replacement_entry :: u64
  ho_cpu :: cpu_context_record
  ho_system :: system_registers
  ho_switch_authorized :: u64
  ho_artifact_hash :: "u8 list"
  ho_snapshot_checksum :: u64
  ho_checksum :: u64
  ho_architecture :: u64
  ho_architecture_state :: "u64 list"

definition write_range :: "kernel_range \<Rightarrow> writer \<Rightarrow> transplant_error + writer" where
  "write_range r = writer_words [kr_start r, kr_len r]"

text \<open>The writes of \<open>computed_checksum\<close> into its 512-byte array.\<close>

definition write_handoff :: "handoff \<Rightarrow> writer \<Rightarrow> transplant_error + writer" where
  "write_handoff h w =
     and_then (writer_words [ho_magic h, ho_version h, ho_generation h] w) (\<lambda>w.
     and_then (writer_each write_range [ho_old_kernel h, ho_old_reclaim h, ho_replacement h,
       ho_handoff h, ho_snapshot h] w) (\<lambda>w.
     and_then (writer_words [ho_replacement_entry h, cc_cpu_id (ho_cpu h), cc_program_counter (ho_cpu h),
       cc_stack_pointer (ho_cpu h), cc_pstate (ho_cpu h), cc_ttbr0_el1 (ho_cpu h), cc_ttbr1_el1 (ho_cpu h),
       cc_vbar_el1 (ho_cpu h), ho_snapshot_checksum h] w) (\<lambda>w.
     and_then (writer_bytes (ho_artifact_hash h) w) (\<lambda>w.
     and_then (writer_words [sr_mair (ho_system h), sr_tcr (ho_system h), sr_sctlr (ho_system h),
       sr_cpacr (ho_system h), sr_cntkctl (ho_system h), ho_switch_authorized h] w)
       (if ho_version h \<ge> 4
        then (\<lambda>w. and_then (writer_word (ho_architecture h) w) (writer_words (ho_architecture_state h)))
        else Inr)))))"

text \<open>
  Each write is unwrapped in the source. The array is large enough
  (\<open>write_handoff_fits\<close>), so the error case does not occur.
\<close>

definition computed_checksum :: "handoff \<Rightarrow> u32" where
  "computed_checksum h =
     checksum (case write_handoff h (writer_new (replicate 512 0)) of Inl _ \<Rightarrow> [] | Inr w \<Rightarrow> written w)"

definition seal :: "handoff \<Rightarrow> handoff" where
  "seal h = h\<lparr> ho_checksum := ucast (computed_checksum h) \<rparr>"

definition range_valid :: "kernel_range \<Rightarrow> bool" where
  "range_valid r \<longleftrightarrow> \<not> (kr_len r = 0 \<or> \<not> is_page_aligned r \<or> range_end r = None)"

fun any_overlap :: "kernel_range list \<Rightarrow> bool" where
  "any_overlap [] = False"
| "any_overlap (a # rs) = (list_ex (overlaps a) rs \<or> any_overlap rs)"

definition handoff_validate :: "bool \<Rightarrow> handoff \<Rightarrow> transplant_error + unit" where
  "handoff_validate x86 h =
     (if ho_magic h \<noteq> HANDOFF_MAGIC then Inl BadMagic
      else if ho_version h \<noteq> HANDOFF_VERSION \<and> \<not> (ho_version h = 3 \<and> ARCHITECTURE x86 = 1)
        then Inl UnsupportedVersion
      else if ho_version h \<ge> 4 \<and> ho_architecture h \<noteq> ARCHITECTURE x86 then Inl InvalidCpuContext
      else if ho_checksum h \<noteq> ucast (computed_checksum h) then Inl ChecksumMismatch
      else if \<not> list_all range_valid [ho_old_kernel h, ho_old_reclaim h, ho_replacement h, ho_handoff h]
        then Inl InvalidKernelRange
      else if \<not> range_contains (ho_old_kernel h) (ho_old_reclaim h) \<or>
              \<not> range_contains \<lparr> kr_start = UPDATE_BASE x86, kr_len = UPDATE_END x86 - UPDATE_BASE x86 \<rparr>
                  (ho_replacement h) \<or>
              \<not> range_contains \<lparr> kr_start = UPDATE_SNAPSHOT x86,
                                 kr_len = UPDATE_SNAPSHOT_END x86 - UPDATE_SNAPSHOT x86 \<rparr> (ho_snapshot h) \<or>
              \<not> range_contains (ho_replacement h) \<lparr> kr_start = ho_replacement_entry h, kr_len = 4 \<rparr>
        then Inl InvalidKernelRange
      else if any_overlap [ho_old_kernel h, ho_replacement h, ho_handoff h, ho_snapshot h]
        then Inl OverlappingKernelRange
      else if ho_switch_authorized h > 1 then Inl InvalidRuntimeSnapshot
      else cpu_context_validate (ho_cpu h))"

definition handoff_validate_snapshot :: "bool \<Rightarrow> handoff \<Rightarrow> u8 list \<Rightarrow> transplant_error + unit" where
  "handoff_validate_snapshot x86 h bytes =
     and_then (handoff_validate x86 h) (\<lambda>_.
       if of_nat (length bytes) \<noteq> kr_len (ho_snapshot h) then Inl LengthMismatch
       else if ucast (checksum bytes) \<noteq> ho_snapshot_checksum h then Inl ChecksumMismatch
       else Inr ())"

section \<open>The checksum\<close>

lemma word_rotl_inj: "word_rotl n v = word_rotl n w \<Longrightarrow> v = w"
  by (metis word_rot_lr)

lemma checksum_step_inj: "checksum_step b v = checksum_step b w \<Longrightarrow> v = w"
  unfolding checksum_step_def by (metis bit.xor_left_self xor.commute word_rotl_inj)

lemma checksum_step_byte: "checksum_step b v = checksum_step c v \<Longrightarrow> b = c"
proof -
  assume "checksum_step b v = checksum_step c v"
  then have "(ucast b :: u32) = ucast c" unfolding checksum_step_def by (metis bit.xor_left_self)
  then have "bit (ucast b :: u32) n = bit (ucast c :: u32) n" for n by simp
  then show "b = c" by (intro bit_word_eqI) (force simp: bit_simps)
qed

lemma checksum_fold_inj: "fold checksum_step bytes v = fold checksum_step bytes w \<Longrightarrow> v = w"
  by (induction bytes arbitrary: v w) (auto dest: checksum_step_inj)

lemma checksum_single_byte:
  assumes "b \<noteq> c"
  shows "checksum (before @ b # after) \<noteq> checksum (before @ c # after)"
  using assms checksum_fold_inj checksum_step_byte unfolding checksum_def by fastforce

lemma header_new_Inr:
  assumes "header_new phase payload ptr len = Inr h"
  shows "sh_magic h = SNAPSHOT_MAGIC" "sh_version h = SNAPSHOT_VERSION" "sh_phase h = phase"
    "sh_checksum h = checksum payload" "unat (sh_payload_len h) = length payload"
    "sh_preserved_ptr h = ptr" "sh_preserved_len h = len"
  using assms by (auto simp: header_new_def unsigned_of_nat take_bit_nat_eq_self split: if_splits)

section \<open>Properties\<close>

text \<open>
  C24. The snapshot header detects the corruption of any single byte of the
  payload: a header made for a payload accepts that payload in the right phase
  when its preserved range is valid, and reports a checksum mismatch when one
  byte of it has been changed, whichever byte and whatever its new value.
\<close>

theorem header_detects_corruption:
  assumes "header_new phase (before @ b # after) ptr len = Inr h"
  shows "header_validate h phase (before @ b # after) regions =
      (if validate_preserved_range regions ptr len then Inr () else Inl RangeOutsidePreservedRam) \<and>
    (c \<noteq> b \<longrightarrow> header_validate h phase (before @ c # after) regions = Inl ChecksumMismatch)"
proof -
  note h = header_new_Inr [OF assms]
  have "length (before @ c # after) = length (before @ b # after)" by simp
  with h checksum_single_byte [of b c before after] show ?thesis
    by (auto simp: header_validate_def simp del: length_append)
qed

theorem header_detects_corruption_witness:
  "\<exists>h. header_new LiveBulk [7, 8, 9] 4096 16 = Inr h \<and>
     header_validate h LiveBulk [7, 8, 9] [\<lparr> pr_start = 4096, pr_len = 4096 \<rparr>] = Inr () \<and>
     header_validate h LiveBulk [7, 8, 1] [\<lparr> pr_start = 4096, pr_len = 4096 \<rparr>] = Inl ChecksumMismatch"
proof -
  obtain h where h: "header_new LiveBulk ([7, 8] @ 9 # []) 4096 16 = Inr h" by (simp add: header_new_def)
  have "validate_preserved_range [\<lparr> pr_start = 4096, pr_len = 4096 \<rparr>] 4096 16"
    by (simp add: validate_preserved_range_def region_contains_def region_end_def checked_add_def)
  with header_detects_corruption [OF h, of "[\<lparr> pr_start = 4096, pr_len = 4096 \<rparr>]" 1] h show ?thesis by simp
qed

text \<open>The addresses of a range, as natural numbers.\<close>

definition range_addrs :: "kernel_range \<Rightarrow> nat set" where
  "range_addrs r = {unat (kr_start r) ..< unat (kr_start r) + unat (kr_len r)}"

lemma range_end_Some: "range_end r = Some e \<longleftrightarrow> unat e = unat (kr_start r) + unat (kr_len r)"
  by (simp add: range_end_def checked_add_Some)

lemma range_end_fits: "range_end r = Some e \<Longrightarrow> unat (kr_start r) + unat (kr_len r) < 2 ^ 64"
  using unsigned_less [of e, where 'a = nat] by (simp add: range_end_Some)

lemma range_valid_nat:
  "range_valid r \<Longrightarrow> (0 < kr_len r \<and> unat (kr_start r) + unat (kr_len r) < 2 ^ 64) \<and>
    4096 dvd unat (kr_start r) \<and> 4096 dvd unat (kr_len r)"
  using range_end_fits [of r]
  by (auto simp: range_valid_def is_page_aligned_def word_unat_eq_iff unat_mod dvd_eq_mod_eq_0 word_less_nat_alt)

lemma range_contains_addrs: "range_contains r q \<Longrightarrow> range_addrs q \<subseteq> range_addrs r \<and> range_addrs q \<noteq> {}"
  by (auto simp: range_contains_def range_addrs_def range_end_Some word_le_nat_alt word_less_nat_alt
      split: option.splits)

lemma not_overlaps_addrs: "\<not> overlaps r q \<Longrightarrow> range_addrs r \<inter> range_addrs q = {}"
  by (auto simp: overlaps_def range_addrs_def range_end_Some word_less_nat_alt split: option.splits)

lemma any_overlap_addrs:
  assumes "\<not> any_overlap rs" and "i < j" "j < length rs"
  shows "range_addrs (rs ! i) \<inter> range_addrs (rs ! j) = {}"
  using assms
proof (induction rs arbitrary: i j)
  case (Cons r rs)
  then obtain k where k: "j = Suc k" "k < length rs" by (cases j) auto
  show ?case
  proof (cases i)
    case 0
    with Cons.prems k have "\<not> overlaps r (rs ! k)" by (auto simp: list_ex_iff)
    with 0 k show ?thesis by (simp add: not_overlaps_addrs)
  next
    case (Suc m)
    with Cons k show ?thesis by auto
  qed
qed simp

definition enc_range :: "kernel_range \<Rightarrow> u8 list" where
  "enc_range r = concat (map to_le_bytes [kr_start r, kr_len r])"

definition enc_tail :: "handoff \<Rightarrow> u8 list" where
  "enc_tail h = (if ho_version h \<ge> 4
     then to_le_bytes (ho_architecture h) @ concat (map to_le_bytes (ho_architecture_state h)) else [])"

definition enc_body :: "handoff \<Rightarrow> u8 list" where
  "enc_body h =
     concat (map enc_range [ho_old_kernel h, ho_old_reclaim h, ho_replacement h, ho_handoff h, ho_snapshot h]) @
     concat (map to_le_bytes [ho_replacement_entry h, cc_cpu_id (ho_cpu h), cc_program_counter (ho_cpu h),
       cc_stack_pointer (ho_cpu h), cc_pstate (ho_cpu h), cc_ttbr0_el1 (ho_cpu h), cc_ttbr1_el1 (ho_cpu h),
       cc_vbar_el1 (ho_cpu h), ho_snapshot_checksum h]) @
     ho_artifact_hash h @
     concat (map to_le_bytes [sr_mair (ho_system h), sr_tcr (ho_system h), sr_sctlr (ho_system h),
       sr_cpacr (ho_system h), sr_cntkctl (ho_system h), ho_switch_authorized h]) @ enc_tail h"

definition enc_handoff :: "handoff \<Rightarrow> u8 list" where
  "enc_handoff h = concat (map to_le_bytes [ho_magic h, ho_version h, ho_generation h]) @ enc_body h"

lemma writes_handoff: "writes (enc_handoff h) (write_handoff h)"
proof -
  have "writes (enc_range r) (write_range r)" for r
    unfolding write_range_def enc_range_def by (rule writes_words)
  moreover have "writes (enc_tail h) (if ho_version h \<ge> 4
      then (\<lambda>w. and_then (writer_word (ho_architecture h) w) (writer_words (ho_architecture_state h)))
      else Inr)"
    by (simp add: enc_tail_def writes_intros)
  ultimately show ?thesis
    unfolding enc_handoff_def enc_body_def write_handoff_def by (intro writes_then writes_words writes_bytes writes_each)
qed

lemma write_handoff_fits:
  assumes "length (ho_artifact_hash h) = 32" and "length (ho_architecture_state h) = 16"
  shows "\<exists>w. write_handoff h (writer_new (replicate 512 0)) = Inr w \<and> written w = enc_handoff h"
proof -
  have "length (enc_handoff h) \<le> 392"
    using assms by (simp add: enc_handoff_def enc_body_def enc_range_def enc_tail_def length_concat comp_def sum_list_triv)
  then obtain w where w: "writer_bytes (enc_handoff h) (writer_new (replicate 512 0)) = Inr w"
    by (simp add: writer_bytes_def writer_new_def Let_def)
  moreover from writer_bytes_Inr [OF w] have "written w = enc_handoff h" by simp
  ultimately show ?thesis using writesD [OF writes_handoff writer_new_ok(1)] by simp
qed

text \<open>
  C23. What a replacement kernel may rely on once it has validated the handoff
  block. The old kernel, the replacement, the handoff page and the snapshot lie
  in pairwise disjoint address ranges. The replacement lies inside the update area
  and the snapshot inside the snapshot area; the part of the old kernel to be
  reclaimed lies inside the old kernel, and the entry point inside the
  replacement. None of the five ranges is empty or wraps around, and all but the
  snapshot start and end at page boundaries.
\<close>

theorem handoff_ranges_disjoint:
  assumes "handoff_validate x86 h = Inr ()"
  shows "(\<forall>i j. i < j \<longrightarrow> j < 4 \<longrightarrow>
       range_addrs ([ho_old_kernel h, ho_replacement h, ho_handoff h, ho_snapshot h] ! i) \<inter>
       range_addrs ([ho_old_kernel h, ho_replacement h, ho_handoff h, ho_snapshot h] ! j) = {}) \<and>
    range_addrs (ho_replacement h) \<subseteq> {unat (UPDATE_BASE x86) ..< unat (UPDATE_END x86)} \<and>
    range_addrs (ho_snapshot h) \<subseteq> {unat (UPDATE_SNAPSHOT x86) ..< unat (UPDATE_SNAPSHOT_END x86)} \<and>
    range_addrs (ho_old_reclaim h) \<subseteq> range_addrs (ho_old_kernel h) \<and>
    unat (ho_replacement_entry h) \<in> range_addrs (ho_replacement h) \<and>
    (\<forall>r\<in>{ho_old_kernel h, ho_old_reclaim h, ho_replacement h, ho_handoff h, ho_snapshot h}.
       0 < kr_len r \<and> unat (kr_start r) + unat (kr_len r) < 2 ^ 64) \<and>
    (\<forall>r\<in>{ho_old_kernel h, ho_old_reclaim h, ho_replacement h, ho_handoff h}.
       4096 dvd unat (kr_start r) \<and> 4096 dvd unat (kr_len r))"
proof -
  let ?rs = "[ho_old_kernel h, ho_replacement h, ho_handoff h, ho_snapshot h]"
  let ?update = "\<lparr> kr_start = UPDATE_BASE x86, kr_len = UPDATE_END x86 - UPDATE_BASE x86 \<rparr>"
  let ?snap = "\<lparr> kr_start = UPDATE_SNAPSHOT x86, kr_len = UPDATE_SNAPSHOT_END x86 - UPDATE_SNAPSHOT x86 \<rparr>"
  let ?entry = "\<lparr> kr_start = ho_replacement_entry h, kr_len = 4 \<rparr>"
  from assms have o: "\<not> any_overlap ?rs" and c: "range_contains (ho_old_kernel h) (ho_old_reclaim h)"
      "range_contains ?update (ho_replacement h)" "range_contains ?snap (ho_snapshot h)"
      "range_contains (ho_replacement h) ?entry"
    and v: "range_valid (ho_old_kernel h)" "range_valid (ho_old_reclaim h)" "range_valid (ho_replacement h)"
      "range_valid (ho_handoff h)"
    unfolding handoff_validate_def by (simp_all split: if_splits)
  have "0 < kr_len (ho_snapshot h) \<and> unat (kr_start (ho_snapshot h)) + unat (kr_len (ho_snapshot h)) < 2 ^ 64"
    using c(3) range_end_fits [of "ho_snapshot h"] by (auto simp: range_contains_def split: option.splits)
  note v = this v [THEN range_valid_nat]
  have "range_addrs ?update = {unat (UPDATE_BASE x86) ..< unat (UPDATE_END x86)}"
    "range_addrs ?snap = {unat (UPDATE_SNAPSHOT x86) ..< unat (UPDATE_SNAPSHOT_END x86)}"
    by (simp_all add: range_addrs_def UPDATE_BASE_def UPDATE_END_def UPDATE_SNAPSHOT_def UPDATE_SNAPSHOT_END_def)
  moreover have "unat (ho_replacement_entry h) \<in> range_addrs ?entry" by (simp add: range_addrs_def)
  ultimately show ?thesis
    using c [THEN range_contains_addrs] any_overlap_addrs [OF o] v by auto
qed

lemma computed_checksum_eq:
  assumes "length (ho_artifact_hash h) = 32" and "length (ho_architecture_state h) = 16"
  shows "computed_checksum h = checksum (enc_handoff h)"
  using write_handoff_fits [OF assms] by (auto simp: computed_checksum_def)

lemma computed_checksum_seal: "computed_checksum (h\<lparr> ho_checksum := c \<rparr>) = computed_checksum h"
proof -
  have "write_handoff (h\<lparr> ho_checksum := c \<rparr>) = write_handoff h" by (rule ext) (simp add: write_handoff_def)
  then show ?thesis by (simp add: computed_checksum_def)
qed

lemma seal_sel [simp]:
  "ho_magic (seal h) = ho_magic h" "ho_version (seal h) = ho_version h"
  "ho_old_kernel (seal h) = ho_old_kernel h" "ho_old_reclaim (seal h) = ho_old_reclaim h"
  "ho_replacement (seal h) = ho_replacement h" "ho_handoff (seal h) = ho_handoff h"
  "ho_snapshot (seal h) = ho_snapshot h" "ho_replacement_entry (seal h) = ho_replacement_entry h"
  "ho_cpu (seal h) = ho_cpu h" "ho_switch_authorized (seal h) = ho_switch_authorized h"
  "ho_architecture (seal h) = ho_architecture h" "computed_checksum (seal h) = computed_checksum h"
  "ho_checksum (seal h) = ucast (computed_checksum h)"
  by (simp_all add: seal_def computed_checksum_seal)

definition demo_range :: "u64 \<Rightarrow> u64 \<Rightarrow> kernel_range" where
  "demo_range start len = \<lparr> kr_start = start, kr_len = len \<rparr>"

definition demo_handoff :: "u64 \<Rightarrow> handoff" where
  "demo_handoff generation = \<lparr>
     ho_magic = HANDOFF_MAGIC, ho_version = HANDOFF_VERSION, ho_generation = generation,
     ho_old_kernel = demo_range 0x40000000 0x200000, ho_old_reclaim = demo_range 0x40100000 0x1000,
     ho_replacement = demo_range 0x42000000 0x100000, ho_handoff = demo_range 0x44000000 0x1000,
     ho_snapshot = demo_range 0x43000000 0x2000, ho_replacement_entry = 0x42000100,
     ho_cpu = \<lparr> cc_cpu_id = 0, cc_program_counter = 0x42000100, cc_stack_pointer = 0x42080000, cc_pstate = 0,
       cc_ttbr0_el1 = 0, cc_ttbr1_el1 = 0, cc_vbar_el1 = 0x42001000 \<rparr>,
     ho_system = \<lparr> sr_mair = 0, sr_tcr = 0, sr_sctlr = 0, sr_cpacr = 0, sr_cntkctl = 0 \<rparr>,
     ho_switch_authorized = 1, ho_artifact_hash = replicate 32 0, ho_snapshot_checksum = 0,
     ho_checksum = 0, ho_architecture = 1, ho_architecture_state = replicate 16 0 \<rparr>"

lemmas handoff_eval = demo_handoff_def demo_range_def handoff_validate_def HANDOFF_VERSION_def ARCHITECTURE_def
  range_valid_def is_page_aligned_def range_end_def checked_add_def range_contains_def overlaps_def
  UPDATE_BASE_def UPDATE_END_def UPDATE_SNAPSHOT_def UPDATE_SNAPSHOT_END_def cpu_context_validate_def

lemma demo_handoff_valid: "handoff_validate False (seal (demo_handoff g)) = Inr ()"
  by (simp add: handoff_eval)

theorem handoff_ranges_disjoint_witness:
  "handoff_validate False (seal (demo_handoff 1)) = Inr () \<and>
   range_addrs (ho_old_kernel (seal (demo_handoff 1))) \<inter> range_addrs (ho_snapshot (seal (demo_handoff 1))) = {} \<and>
   unat (ho_replacement_entry (seal (demo_handoff 1))) \<in> range_addrs (ho_replacement (seal (demo_handoff 1)))"
proof -
  let ?h = "seal (demo_handoff 1)"
  have valid: "handoff_validate False ?h = Inr ()" by (rule demo_handoff_valid)
  note p = handoff_ranges_disjoint [OF valid]
  from p have "range_addrs ([ho_old_kernel ?h, ho_replacement ?h, ho_handoff ?h, ho_snapshot ?h] ! 0) \<inter>
     range_addrs ([ho_old_kernel ?h, ho_replacement ?h, ho_handoff ?h, ho_snapshot ?h] ! 3) = {}"
    by (elim conjE allE [of _ 0] allE [of _ 3]) simp
  with valid p show ?thesis by simp
qed

text \<open>
  C25. A sealed handoff block protects its contents: sealing makes the stored
  checksum match, and a block whose canonical bytes differ from the sealed
  block's in one byte, with the checksum field unchanged, is rejected.
\<close>

theorem sealed_handoff_detects_corruption:
  assumes h: "length (ho_artifact_hash h) = 32" "length (ho_architecture_state h) = 16"
    and h': "length (ho_artifact_hash h') = 32" "length (ho_architecture_state h') = 16"
    and d: "enc_handoff h = before @ b # after" "enc_handoff h' = before @ c # after" "b \<noteq> c"
    and k: "ho_checksum h' = ho_checksum (seal h)"
  shows "ho_checksum (seal h) = ucast (computed_checksum (seal h)) \<and> handoff_validate x86 h' \<noteq> Inr ()"
proof -
  have "computed_checksum h' \<noteq> computed_checksum h"
    unfolding computed_checksum_eq [OF h] computed_checksum_eq [OF h'] d
    using checksum_single_byte d(3) by metis
  moreover have "(ucast v :: u64) = ucast w \<Longrightarrow> v = w" for v w :: u32
  proof -
    assume "(ucast v :: u64) = ucast w"
    then have "bit (ucast v :: u64) n = bit (ucast w :: u64) n" for n by simp
    then show "v = w" by (intro bit_word_eqI) (force simp: bit_simps)
  qed
  ultimately have "ho_checksum h' \<noteq> ucast (computed_checksum h')" using k by auto
  then show ?thesis by (auto simp: handoff_validate_def split: if_splits)
qed

theorem sealed_handoff_detects_corruption_witness:
  "handoff_validate False ((demo_handoff 2)\<lparr> ho_checksum := ho_checksum (seal (demo_handoff 1)) \<rparr>) \<noteq> Inr ()"
proof -
  let ?h = "(demo_handoff 2)\<lparr> ho_checksum := ho_checksum (seal (demo_handoff 1)) \<rparr>"
  let ?before = "to_le_bytes HANDOFF_MAGIC @ to_le_bytes HANDOFF_VERSION"
  have le: "to_le_bytes (1 :: u64) = [1, 0, 0, 0, 0, 0, 0, 0]" "to_le_bytes (2 :: u64) = [2, 0, 0, 0, 0, 0, 0, 0]"
    by (simp_all add: to_le_bytes_def upt_rec)
  have "enc_body ?h = enc_body (demo_handoff 1)" by (simp add: enc_body_def enc_tail_def demo_handoff_def)
  then have "enc_handoff (demo_handoff 1) = ?before @ 1 # [0, 0, 0, 0, 0, 0, 0] @ enc_body (demo_handoff 1)"
      "enc_handoff ?h = ?before @ 2 # [0, 0, 0, 0, 0, 0, 0] @ enc_body (demo_handoff 1)"
    unfolding enc_handoff_def by (simp_all add: demo_handoff_def le)
  from sealed_handoff_detects_corruption [OF _ _ _ _ this, of False] show ?thesis
    by (simp add: demo_handoff_def)
qed

end
