(* ===== verification/Hardware.thy ===== *)
theory Hardware
  imports Codec
begin

text \<open>
  The device encodings of the kernel core: PCI configuration addresses, base
  address registers and commands (\<open>kernel/core/src/pci.rs\<close>), PSCI power calls
  (\<open>psci.rs\<close>) and the NVMe registers and identify data (\<open>nvme.rs\<close>).
\<close>

section \<open>PCI\<close>

definition PCI_CLASS_MASS_STORAGE :: u8 where "PCI_CLASS_MASS_STORAGE = 0x01"
definition PCI_SUBCLASS_NVME :: u8 where "PCI_SUBCLASS_NVME = 0x08"
definition PCI_PROGIF_NVME :: u8 where "PCI_PROGIF_NVME = 0x02"
definition COMMAND_IO_SPACE :: u16 where "COMMAND_IO_SPACE = push_bit 0 1"
definition COMMAND_MEMORY_SPACE :: u16 where "COMMAND_MEMORY_SPACE = push_bit 1 1"
definition COMMAND_BUS_MASTER :: u16 where "COMMAND_BUS_MASTER = push_bit 2 1"
definition BAR_MEM_MASK :: u32 where "BAR_MEM_MASK = 0xfffffff0"

record pci_address =
  pa_bus :: u8
  pa_device :: u8
  pa_function :: u8

definition ecam_offset :: "pci_address \<Rightarrow> u16 \<Rightarrow> u64" where
  "ecam_offset a register =
     push_bit 20 (ucast (pa_bus a)) OR push_bit 15 (ucast (pa_device a)) OR
     push_bit 12 (ucast (pa_function a)) OR (ucast register AND 0xfff)"

record pci_class =
  pc_class :: u8
  pc_subclass :: u8
  pc_prog_if :: u8

definition is_nvme :: "pci_class \<Rightarrow> bool" where
  "is_nvme c \<longleftrightarrow>
     pc_class c = PCI_CLASS_MASS_STORAGE \<and> pc_subclass c = PCI_SUBCLASS_NVME \<and> pc_prog_if c = PCI_PROGIF_NVME"

definition decode_bar_size :: "u32 \<Rightarrow> u32 \<Rightarrow> bool \<Rightarrow> u64" where
  "decode_bar_size low_mask high_mask is_64_bit =
     (if is_64_bit
      then let m = push_bit 32 (ucast high_mask) OR ucast (low_mask AND BAR_MEM_MASK)
           in if m = 0 then 0 else NOT m + 1
      else let m = low_mask AND BAR_MEM_MASK
           in if m = 0 then 0 else ucast (NOT m + 1))"

definition align_resource_base :: "u64 \<Rightarrow> u64 \<Rightarrow> u64" where
  "align_resource_base base len = (if len = 0 then base else (base + len - 1) AND NOT (len - 1))"

definition command_with_memory_and_bus_master :: "u16 \<Rightarrow> u16" where
  "command_with_memory_and_bus_master command =
     (command OR COMMAND_MEMORY_SPACE OR COMMAND_BUS_MASTER) AND NOT COMMAND_IO_SPACE"

section \<open>PSCI\<close>

datatype psci_function = Version | CpuSuspend64 | CpuOn64 | SystemOff | SystemReset | Features

primrec psci_id :: "psci_function \<Rightarrow> u64" where
  "psci_id Version = 0x84000000"
| "psci_id CpuSuspend64 = 0xc4000001"
| "psci_id CpuOn64 = 0xc4000003"
| "psci_id SystemOff = 0x84000008"
| "psci_id SystemReset = 0x84000009"
| "psci_id Features = 0x8400000a"

datatype psci_error = NotSupported | InvalidParameters | Denied | AlreadyOn | OnPending | InternalFailure
  | NotPresent | Disabled | InvalidAddress | UnexpectedReturn | Unknown i64

text \<open>The argument is a signed value: \<open>-1\<close> is the all-ones word.\<close>

definition psci_error_from_i64 :: "i64 \<Rightarrow> psci_error" where
  "psci_error_from_i64 v =
     (if v = - 1 then NotSupported else if v = - 2 then InvalidParameters else if v = - 3 then Denied
      else if v = - 4 then AlreadyOn else if v = - 5 then OnPending else if v = - 6 then InternalFailure
      else if v = - 7 then NotPresent else if v = - 8 then Disabled else if v = - 9 then InvalidAddress
      else Unknown v)"

record psci_version =
  pv_major :: u16
  pv_minor :: u16

definition psci_version_decode :: "u64 \<Rightarrow> psci_error + psci_version" where
  "psci_version_decode v =
     (if sint v < 0 then Inl (psci_error_from_i64 v)
      else Inr \<lparr> pv_major = ucast (drop_bit 16 v AND 0xffff), pv_minor = ucast (v AND 0xffff) \<rparr>)"

definition decode_status :: "u64 \<Rightarrow> psci_error + unit" where
  "decode_status v = (if sint v < 0 then Inl (psci_error_from_i64 v) else Inr ())"

datatype system_power_operation = Standby | Reboot | Poweroff

primrec function_for_power_operation :: "system_power_operation \<Rightarrow> psci_function" where
  "function_for_power_operation Standby = CpuSuspend64"
| "function_for_power_operation Reboot = SystemReset"
| "function_for_power_operation Poweroff = SystemOff"

section \<open>NVMe\<close>

definition queue_doorbell_stride :: "u64 \<Rightarrow> nat" where
  "queue_doorbell_stride cap = 4 * 2 ^ unat (drop_bit 32 cap AND 0xf)"

definition queue_entries_minus_one :: "u16 \<Rightarrow> u32" where
  "queue_entries_minus_one depth = ucast depth - 1"

definition admin_queue_attrs :: "u16 \<Rightarrow> u32" where
  "admin_queue_attrs depth = queue_entries_minus_one depth OR push_bit 16 (queue_entries_minus_one depth)"

definition namespace_block_count :: "u8 list \<Rightarrow> u64 option" where
  "namespace_block_count bytes = (if length bytes < 8 then None else Some (from_le_bytes (take 8 bytes)))"

definition get_byte :: "u8 list \<Rightarrow> nat \<Rightarrow> u8 option" where
  "get_byte bytes i = (if i < length bytes then Some (bytes ! i) else None)"

definition namespace_block_size :: "u8 list \<Rightarrow> u32 option" where
  "namespace_block_size bytes =
     (case get_byte bytes 26 of
        None \<Rightarrow> None
      | Some b \<Rightarrow>
          (let lbaf_offset = 128 + unat (b AND 0xf) * 4
           in case get_byte bytes (lbaf_offset + 2) of
                None \<Rightarrow> None
              | Some lbads \<Rightarrow> if lbads \<ge> 32 then None else Some (push_bit (unat lbads) 1)))"

section \<open>Properties\<close>

lemma bit_fff: "bit (0xfff :: u64) k \<longleftrightarrow> k < 12"
proof -
  have "(0xfff :: u64) = mask 12" by (simp add: mask_eq_exp_minus_1)
  then show ?thesis by (simp only: bit_mask_iff) auto
qed

lemma bit_below:
  assumes "unat w < 2 ^ n" and "bit w j"
  shows "j < n"
proof -
  have "take_bit n w = w" using assms(1) by (simp add: word_unat_eq_iff unsigned_take_bit_eq take_bit_nat_eq_self)
  with assms(2) show ?thesis by (metis bit_take_bit_iff)
qed

lemma ecam_fields:
  assumes "unat (pa_device a) < 32" and "unat (pa_function a) < 8"
  shows "bit (ecam_offset a r) k \<longleftrightarrow>
    (if k < 12 then bit r k else if k < 15 then bit (pa_function a) (k - 12)
     else if k < 20 then bit (pa_device a) (k - 15) else bit (pa_bus a) (k - 20))"
proof -
  have "bit (pa_device a) j \<Longrightarrow> j < 5" "bit (pa_function a) j \<Longrightarrow> j < 3" for j
    using assms bit_below [of "pa_device a" 5 j] bit_below [of "pa_function a" 3 j] by simp_all
  moreover have "bit (pa_bus a) j \<Longrightarrow> j < 8" "bit r j \<Longrightarrow> j < 16" for j
    using bit_imp_le_length [of "pa_bus a" j] bit_imp_le_length [of r j] by simp_all
  ultimately show ?thesis
    unfolding ecam_offset_def bit_or_iff bit_and_iff bit_push_bit_iff bit_fff bit_unsigned_iff
    by (fastforce split: if_splits)
qed

text \<open>
  C26. A configuration-space offset determines the function and register it
  addresses: for the 32 devices of a bus and the 8 functions of a device, bus,
  device, function and register number are read back from the bits of the
  offset, so no two of them share a location, and the offset stays inside the
  256 MiB window.
\<close>

theorem ecam_offset_roundtrip:
  assumes "unat (pa_device a) < 32" and "unat (pa_function a) < 8"
  shows "ucast (take_bit 12 (ecam_offset a r)) = take_bit 12 r \<and>
    ucast (take_bit 3 (drop_bit 12 (ecam_offset a r))) = pa_function a \<and>
    ucast (take_bit 5 (drop_bit 15 (ecam_offset a r))) = pa_device a \<and>
    ucast (drop_bit 20 (ecam_offset a r)) = pa_bus a \<and>
    take_bit 28 (ecam_offset a r) = ecam_offset a r"
proof -
  note f = ecam_fields [OF assms]
  have "bit (pa_device a) j \<Longrightarrow> j < 5" "bit (pa_function a) j \<Longrightarrow> j < 3" for j
    using assms bit_below [of "pa_device a" 5 j] bit_below [of "pa_function a" 3 j] by simp_all
  moreover have "bit (pa_bus a) (j - 20) \<Longrightarrow> j < 28" for j
    using bit_imp_le_length [of "pa_bus a" "j - 20"] by simp
  ultimately show ?thesis
    by (intro conjI bit_word_eqI) (auto simp: bit_simps f split: if_splits)
qed

theorem ecam_offset_roundtrip_witness:
  "ecam_offset \<lparr> pa_bus = 1, pa_device = 3, pa_function = 2 \<rparr> 0x10 = 0x11a010 \<and>
   ucast (drop_bit 20 (ecam_offset \<lparr> pa_bus = 1, pa_device = 3, pa_function = 2 \<rparr> 0x10)) = (1 :: u8)"
  using ecam_offset_roundtrip [of "\<lparr> pa_bus = 1, pa_device = 3, pa_function = 2 \<rparr>" "0x10"]
  by (simp add: ecam_offset_def)

text \<open>
  Placing a PCI resource: for a power-of-two size and a base that leaves
  room below the top of the address space, the aligned base is the least
  multiple of the size at or above the base.
\<close>

lemma align_resource_base_least:
  assumes "k < 64" and "unat base + 2 ^ k - 1 < 2 ^ 64"
  shows "2 ^ k dvd unat (align_resource_base base (push_bit k 1)) \<and>
    unat base \<le> unat (align_resource_base base (push_bit k 1)) \<and>
    unat (align_resource_base base (push_bit k 1)) < unat base + 2 ^ k"
proof -
  let ?s = "push_bit k 1 :: u64"
  have s: "unat ?s = 2 ^ k" "?s - 1 = mask k" "?s \<noteq> 0"
  proof -
    have "unat ?s = take_bit 64 (2 ^ k :: nat)" 
      by (simp only: unsigned_push_bit_eq unsigned_1) (simp add: push_bit_eq_mult)
    then show "unat ?s = 2 ^ k" using assms(1) by (simp add: take_bit_nat_eq_self del: push_bit_of_1)
    then show "?s \<noteq> 0" by (auto simp del: push_bit_of_1)
    show "?s - 1 = mask k" by (simp add: mask_eq_exp_minus_1)
  qed
  have m: "unat (?s - 1) = 2 ^ k - 1" unfolding unat_minus_one [OF s(3)] s(1) ..
  have "unat (base + (?s - 1)) = unat base + (2 ^ k - 1)"
    using assms(2) m unat_add_lem [of base "?s - 1"] by (simp del: push_bit_of_1)
  then have "unat (base + ?s - 1) = unat base + 2 ^ k - 1" by (simp add: add_diff_eq [symmetric] del: push_bit_of_1)
  moreover have "w AND NOT (mask k) = push_bit k (drop_bit k w)" for w :: u64
    by (rule bit_word_eqI) (auto simp: bit_simps)
  moreover have "unat (push_bit k (drop_bit k w)) = unat w div 2 ^ k * 2 ^ k" for w :: u64
  proof -
    have "unat w div 2 ^ k * 2 ^ k < 2 ^ LENGTH(64)"
      using div_times_less_eq_dividend [of "unat w" "2 ^ k"] by (rule le_less_trans) (rule unsigned_less)
    moreover have "unat (drop_bit k w) = unat w div 2 ^ k"
      using unsigned_less [of w, where 'a = nat]
      by (simp only: unsigned_drop_bit_eq) (simp add: drop_bit_eq_div take_bit_nat_eq_self)
    ultimately show ?thesis
      by (simp only: unsigned_push_bit_eq) (simp add: push_bit_eq_mult take_bit_nat_eq_self)
  qed
  ultimately have e: "unat (align_resource_base base ?s) = (unat base + 2 ^ k - 1) div 2 ^ k * 2 ^ k"
    using s by (simp add: align_resource_base_def)
  have "(2 :: nat) ^ k > 0" by simp
  then have "unat base \<le> (unat base + 2 ^ k - 1) div 2 ^ k * 2 ^ k"
    "(unat base + 2 ^ k - 1) div 2 ^ k * 2 ^ k < unat base + 2 ^ k"
    using div_mult_mod_eq [of "unat base + 2 ^ k - 1" "2 ^ k"] mod_less_divisor [of "2 ^ k" "unat base + 2 ^ k - 1"]
    by linarith+
  then show ?thesis unfolding e by simp
qed

lemma align_resource_base_example: "unat (align_resource_base 0x1234 (push_bit 12 1)) = 0x2000"
proof -
  have "(12 :: nat) < 64" "unat (0x1234 :: u64) + 2 ^ 12 - 1 < 2 ^ 64" by simp_all
  from align_resource_base_least [OF this] show ?thesis
    by (simp add: align_resource_base_def)
qed

end
