(* ===== verification/Time_Abi.thy ===== *)
theory Time_Abi
  imports Kernel_Prelude
begin

text \<open>
  Clock arithmetic of \<open>lib/time_abi/src/lib.rs\<close>: tick conversion and the state
  of a realtime clock that is slewed. Signed 64-bit and 32-bit values are
  integers and every checked operation tests the range; the 128-bit products
  of the code cannot overflow and are integer products.
\<close>

section \<open>Definitions\<close>

definition MAX_SLEW_RATE_PPM :: int where "MAX_SLEW_RATE_PPM = 500"

definition saturating_scale :: "u64 \<Rightarrow> u64 \<Rightarrow> u64 \<Rightarrow> u64" where
  "saturating_scale v numerator denominator =
     (if denominator = 0 then 0
      else of_nat (min (unat v * unat numerator div unat denominator) (2 ^ 64 - 1)))"

definition ticks_to_nanos :: "u64 \<Rightarrow> u64 \<Rightarrow> u64" where
  "ticks_to_nanos ticks frequency_hz =
     (if frequency_hz = 0 then 0 else saturating_scale ticks 1000000000 frequency_hz)"

definition nanos_to_ticks :: "u64 \<Rightarrow> u64 \<Rightarrow> u64" where
  "nanos_to_ticks nanos frequency_hz = saturating_scale nanos frequency_hz 1000000000"

datatype slew_error = InvalidRate | DirectionMismatch | Overflow

record slew_state =
  ss_realtime_offset_ns :: int
  ss_slew_start_monotonic_ns :: u64
  ss_slew_remaining_ns :: int
  ss_slew_rate_ppm :: int

definition i64_range :: "int \<Rightarrow> bool" where
  "i64_range x \<longleftrightarrow> - (2 ^ 63) \<le> x \<and> x < 2 ^ 63"

definition checked_i64 :: "int \<Rightarrow> slew_error + int" where
  "checked_i64 x = (if i64_range x then Inr x else Inl Overflow)"

definition slew_new :: slew_state where
  "slew_new = \<lparr> ss_realtime_offset_ns = 0, ss_slew_start_monotonic_ns = 0, ss_slew_remaining_ns = 0,
     ss_slew_rate_ppm = 0 \<rparr>"

definition accrued_slew :: "u64 \<Rightarrow> u64 \<Rightarrow> int \<Rightarrow> int \<Rightarrow> slew_error + int" where
  "accrued_slew start_monotonic_ns now_monotonic_ns remaining_ns rate_ppm =
     (if remaining_ns = 0 \<or> rate_ppm = 0 then Inr 0
      else if sgn remaining_ns \<noteq> sgn rate_ppm then Inl DirectionMismatch
      else
        let elapsed = sat_sub now_monotonic_ns start_monotonic_ns;
            magnitude = min (uint elapsed * \<bar>rate_ppm\<bar> div 1000000) \<bar>remaining_ns\<bar>
        in if magnitude \<ge> 2 ^ 63 then Inl Overflow
           else if remaining_ns < 0 then Inr (- magnitude) else Inr magnitude)"

definition materialized_at :: "slew_state \<Rightarrow> u64 \<Rightarrow> slew_error + slew_state" where
  "materialized_at s monotonic_ns =
     and_then (accrued_slew (ss_slew_start_monotonic_ns s) monotonic_ns (ss_slew_remaining_ns s)
       (ss_slew_rate_ppm s)) (\<lambda>applied.
     and_then (checked_i64 (ss_realtime_offset_ns s + applied)) (\<lambda>offset.
     and_then (checked_i64 (ss_slew_remaining_ns s - applied)) (\<lambda>remaining.
       Inr \<lparr> ss_realtime_offset_ns = offset, ss_slew_start_monotonic_ns = monotonic_ns,
             ss_slew_remaining_ns = remaining,
             ss_slew_rate_ppm = (if remaining = 0 then 0 else ss_slew_rate_ppm s) \<rparr>)))"

definition adjust :: "slew_state \<Rightarrow> u64 \<Rightarrow> int \<Rightarrow> int \<Rightarrow> slew_error + slew_state" where
  "adjust s monotonic_ns offset_delta_ns slew_rate_ppm =
     (if \<not> (- MAX_SLEW_RATE_PPM \<le> slew_rate_ppm \<and> slew_rate_ppm \<le> MAX_SLEW_RATE_PPM) then Inl InvalidRate
      else and_then (materialized_at s monotonic_ns) (\<lambda>state.
        if slew_rate_ppm = 0
        then and_then (checked_i64 (ss_realtime_offset_ns state + offset_delta_ns)) (\<lambda>offset.
          Inr (state\<lparr> ss_realtime_offset_ns := offset, ss_slew_remaining_ns := 0, ss_slew_rate_ppm := 0 \<rparr>))
        else and_then (checked_i64 (ss_slew_remaining_ns state + offset_delta_ns)) (\<lambda>pending.
          if pending = 0 then Inr (state\<lparr> ss_slew_remaining_ns := 0, ss_slew_rate_ppm := 0 \<rparr>)
          else if sgn pending \<noteq> sgn slew_rate_ppm then Inl DirectionMismatch
          else Inr (state\<lparr> ss_slew_remaining_ns := pending, ss_slew_rate_ppm := slew_rate_ppm,
                      ss_slew_start_monotonic_ns := monotonic_ns \<rparr>))))"

definition realtime_at :: "slew_state \<Rightarrow> u64 \<Rightarrow> u64 option" where
  "realtime_at s monotonic_ns =
     (case accrued_slew (ss_slew_start_monotonic_ns s) monotonic_ns (ss_slew_remaining_ns s)
        (ss_slew_rate_ppm s) of
        Inl _ \<Rightarrow> None
      | Inr applied \<Rightarrow>
          (let realtime = uint monotonic_ns + ss_realtime_offset_ns s + applied
           in if 0 \<le> realtime \<and> realtime < 2 ^ 64 then Some (word_of_int realtime) else None))"

record time_page_snapshot =
  tp_base_ticks :: u64
  tp_tick_frequency_hz :: u64
  tp_base_monotonic_ns :: u64
  tp_realtime_offset_ns :: int
  tp_slew_start_monotonic_ns :: u64
  tp_slew_remaining_ns :: int
  tp_slew_rate_ppm :: int

definition monotonic_from_ticks :: "time_page_snapshot \<Rightarrow> u64 \<Rightarrow> u64" where
  "monotonic_from_ticks p ticks =
     sat_add (tp_base_monotonic_ns p) (ticks_to_nanos (ticks - tp_base_ticks p) (tp_tick_frequency_hz p))"

definition realtime_from_ticks :: "time_page_snapshot \<Rightarrow> u64 \<Rightarrow> u64 option" where
  "realtime_from_ticks p ticks =
     realtime_at \<lparr> ss_realtime_offset_ns = tp_realtime_offset_ns p,
       ss_slew_start_monotonic_ns = tp_slew_start_monotonic_ns p,
       ss_slew_remaining_ns = tp_slew_remaining_ns p, ss_slew_rate_ppm = tp_slew_rate_ppm p \<rparr>
       (monotonic_from_ticks p ticks)"

section \<open>The slewed clock\<close>

text \<open>What \<open>adjust\<close> keeps of a state that starts as \<open>SlewState::new\<close>.\<close>

definition slew_ok :: "slew_state \<Rightarrow> bool" where
  "slew_ok s \<longleftrightarrow> i64_range (ss_realtime_offset_ns s) \<and> i64_range (ss_slew_remaining_ns s) \<and>
     \<bar>ss_slew_rate_ppm s\<bar> \<le> MAX_SLEW_RATE_PPM \<and>
     sgn (ss_slew_remaining_ns s) = sgn (ss_slew_rate_ppm s)"

text \<open>The slew applied after a time, as a function of the elapsed nanoseconds.\<close>

definition slewed :: "slew_state \<Rightarrow> u64 \<Rightarrow> int" where
  "slewed s t = sgn (ss_slew_rate_ppm s) *
     min (uint (sat_sub t (ss_slew_start_monotonic_ns s)) * \<bar>ss_slew_rate_ppm s\<bar> div 1000000)
       \<bar>ss_slew_remaining_ns s\<bar>"

lemma checked_i64_Inr [simp]: "checked_i64 x = Inr y \<longleftrightarrow> i64_range x \<and> y = x"
  by (auto simp: checked_i64_def)

lemma accrued_slew_Inr:
  assumes "slew_ok s"
    and "accrued_slew (ss_slew_start_monotonic_ns s) t (ss_slew_remaining_ns s) (ss_slew_rate_ppm s) = Inr a"
  shows "a = slewed s t"
  using assms by (auto simp: accrued_slew_def slewed_def slew_ok_def Let_def sgn_if split: if_splits)

lemma realtime_at_Some:
  assumes "slew_ok s" and "realtime_at s t = Some a"
  shows "uint a = uint t + ss_realtime_offset_ns s + slewed s t"
proof -
  let ?r = "uint t + ss_realtime_offset_ns s + slewed s t"
  from assms(2) accrued_slew_Inr [OF assms(1), of t] have "0 \<le> ?r" "?r < 2 ^ 64" "a = word_of_int ?r"
    by (auto simp: realtime_at_def Let_def simp del: of_int_add split: sum.splits if_splits)
  then show ?thesis by (simp only: uint_word_of_int) simp
qed

lemma uint_sat_sub: "uint (sat_sub a b) = max 0 (uint a - uint b)"
  by (auto simp: sat_sub_def word_le_def uint_sub_lem [THEN iffD1])

lemma min_div_step:
  assumes "b - a \<le> c" and "a \<le> (b :: int)"
  shows "0 \<le> min (b div 1000000) k - min (a div 1000000) k"
    and "min (b div 1000000) k - min (a div 1000000) k \<le> c div 1000000 + 1"
proof -
  have "a div 1000000 \<le> b div 1000000" using assms(2) by (rule zdiv_mono1) simp
  moreover have "b div 1000000 \<le> a div 1000000 + c div 1000000 + 1" using assms(1) by linarith
  moreover have "0 \<le> c div 1000000" using assms by (simp add: pos_imp_zdiv_nonneg_iff)
  ultimately show "0 \<le> min (b div 1000000) k - min (a div 1000000) k"
    "min (b div 1000000) k - min (a div 1000000) k \<le> c div 1000000 + 1"
    by (simp_all add: min_def)
qed

lemma sgn_diff: "0 \<le> a - b \<Longrightarrow> \<bar>sgn r * a - sgn r * b\<bar> \<le> a - b" for a b r :: int
proof -
  assume "0 \<le> a - b"
  moreover have "\<bar>sgn r * a - sgn r * b\<bar> = \<bar>sgn r\<bar> * \<bar>a - b\<bar>"
    by (simp only: right_diff_distrib [symmetric] abs_mult)
  ultimately show ?thesis by (cases "r = 0") simp_all
qed

lemma div_step: "1 \<le> d \<Longrightarrow> d * 500 div 1000000 + 1 \<le> d" for d :: int
  using div_mult_mult2 [of 500 d 2000] int_div_less_self [of d 2000] by simp

lemma slewed_step:
  assumes "slew_ok s" and "t \<le> u"
  shows "\<bar>slewed s u - slewed s t\<bar> \<le> (uint u - uint t) * MAX_SLEW_RATE_PPM div 1000000 + 1"
    and "\<bar>slewed s u - slewed s t\<bar> \<le> uint u - uint t"
proof -
  let ?e = "\<lambda>t. uint (sat_sub t (ss_slew_start_monotonic_ns s))" and ?r = "\<bar>ss_slew_rate_ppm s\<bar>"
  let ?m = "\<lambda>t. min (?e t * ?r div 1000000) \<bar>ss_slew_remaining_ns s\<bar>"
  have d: "0 \<le> ?e t" "?e t \<le> ?e u" "?e u - ?e t \<le> uint u - uint t" "0 \<le> uint u - uint t"
    using assms(2) by (auto simp: uint_sat_sub word_le_def)
  have r: "0 \<le> ?r" "?r \<le> 500" using assms(1) by (auto simp: slew_ok_def MAX_SLEW_RATE_PPM_def)
  have "?e u * ?r - ?e t * ?r \<le> (uint u - uint t) * 500"
    using mult_mono [OF d(3) r(2) d(4) r(1)] by (simp add: left_diff_distrib)
  moreover have "?e t * ?r \<le> ?e u * ?r" using d(2) r(1) by (rule mult_right_mono)
  ultimately have m: "0 \<le> ?m u - ?m t" "?m u - ?m t \<le> (uint u - uint t) * 500 div 1000000 + 1"
    by (rule min_div_step)+
  have "\<bar>slewed s u - slewed s t\<bar> \<le> ?m u - ?m t"
    unfolding slewed_def using m(1) by (rule sgn_diff)
  from order_trans [OF this m(2)]
  show g: "\<bar>slewed s u - slewed s t\<bar> \<le> (uint u - uint t) * MAX_SLEW_RATE_PPM div 1000000 + 1"
    unfolding MAX_SLEW_RATE_PPM_def .
  show "\<bar>slewed s u - slewed s t\<bar> \<le> uint u - uint t"
  proof (cases "uint u = uint t")
    case True
    then have "u = t" by (simp add: word_uint_eq_iff)
    then show ?thesis by simp
  next
    case False
    with d(4) have "(uint u - uint t) * 500 div 1000000 + 1 \<le> uint u - uint t" by (intro div_step) simp
    from order_trans [OF g [unfolded MAX_SLEW_RATE_PPM_def] this] show ?thesis .
  qed
qed

lemma sgn_nonneg: "x \<le> k \<Longrightarrow> sgn (k - x) \<in> {0, 1}" for x k :: int
  by (auto simp: sgn_if)

lemma slewed_magnitude:
  assumes "slew_ok s"
  shows "sgn (ss_slew_remaining_ns s - slewed s t) \<in> {0, sgn (ss_slew_rate_ppm s)}"
proof -
  let ?k = "ss_slew_remaining_ns s" and ?r = "ss_slew_rate_ppm s"
  let ?x = "min (uint (sat_sub t (ss_slew_start_monotonic_ns s)) * \<bar>?r\<bar> div 1000000) \<bar>?k\<bar>"
  have "sgn ?r * \<bar>?k\<bar> = ?k"
    using assms by (metis abs_sgn mult_sgn_abs slew_ok_def)
  then have e: "?k - slewed s t = sgn ?r * (\<bar>?k\<bar> - ?x)"
    unfolding slewed_def right_diff_distrib by (simp only:)
  have "?x \<le> \<bar>?k\<bar>" by (rule min.cobounded2)
  then have "sgn (\<bar>?k\<bar> - ?x) \<in> {0, 1}" by (rule sgn_nonneg)
  then show ?thesis unfolding e sgn_mult sgn_sgn by (elim insertE) (auto simp only: mult_zero_right mult_1_right)
qed

lemma slewed_at_start [simp]: "ss_slew_start_monotonic_ns s = t \<Longrightarrow> slewed s t = 0"
  by (simp add: slewed_def)

lemma materialized_at_Inr:
  assumes "slew_ok s" and "materialized_at s t = Inr s'"
  shows "slew_ok s'" and "ss_slew_start_monotonic_ns s' = t"
    and "ss_realtime_offset_ns s' = ss_realtime_offset_ns s + slewed s t"
proof -
  from assms(2) obtain a where
    a: "accrued_slew (ss_slew_start_monotonic_ns s) t (ss_slew_remaining_ns s) (ss_slew_rate_ppm s) = Inr a"
    by (auto simp: materialized_at_def and_then_Inr)
  from assms(2) a accrued_slew_Inr [OF assms(1) a]
  have e: "s' = \<lparr> ss_realtime_offset_ns = ss_realtime_offset_ns s + slewed s t, ss_slew_start_monotonic_ns = t,
      ss_slew_remaining_ns = ss_slew_remaining_ns s - slewed s t,
      ss_slew_rate_ppm = (if ss_slew_remaining_ns s - slewed s t = 0 then 0 else ss_slew_rate_ppm s) \<rparr>"
    "i64_range (ss_realtime_offset_ns s + slewed s t)" "i64_range (ss_slew_remaining_ns s - slewed s t)"
    by (simp_all add: materialized_at_def and_then_Inr)
  then show "ss_slew_start_monotonic_ns s' = t"
    "ss_realtime_offset_ns s' = ss_realtime_offset_ns s + slewed s t" by simp_all
  from e assms(1) slewed_magnitude [OF assms(1), of t] show "slew_ok s'"
    by (auto simp: slew_ok_def MAX_SLEW_RATE_PPM_def sgn_0_0)
qed

lemma adjust_Inr:
  assumes "slew_ok s" and "adjust s t d r = Inr s'"
  shows "slew_ok s' \<and> ss_slew_start_monotonic_ns s' = t \<and>
    ss_realtime_offset_ns s' = ss_realtime_offset_ns s + slewed s t + (if r = 0 then d else 0)"
proof -
  from assms(2) obtain m where m: "materialized_at s t = Inr m"
    by (auto simp: adjust_def and_then_Inr split: if_splits)
  note M = materialized_at_Inr [OF assms(1) m]
  from assms(2) m M show ?thesis
    by (auto simp: adjust_def and_then_Inr slew_ok_def i64_range_def split: if_splits)
qed

lemma slew_new_ok: "slew_ok slew_new"
  by (simp add: slew_ok_def slew_new_def i64_range_def MAX_SLEW_RATE_PPM_def)

section \<open>Properties\<close>

text \<open>
  C29. Adjusting the realtime clock with a slew rate never makes it jump: the
  time read at the moment of the adjustment is the same before and after, and a
  well-formed state stays well-formed. With rate zero the clock steps by exactly
  the requested offset.
\<close>

theorem clock_adjust_continuous:
  assumes "slew_ok s" and "adjust s now delta rate = Inr s'"
    and "realtime_at s now = Some before" and "realtime_at s' now = Some after"
  shows "slew_ok s' \<and> uint after = uint before + (if rate = 0 then delta else 0)"
proof -
  note A = adjust_Inr [OF assms(1,2)]
  then show ?thesis
    using realtime_at_Some [OF assms(1,3)] realtime_at_Some [OF _ assms(4)] by simp
qed

theorem clock_adjust_continuous_witness:
  "\<exists>s'. adjust slew_new 1000 500 10 = Inr s' \<and> realtime_at s' 1000 = Some 1000 \<and> slew_ok s'"
proof -
  let ?s = "\<lparr> ss_realtime_offset_ns = 0, ss_slew_start_monotonic_ns = 1000, ss_slew_remaining_ns = 500,
      ss_slew_rate_ppm = 10 \<rparr>"
  have s': "adjust slew_new 1000 500 10 = Inr ?s"
    by (simp add: adjust_def materialized_at_def accrued_slew_def slew_new_def MAX_SLEW_RATE_PPM_def
        checked_i64_def i64_range_def)
  have b: "realtime_at slew_new 1000 = Some 1000"
    by (simp add: realtime_at_def accrued_slew_def slew_new_def)
  have a: "realtime_at ?s 1000 = Some 1000"
    by (simp add: realtime_at_def accrued_slew_def)
  from clock_adjust_continuous [OF slew_new_ok s' b a] a s' show ?thesis by blast
qed

text \<open>
  C30. While no adjustment is made the realtime clock runs forward at almost the
  rate of the monotonic clock: between two monotonic times it never goes back,
  and it deviates from the elapsed time by at most 500 parts per million and one
  nanosecond.
\<close>

theorem realtime_monotone_bounded:
  assumes "slew_ok s" and "t \<le> u" and "realtime_at s t = Some a" and "realtime_at s u = Some b"
  shows "a \<le> b \<and> \<bar>(uint b - uint a) - (uint u - uint t)\<bar> \<le> (uint u - uint t) * 500 div 1000000 + 1"
proof -
  note A = realtime_at_Some [OF assms(1,3)] and B = realtime_at_Some [OF assms(1,4)]
  have e: "(uint b - uint a) - (uint u - uint t) = slewed s u - slewed s t" using A B by simp
  have "uint a \<le> uint b"
    using slewed_step(2) [OF assms(1,2)] A B by linarith
  then show ?thesis
    using slewed_step(1) [OF assms(1,2)] unfolding e MAX_SLEW_RATE_PPM_def by (simp add: word_le_def)
qed

theorem realtime_monotone_bounded_witness:
  "\<exists>s a b. s = \<lparr> ss_realtime_offset_ns = 0, ss_slew_start_monotonic_ns = 0, ss_slew_remaining_ns = 5000,
       ss_slew_rate_ppm = 500 \<rparr> \<and>
     slew_ok s \<and> realtime_at s 0 = Some a \<and> realtime_at s 2000000 = Some b \<and> b = 2001000 \<and> a \<le> b \<and>
     \<bar>(uint b - uint a) - (uint (2000000::u64) - uint (0::u64))\<bar> \<le>
       (uint (2000000::u64) - uint (0::u64)) * 500 div 1000000 + 1"
proof -
  let ?s = "\<lparr> ss_realtime_offset_ns = 0, ss_slew_start_monotonic_ns = 0, ss_slew_remaining_ns = 5000,
      ss_slew_rate_ppm = 500 \<rparr>"
  have ok: "slew_ok ?s" by (simp add: slew_ok_def i64_range_def MAX_SLEW_RATE_PPM_def)
  have at: "realtime_at ?s 0 = Some 0" "realtime_at ?s 2000000 = Some 2001000"
    by (simp_all add: realtime_at_def accrued_slew_def sat_sub_def Let_def)
  have "(0 :: u64) \<le> 2000000" by simp
  from realtime_monotone_bounded [OF ok this at] ok at show ?thesis by blast
qed

end
