(* ===== verification/Time_Page.thy ===== *)
theory Time_Page
  imports Time_Abi
begin

text \<open>
  The time page that the kernel shares with user space
  (\<open>TimePageV1\<close> of \<open>lib/time_abi/src/lib.rs\<close>): a sequence lock. The stores of
  the writer and the loads of the reader are separate atomic steps, and the
  transition system interleaves them in any order.

  The order in which one side performs its own accesses is a parameter. With
  \<open>in_order\<close> it is program order: code that is not reordered by the compiler, on a
  machine with total store order such as x86-64, where stores become visible in
  the order they were issued and loads are performed in order. Without it, the
  accesses are constrained only by the orderings that the source asks for. A
  \<open>Release\<close> store is performed after the accesses before it, and lets later ones
  pass it; an \<open>Acquire\<close> load is performed before the accesses after it, and lets
  earlier ones pass it. The data fields are plain stores and volatile loads, and
  there is no fence.
\<close>

section \<open>The page\<close>

definition TIME_PAGE_MAGIC :: u64 where
  "TIME_PAGE_MAGIC = 0x31454D4954584542"

definition TIME_PAGE_VERSION :: u32 where "TIME_PAGE_VERSION = 1"

record time_page =
  pg_magic :: u64
  pg_abi_version :: u32
  pg_sequence :: u32
  pg_base_ticks :: u64
  pg_tick_frequency_hz :: u64
  pg_base_monotonic_ns :: u64
  pg_realtime_offset_ns :: int
  pg_slew_start_monotonic_ns :: u64
  pg_slew_remaining_ns :: int
  pg_slew_rate_ppm :: int

definition page_zeroed :: time_page where
  "page_zeroed = \<lparr> pg_magic = TIME_PAGE_MAGIC, pg_abi_version = TIME_PAGE_VERSION, pg_sequence = 0,
     pg_base_ticks = 0, pg_tick_frequency_hz = 1, pg_base_monotonic_ns = 0, pg_realtime_offset_ns = 0,
     pg_slew_start_monotonic_ns = 0, pg_slew_remaining_ns = 0, pg_slew_rate_ppm = 0 \<rparr>"

text \<open>The stores of \<open>write_snapshot\<close>, in program order; \<open>start\<close> is the sequence it loaded.\<close>

definition write_stores :: "u32 \<Rightarrow> time_page_snapshot \<Rightarrow> (time_page \<Rightarrow> time_page) list" where
  "write_stores start snap =
     [\<lambda>p. p\<lparr> pg_sequence := start OR 1 \<rparr>,
      \<lambda>p. p\<lparr> pg_base_ticks := tp_base_ticks snap \<rparr>,
      \<lambda>p. p\<lparr> pg_tick_frequency_hz := max (tp_tick_frequency_hz snap) 1 \<rparr>,
      \<lambda>p. p\<lparr> pg_base_monotonic_ns := tp_base_monotonic_ns snap \<rparr>,
      \<lambda>p. p\<lparr> pg_realtime_offset_ns := tp_realtime_offset_ns snap \<rparr>,
      \<lambda>p. p\<lparr> pg_slew_start_monotonic_ns := tp_slew_start_monotonic_ns snap \<rparr>,
      \<lambda>p. p\<lparr> pg_slew_remaining_ns := tp_slew_remaining_ns snap \<rparr>,
      \<lambda>p. p\<lparr> pg_slew_rate_ppm := tp_slew_rate_ppm snap \<rparr>,
      \<lambda>p. p\<lparr> pg_sequence := (start + 2) AND NOT 1 \<rparr>]"

text \<open>The loads of one attempt of \<open>read_snapshot\<close> into a local value.\<close>

definition read_loads :: "(time_page \<Rightarrow> time_page_snapshot \<Rightarrow> time_page_snapshot) list" where
  "read_loads =
     [\<lambda>p v. v\<lparr> tp_base_ticks := pg_base_ticks p \<rparr>,
      \<lambda>p v. v\<lparr> tp_tick_frequency_hz := max (pg_tick_frequency_hz p) 1 \<rparr>,
      \<lambda>p v. v\<lparr> tp_base_monotonic_ns := pg_base_monotonic_ns p \<rparr>,
      \<lambda>p v. v\<lparr> tp_realtime_offset_ns := pg_realtime_offset_ns p \<rparr>,
      \<lambda>p v. v\<lparr> tp_slew_start_monotonic_ns := pg_slew_start_monotonic_ns p \<rparr>,
      \<lambda>p v. v\<lparr> tp_slew_remaining_ns := pg_slew_remaining_ns p \<rparr>,
      \<lambda>p v. v\<lparr> tp_slew_rate_ppm := pg_slew_rate_ppm p \<rparr>]"

text \<open>The two operations when nobody interferes.\<close>

definition page_write :: "time_page_snapshot \<Rightarrow> time_page \<Rightarrow> time_page" where
  "page_write snap p = fold (\<lambda>f. f) (write_stores (pg_sequence p) snap) p"

definition no_snapshot :: time_page_snapshot where
  "no_snapshot = \<lparr> tp_base_ticks = 0, tp_tick_frequency_hz = 0, tp_base_monotonic_ns = 0,
     tp_realtime_offset_ns = 0, tp_slew_start_monotonic_ns = 0, tp_slew_remaining_ns = 0, tp_slew_rate_ppm = 0 \<rparr>"

definition loaded :: "nat \<Rightarrow> time_page \<Rightarrow> time_page_snapshot" where
  "loaded k p = fold (\<lambda>f. f p) (take k read_loads) no_snapshot"

fun read_attempts :: "nat \<Rightarrow> time_page \<Rightarrow> time_page_snapshot option" where
  "read_attempts 0 p = None"
| "read_attempts (Suc n) p =
     (if pg_sequence p AND 1 \<noteq> 0 then read_attempts n p else Some (loaded 7 p))"

definition page_read :: "time_page \<Rightarrow> time_page_snapshot option" where
  "page_read p =
     (if pg_magic p \<noteq> TIME_PAGE_MAGIC \<or> pg_abi_version p \<noteq> TIME_PAGE_VERSION then None
      else read_attempts 8 p)"

text \<open>What a snapshot looks like once it has been through the page.\<close>

definition normalized :: "time_page_snapshot \<Rightarrow> time_page_snapshot" where
  "normalized snap = snap\<lparr> tp_tick_frequency_hz := max (tp_tick_frequency_hz snap) 1 \<rparr>"

section \<open>One writer and one reader\<close>

text \<open>
  The orders in which the nine stores of a write and the eight loads of an attempt
  that follow its first load may be performed. Load 7 is the second load of the
  sequence. The last store of a write is a \<open>Release\<close> store, so it stays last; the
  first one is a \<open>Release\<close> store as well, which does not keep the data stores
  after it. The first load of an attempt is an \<open>Acquire\<close> load, so it stays first;
  the second load of the sequence does not keep the data loads before it.
\<close>

definition store_order :: "bool \<Rightarrow> nat list \<Rightarrow> bool" where
  "store_order in_order ord \<longleftrightarrow>
     (if in_order then ord = [0..<9] else distinct ord \<and> set ord = {0..<9} \<and> ord ! 8 = 8)"

definition load_order :: "bool \<Rightarrow> nat list \<Rightarrow> bool" where
  "load_order in_order ord \<longleftrightarrow>
     (if in_order then ord = [0..<8] else distinct ord \<and> set ord = {0..<8})"

text \<open>One load of an attempt, into the local \<open>after\<close> or into the snapshot being built.\<close>

definition read_access :: "nat \<Rightarrow> time_page \<Rightarrow> u32 \<times> time_page_snapshot \<Rightarrow> u32 \<times> time_page_snapshot" where
  "read_access i p acc =
     (if i = 7 then (pg_sequence p, snd acc) else (fst acc, (read_loads ! i) p (snd acc)))"

text \<open>
  The writer is between two writes, or has performed the first \<open>k\<close> stores, in the
  order \<open>ord\<close>, of a write that started from the page \<open>p0\<close>. The reader has passed
  the test of magic and version; it has made \<open>tries\<close> attempts, or has performed
  the first \<open>k\<close> loads of one in the order \<open>ord\<close>, or is done. The number \<open>n0\<close> of
  snapshots published when an attempt began is recorded for the statements only,
  as is the log of the snapshots published so far.
\<close>

datatype writer_pc = WIdle | WStore u32 time_page_snapshot "nat list" nat time_page

datatype reader_pc = RTry nat | RLoad nat u32 "nat list" nat "u32 \<times> time_page_snapshot" nat
  | RDone "time_page_snapshot option" nat nat

record page_world =
  pw_page :: time_page
  pw_writer :: writer_pc
  pw_reader :: reader_pc
  pw_log :: "time_page_snapshot list"

inductive page_step :: "bool \<Rightarrow> page_world \<Rightarrow> page_world \<Rightarrow> bool" for in_order :: bool where
  write_begin: "pw_writer w = WIdle \<Longrightarrow> store_order in_order ord \<Longrightarrow>
    page_step in_order w (w\<lparr> pw_writer := WStore (pg_sequence (pw_page w)) snap ord 0 (pw_page w) \<rparr>)"
| write_store: "pw_writer w = WStore start snap ord k p0 \<Longrightarrow> k < 8 \<Longrightarrow>
    page_step in_order w (w\<lparr> pw_page := (write_stores start snap ! (ord ! k)) (pw_page w),
      pw_writer := WStore start snap ord (Suc k) p0 \<rparr>)"
| write_end: "pw_writer w = WStore start snap ord 8 p0 \<Longrightarrow>
    page_step in_order w (w\<lparr> pw_page := (write_stores start snap ! (ord ! 8)) (pw_page w), pw_writer := WIdle,
      pw_log := pw_log w @ [normalized snap] \<rparr>)"
| read_odd: "pw_reader w = RTry tries \<Longrightarrow> tries < 8 \<Longrightarrow> pg_sequence (pw_page w) AND 1 \<noteq> 0 \<Longrightarrow>
    page_step in_order w (w\<lparr> pw_reader := RTry (Suc tries) \<rparr>)"
| read_begin: "pw_reader w = RTry tries \<Longrightarrow> tries < 8 \<Longrightarrow> pg_sequence (pw_page w) AND 1 = 0 \<Longrightarrow>
    load_order in_order ord \<Longrightarrow>
    page_step in_order w (w\<lparr> pw_reader :=
      RLoad tries (pg_sequence (pw_page w)) ord 0 (0, no_snapshot) (length (pw_log w)) \<rparr>)"
| read_load: "pw_reader w = RLoad tries before ord k acc n0 \<Longrightarrow> k < 7 \<Longrightarrow>
    page_step in_order w (w\<lparr> pw_reader :=
      RLoad tries before ord (Suc k) (read_access (ord ! k) (pw_page w) acc) n0 \<rparr>)"
| read_end: "pw_reader w = RLoad tries before ord 7 acc n0 \<Longrightarrow>
    page_step in_order w (w\<lparr> pw_reader :=
      (let (after, v) = read_access (ord ! 7) (pw_page w) acc
       in if before = after \<and> after AND 1 = 0 then RDone (Some v) n0 (length (pw_log w)) else RTry (Suc tries)) \<rparr>)"
| read_give_up: "pw_reader w = RTry 8 \<Longrightarrow>
    page_step in_order w (w\<lparr> pw_reader := RDone None (length (pw_log w)) (length (pw_log w)) \<rparr>)"

definition page_start :: "page_world \<Rightarrow> bool" where
  "page_start w \<longleftrightarrow> pg_sequence (pw_page w) = 0 \<and> pw_writer w = WIdle \<and> pw_reader w = RTry 0 \<and>
     pw_log w = [loaded 7 (pw_page w)]"

section \<open>The invariant of accesses in program order\<close>

text \<open>No store of the current write has been made.\<close>

definition quiet :: "page_world \<Rightarrow> bool" where
  "quiet w \<longleftrightarrow> (case pw_writer w of WIdle \<Rightarrow> True | WStore _ _ _ k _ \<Rightarrow> k = 0)"

definition sequence_of :: "page_world \<Rightarrow> u32" where
  "sequence_of w = of_nat (2 * (length (pw_log w) - 1))"

definition writer_ok :: "page_world \<Rightarrow> bool" where
  "writer_ok w \<longleftrightarrow> pw_log w \<noteq> [] \<and>
     (case pw_writer w of
        WIdle \<Rightarrow> pg_sequence (pw_page w) = sequence_of w \<and> loaded 7 (pw_page w) = last (pw_log w)
      | WStore start snap ord k p0 \<Rightarrow> start = sequence_of w \<and> pg_sequence p0 = start \<and> ord = [0..<9] \<and> k \<le> 8 \<and>
          pw_page w = fold (\<lambda>f. f) (take k (write_stores start snap)) p0 \<and> loaded 7 p0 = last (pw_log w))"

definition reader_ok :: "page_world \<Rightarrow> bool" where
  "reader_ok w \<longleftrightarrow>
     (case pw_reader w of
        RTry _ \<Rightarrow> True
      | RLoad _ before ord k acc n0 \<Rightarrow> 1 \<le> n0 \<and> n0 \<le> length (pw_log w) \<and> before = of_nat (2 * (n0 - 1)) \<and>
          ord = [0..<8] \<and> k \<le> 7 \<and> (quiet w \<and> length (pw_log w) = n0 \<longrightarrow> snd acc = loaded k (pw_page w))
      | RDone (Some v) n0 n1 \<Rightarrow> n1 - n0 < 2 ^ 31 \<longrightarrow> 1 \<le> n1 \<and> n1 \<le> length (pw_log w) \<and> v = pw_log w ! (n1 - 1)
      | RDone None _ _ \<Rightarrow> True)"

lemma reader_irrelevant [simp]:
  "quiet (w\<lparr> pw_reader := r \<rparr>) = quiet w" "sequence_of (w\<lparr> pw_reader := r \<rparr>) = sequence_of w"
  "writer_ok (w\<lparr> pw_reader := r \<rparr>) = writer_ok w"
  by (simp_all add: quiet_def sequence_of_def writer_ok_def cong: writer_pc.case_cong)

lemma even_parity: "(w :: u32) AND 1 = 0 \<longleftrightarrow> even w"
  by (simp add: and_one_eq even_iff_mod_2_eq_zero)

lemma double_even: "even (of_nat (2 * n) :: u32)"
  by simp

lemma bit_even: "even (w :: u32) \<Longrightarrow> bit w n \<Longrightarrow> n \<noteq> 0"
  by (metis bit_0)

lemma even_or_one: "even (w :: u32) \<Longrightarrow> w OR 1 = w + 1"
  by (rule disjunctive_add [symmetric]) (auto simp: bit_1_iff dest: bit_even)

lemma even_and_not_one: "even (w :: u32) \<Longrightarrow> w AND NOT 1 = w"
  by (rule bit_word_eqI) (auto simp only: bit_and_iff bit_not_iff bit_1_iff dest: bit_even bit_imp_possible_bit)

lemma double_inj:
  assumes "(of_nat (2 * a) :: u32) = of_nat (2 * b)" and "a \<le> b" and "b - a < 2 ^ 31"
  shows "a = b"
proof -
  have "(of_nat (2 * b - 2 * a) :: u32) = 0"
    unfolding of_nat_diff [OF mult_le_mono2 [OF assms(2)]] assms(1) by simp
  then have "2 ^ 32 dvd 2 * (b - a)"
    unfolding word_of_nat_eq_0_iff by (simp only: diff_mult_distrib2) simp
  moreover have "2 * (b - a) < 2 ^ 32" using assms(3) by simp
  ultimately have "2 * (b - a) = 0" using nat_dvd_not_less by blast
  with assms(2) show ?thesis by simp
qed

lemma stores_length [simp]: "length (write_stores start snap) = 9" "length read_loads = 7"
  by (simp_all add: write_stores_def read_loads_def)

lemma loaded_Suc: "k < 7 \<Longrightarrow> loaded (Suc k) p = (read_loads ! k) p (loaded k p)"
  by (simp add: loaded_def take_Suc_conv_app_nth)

lemma stores_partial:
  assumes "0 < k" and "k \<le> 8" and "even (pg_sequence p0)"
  shows "pg_sequence (fold (\<lambda>f. f) (take k (write_stores (pg_sequence p0) snap)) p0) = pg_sequence p0 + 1"
proof -
  from assms(1,2) have "k \<in> {1, 2, 3, 4, 5, 6, 7, 8}" by auto
  then show ?thesis using assms(3) by (auto simp: write_stores_def even_or_one)
qed

lemma stores_all:
  "loaded 7 (fold (\<lambda>f. f) (take 9 (write_stores start snap)) p0) = normalized snap"
  by (simp add: loaded_def write_stores_def read_loads_def normalized_def no_snapshot_def)

lemma stores_last_sequence:
  "even start \<Longrightarrow> pg_sequence ((write_stores start snap ! 8) p) = start + 2"
proof -
  assume "even start"
  then have "(start + 2) AND NOT 1 = start + 2" by (intro even_and_not_one) simp
  then show ?thesis by (simp add: write_stores_def del: bit.compl_one)
qed

lemma writer_parity:
  assumes "writer_ok w"
  shows "pg_sequence (pw_page w) AND 1 = 0 \<longleftrightarrow> quiet w"
    and "quiet w \<Longrightarrow> pg_sequence (pw_page w) = sequence_of w \<and> loaded 7 (pw_page w) = last (pw_log w)"
proof -
  have e: "even (sequence_of w)" unfolding sequence_of_def by (rule double_even)
  then have o: "odd (sequence_of w + 1)" by simp
  show q: "quiet w \<Longrightarrow> pg_sequence (pw_page w) = sequence_of w \<and> loaded 7 (pw_page w) = last (pw_log w)"
    using assms by (auto simp: writer_ok_def quiet_def split: writer_pc.splits)
  show "pg_sequence (pw_page w) AND 1 = 0 \<longleftrightarrow> quiet w"
  proof (cases "quiet w")
    case True
    with q e show ?thesis by (simp add: even_parity)
  next
    case False
    then obtain start snap ord k p0 where w: "pw_writer w = WStore start snap ord k p0" "0 < k"
      by (auto simp: quiet_def split: writer_pc.splits)
    with assms have p: "pg_sequence p0 = sequence_of w" "k \<le> 8"
      "pw_page w = fold (\<lambda>f. f) (take k (write_stores (pg_sequence p0) snap)) p0"
      by (auto simp: writer_ok_def)
    with stores_partial [OF w(2) p(2), of p0] e have "pg_sequence (pw_page w) = sequence_of w + 1" by simp
    with False o show ?thesis by (simp add: even_parity)
  qed
qed

definition page_inv :: "page_world \<Rightarrow> bool" where
  "page_inv w \<longleftrightarrow> writer_ok w \<and> reader_ok w"

lemma page_inv_start: "page_start w \<Longrightarrow> page_inv w"
  by (simp add: page_start_def page_inv_def writer_ok_def reader_ok_def sequence_of_def)

text \<open>A writer step keeps the writer's part and spoils or keeps the reader's view.\<close>

lemma reader_ok_mono:
  assumes "reader_ok w" and "pw_reader w' = pw_reader w" and "\<exists>xs. pw_log w' = pw_log w @ xs"
    and "quiet w' \<Longrightarrow> pw_log w' = pw_log w \<Longrightarrow> quiet w \<and> pw_page w' = pw_page w"
  shows "reader_ok w'"
  using assms
  by (fastforce simp: reader_ok_def nth_append split: reader_pc.splits option.splits)

lemma page_inv_write_store:
  assumes "page_inv w" and w: "pw_writer w = WStore start snap ord k p0" "k < 8"
  shows "page_inv (w\<lparr> pw_page := (write_stores start snap ! (ord ! k)) (pw_page w),
    pw_writer := WStore start snap ord (Suc k) p0 \<rparr>)"
    (is "page_inv ?w")
proof -
  have "writer_ok ?w"
    using assms by (auto simp: page_inv_def writer_ok_def sequence_of_def take_Suc_conv_app_nth)
  moreover have "reader_ok ?w"
    by (rule reader_ok_mono [of w]) (use assms in \<open>auto simp: page_inv_def quiet_def\<close>)
  ultimately show ?thesis by (simp add: page_inv_def)
qed

lemma page_inv_write_end:
  assumes "page_inv w" and w: "pw_writer w = WStore start snap ord 8 p0"
  shows "page_inv (w\<lparr> pw_page := (write_stores start snap ! (ord ! 8)) (pw_page w), pw_writer := WIdle,
      pw_log := pw_log w @ [normalized snap] \<rparr>)" (is "page_inv ?w")
proof -
  have i: "pw_log w \<noteq> []" "start = sequence_of w" "pw_page w = fold (\<lambda>f. f) (take 8 (write_stores start snap)) p0"
    "ord = [0..<9]"
    using assms by (auto simp: page_inv_def writer_ok_def)
  have o: "ord ! 8 = 8" by (simp add: i(4))
  have "even start" unfolding i(2) sequence_of_def by (rule double_even)
  then have "pg_sequence (pw_page ?w) = start + 2" by (simp add: stores_last_sequence o)
  also have "\<dots> = sequence_of ?w"
    using i(1) by (cases "pw_log w") (simp_all add: i(2) sequence_of_def)
  finally have "pg_sequence (pw_page ?w) = sequence_of ?w" .
  moreover have "take 9 (write_stores start snap) = take 8 (write_stores start snap) @ [write_stores start snap ! 8]"
    using take_Suc_conv_app_nth [of 8 "write_stores start snap"] by simp
  then have "pw_page ?w = fold (\<lambda>f. f) (take 9 (write_stores start snap)) p0"
    by (simp only: fold_append i(3)) (simp add: o)
  then have "loaded 7 (pw_page ?w) = normalized snap" by (simp only: stores_all)
  ultimately have "writer_ok ?w" by (simp add: writer_ok_def)
  moreover have "reader_ok ?w"
    by (rule reader_ok_mono [of w]) (use assms in \<open>auto simp: page_inv_def\<close>)
  ultimately show ?thesis by (simp add: page_inv_def)
qed

lemma page_inv_read_end:
  assumes inv: "page_inv w" and r: "pw_reader w = RLoad tries before ord 7 (a, v) n0"
    and "before = pg_sequence (pw_page w)" "pg_sequence (pw_page w) AND 1 = 0"
  shows "page_inv (w\<lparr> pw_reader := RDone (Some v) n0 (length (pw_log w)) \<rparr>)"
proof -
  have wr: "writer_ok w" and rd: "reader_ok w" using inv by (auto simp: page_inv_def)
  have q: "quiet w" using writer_parity(1) [OF wr] assms(4) by simp
  note s = writer_parity(2) [OF wr q]
  have n: "1 \<le> n0" "n0 \<le> length (pw_log w)" "before = of_nat (2 * (n0 - 1))"
    "length (pw_log w) = n0 \<Longrightarrow> v = loaded 7 (pw_page w)"
    using rd r q by (auto simp: reader_ok_def)
  have "v = pw_log w ! (length (pw_log w) - 1)" if "length (pw_log w) - n0 < 2 ^ 31"
  proof -
    have "n0 - 1 = length (pw_log w) - 1"
      using n s assms(3) that by (intro double_inj) (auto simp: sequence_of_def)
    with n have "n0 = length (pw_log w)" by linarith
    with n s wr show ?thesis by (simp add: last_conv_nth writer_ok_def)
  qed
  moreover have "1 \<le> length (pw_log w)" using n by linarith
  ultimately show ?thesis
    using wr by (simp add: page_inv_def reader_ok_def)
qed

lemma page_inv_write_begin:
  assumes "page_inv w" and "pw_writer w = WIdle"
  shows "page_inv (w\<lparr> pw_writer := WStore (pg_sequence (pw_page w)) snap [0..<9] 0 (pw_page w) \<rparr>)" (is "page_inv ?w")
proof -
  have "writer_ok ?w" using assms by (simp add: page_inv_def writer_ok_def sequence_of_def)
  moreover have "reader_ok ?w"
    by (rule reader_ok_mono [of w]) (use assms in \<open>auto simp: page_inv_def quiet_def\<close>)
  ultimately show ?thesis by (simp add: page_inv_def)
qed

lemma page_inv_read_begin:
  assumes inv: "page_inv w" and e: "pg_sequence (pw_page w) AND 1 = 0"
  shows "page_inv (w\<lparr> pw_reader := RLoad tries (pg_sequence (pw_page w)) [0..<8] 0 (a, no_snapshot) (length (pw_log w)) \<rparr>)"
proof -
  have wr: "writer_ok w" using inv by (simp add: page_inv_def)
  from e writer_parity [OF wr] have "pg_sequence (pw_page w) = of_nat (2 * (length (pw_log w) - 1))"
    by (simp add: sequence_of_def)
  moreover have "1 \<le> length (pw_log w)" using wr by (simp add: writer_ok_def Suc_le_eq)
  ultimately show ?thesis
    using wr by (simp add: page_inv_def reader_ok_def loaded_def)
qed

lemma page_inv_step:
  assumes "page_step True w w'" and inv: "page_inv w"
  shows "page_inv w'"
  using assms
proof cases
  case (read_load tries before ord k acc n0)
  then have "ord ! k = k" using inv by (auto simp: page_inv_def reader_ok_def)
  with read_load show ?thesis
    using inv by (simp add: page_inv_def reader_ok_def loaded_Suc read_access_def)
next
  case (read_end tries before ord acc n0)
  obtain a v where acc: "acc = (a, v)" by (cases acc)
  have "ord ! 7 = 7" using inv read_end by (auto simp: page_inv_def reader_ok_def)
  then have w': "w' = w\<lparr> pw_reader := (if before = pg_sequence (pw_page w) \<and> pg_sequence (pw_page w) AND 1 = 0
      then RDone (Some v) n0 (length (pw_log w)) else RTry (Suc tries)) \<rparr>"
    using read_end(1) by (simp add: read_access_def acc)
  show ?thesis
  proof (cases "before = pg_sequence (pw_page w) \<and> pg_sequence (pw_page w) AND 1 = 0")
    case True
    with w' page_inv_read_end [OF inv read_end(2) [unfolded acc]] show ?thesis by simp
  next
    case False
    with inv have "page_inv (w\<lparr> pw_reader := RTry (Suc tries) \<rparr>)" by (simp add: page_inv_def reader_ok_def)
    with False w' show ?thesis by (simp only: if_False)
  qed
next
  case (read_odd tries)
  with inv show ?thesis by (simp add: page_inv_def reader_ok_def)
next
  case read_give_up
  with inv show ?thesis by (simp add: page_inv_def reader_ok_def)
qed (simp_all add: inv page_inv_write_begin page_inv_write_store page_inv_write_end page_inv_read_begin
  store_order_def load_order_def)

lemma page_inv_run: "(page_step True)\<^sup>*\<^sup>* w w' \<Longrightarrow> page_inv w \<Longrightarrow> page_inv w'"
  by (induction rule: rtranclp_induct) (auto intro: page_inv_step)

section \<open>Runs of one side\<close>

lemma writer_runs_to:
  assumes "pw_writer w = WStore start snap ord j p0" and "j \<le> k" and "k \<le> 8"
  shows "(page_step in_order)\<^sup>*\<^sup>* w
    (w\<lparr> pw_page := fold (\<lambda>i. write_stores start snap ! (ord ! i)) [j..<k] (pw_page w),
        pw_writer := WStore start snap ord k p0 \<rparr>)"
  using assms(2,3)
proof (induction rule: dec_induct)
  case base
  show ?case using assms(1) by (cases w) simp
next
  case (step k)
  let ?w = "w\<lparr> pw_page := fold (\<lambda>i. write_stores start snap ! (ord ! i)) [j..<k] (pw_page w),
    pw_writer := WStore start snap ord k p0 \<rparr>"
  from step have "(page_step in_order)\<^sup>*\<^sup>* w ?w" by simp
  also have "page_step in_order ?w (?w\<lparr> pw_page := (write_stores start snap ! (ord ! k)) (pw_page ?w),
      pw_writer := WStore start snap ord (Suc k) p0 \<rparr>)"
    using step.prems by (intro page_step.write_store) simp_all
  finally show ?case using step.hyps by simp
qed

lemma writer_finishes:
  assumes "pw_writer w = WStore start snap ord j p0" and "j \<le> 8"
  shows "(page_step in_order)\<^sup>*\<^sup>* w
    (w\<lparr> pw_page := fold (\<lambda>i. write_stores start snap ! (ord ! i)) [j..<9] (pw_page w),
        pw_writer := WIdle, pw_log := pw_log w @ [normalized snap] \<rparr>)"
proof -
  let ?w = "w\<lparr> pw_page := fold (\<lambda>i. write_stores start snap ! (ord ! i)) [j..<8] (pw_page w),
    pw_writer := WStore start snap ord 8 p0 \<rparr>"
  have e: "[j..<9] = [j..<8] @ [8]" using assms(2) upt_Suc_append [of j 8] by simp
  have "(page_step in_order)\<^sup>*\<^sup>* w ?w" using assms by (intro writer_runs_to) simp_all
  also have "page_step in_order ?w (?w\<lparr> pw_page := (write_stores start snap ! (ord ! 8)) (pw_page ?w),
      pw_writer := WIdle, pw_log := pw_log ?w @ [normalized snap] \<rparr>)"
    by (rule page_step.write_end) simp
  finally show ?thesis by (simp add: e)
qed

lemma writer_runs:
  assumes "pw_writer w = WIdle"
  shows "(page_step True)\<^sup>*\<^sup>* w (w\<lparr> pw_page := page_write snap (pw_page w), pw_log := pw_log w @ [normalized snap] \<rparr>)"
proof -
  let ?w = "w\<lparr> pw_writer := WStore (pg_sequence (pw_page w)) snap [0..<9] 0 (pw_page w) \<rparr>"
  have "page_step True w ?w" using assms by (rule page_step.write_begin) (simp add: store_order_def)
  also have "(page_step True)\<^sup>*\<^sup>* ?w (?w\<lparr>
      pw_page := fold (\<lambda>i. write_stores (pg_sequence (pw_page w)) snap ! ([0..<9] ! i)) [0..<9] (pw_page ?w),
      pw_writer := WIdle, pw_log := pw_log ?w @ [normalized snap] \<rparr>)"
    by (rule writer_finishes) simp_all
  also have "fold (\<lambda>i. write_stores (pg_sequence (pw_page w)) snap ! ([0..<9] ! i)) [0..<9] (pw_page ?w) =
      page_write snap (pw_page w)"
    by (simp add: page_write_def write_stores_def upt_rec)
  finally show ?thesis using assms by (cases w) simp
qed

lemma reader_runs_to:
  assumes "pw_reader w = RTry 0" and "pg_sequence (pw_page w) AND 1 = 0" and "k \<le> 7"
  shows "(page_step in_order)\<^sup>*\<^sup>* w (w\<lparr> pw_reader :=
    RLoad 0 (pg_sequence (pw_page w)) [0..<8] k (0, loaded k (pw_page w)) (length (pw_log w)) \<rparr>)"
  using assms(3)
proof (induction k)
  case 0
  have "load_order in_order [0..<8]" by (auto simp: load_order_def)
  then show ?case
    using page_step.read_begin [OF assms(1) _ assms(2)] by (simp add: r_into_rtranclp loaded_def)
next
  case (Suc k)
  let ?w = "w\<lparr> pw_reader :=
    RLoad 0 (pg_sequence (pw_page w)) [0..<8] k (0, loaded k (pw_page w)) (length (pw_log w)) \<rparr>"
  from Suc have "(page_step in_order)\<^sup>*\<^sup>* w ?w" by simp
  also have "page_step in_order ?w (?w\<lparr> pw_reader := RLoad 0 (pg_sequence (pw_page w)) [0..<8] (Suc k)
      (read_access ([0..<8] ! k) (pw_page ?w) (0, loaded k (pw_page w))) (length (pw_log w)) \<rparr>)"
    using Suc.prems by (intro page_step.read_load) simp_all
  finally show ?case using Suc.prems by (simp add: loaded_Suc read_access_def)
qed

lemma reader_runs:
  assumes "pw_reader w = RTry 0" and "pg_sequence (pw_page w) AND 1 = 0"
  shows "(page_step in_order)\<^sup>*\<^sup>* w
    (w\<lparr> pw_reader := RDone (Some (loaded 7 (pw_page w))) (length (pw_log w)) (length (pw_log w)) \<rparr>)"
proof -
  let ?w = "w\<lparr> pw_reader :=
    RLoad 0 (pg_sequence (pw_page w)) [0..<8] 7 (0, loaded 7 (pw_page w)) (length (pw_log w)) \<rparr>"
  have "(page_step in_order)\<^sup>*\<^sup>* w ?w" using assms by (rule reader_runs_to) simp
  also have "page_step in_order ?w (?w\<lparr> pw_reader :=
      (let (after, v) = read_access ([0..<8] ! 7) (pw_page ?w) (0, loaded 7 (pw_page w))
       in if pg_sequence (pw_page w) = after \<and> after AND 1 = 0
          then RDone (Some v) (length (pw_log w)) (length (pw_log ?w)) else RTry (Suc 0)) \<rparr>)"
    by (rule page_step.read_end) simp
  finally show ?thesis using assms by (simp add: read_access_def)
qed

lemma page_write_even: "even (pg_sequence p) \<Longrightarrow> pg_sequence (page_write snap p) = pg_sequence p + 2"
  using stores_last_sequence [of "pg_sequence p"] by (simp add: page_write_def write_stores_def)

lemma page_write_loaded: "loaded 7 (page_write snap p) = normalized snap"
  using stores_all [of "pg_sequence p" snap p] by (simp add: page_write_def)

section \<open>Properties\<close>

lemma first_store_performed:
  assumes "pw_writer w = WIdle" and "store_order in_order ord"
  shows "(page_step in_order)\<^sup>*\<^sup>* w
    (w\<lparr> pw_page := (write_stores (pg_sequence (pw_page w)) snap ! (ord ! 0)) (pw_page w),
        pw_writer := WStore (pg_sequence (pw_page w)) snap ord 1 (pw_page w) \<rparr>)"
proof -
  let ?w = "w\<lparr> pw_writer := WStore (pg_sequence (pw_page w)) snap ord 0 (pw_page w) \<rparr>"
  have "page_step in_order w ?w" using assms by (rule page_step.write_begin)
  moreover have "page_step in_order ?w
      (?w\<lparr> pw_page := (write_stores (pg_sequence (pw_page w)) snap ! (ord ! 0)) (pw_page ?w),
          pw_writer := WStore (pg_sequence (pw_page w)) snap ord (Suc 0) (pw_page w) \<rparr>)"
    by (rule page_step.write_store) simp_all
  ultimately show ?thesis by (simp add: rtranclp.rtrancl_into_rtrancl [OF r_into_rtranclp])
qed

lemma base_ticks_changed: "t \<noteq> tp_base_ticks v \<Longrightarrow> v\<lparr> tp_base_ticks := t \<rparr> \<noteq> v"
  by (cases v) simp

text \<open>
  C27. Accesses performed in program order, as on x86-64, never let a torn snapshot
  through: however the stores of the one writer and the loads of a reader
  interleave, a snapshot that the reader returns is exactly one that was published
  in full, the latest one at the moment the reader loaded the sequence again. Fewer
  than \<open>2 ^ 31\<close> snapshots must be published during one attempt, since the sequence
  number has 32 bits.
\<close>

theorem time_page_no_tearing:
  assumes "page_start w0" and "(page_step True)\<^sup>*\<^sup>* w0 w"
    and "pw_reader w = RDone (Some v) n0 n1" and "n1 - n0 < 2 ^ 31"
  shows "1 \<le> n1 \<and> n1 \<le> length (pw_log w) \<and> v = pw_log w ! (n1 - 1)"
  using page_inv_run [OF assms(2) page_inv_start [OF assms(1)]] assms(3,4)
  by (simp add: page_inv_def reader_ok_def)

theorem time_page_no_tearing_witness:
  "\<exists>w v. (page_step True)\<^sup>*\<^sup>*
       \<lparr> pw_page = page_zeroed, pw_writer = WIdle, pw_reader = RTry 0, pw_log = [loaded 7 page_zeroed] \<rparr> w \<and>
     pw_reader w = RDone (Some v) 2 2 \<and> v = no_snapshot\<lparr> tp_tick_frequency_hz := 1, tp_base_ticks := 5 \<rparr>"
proof -
  let ?w0 = "\<lparr> pw_page = page_zeroed, pw_writer = WIdle, pw_reader = RTry 0, pw_log = [loaded 7 page_zeroed] \<rparr>"
  let ?snap = "no_snapshot\<lparr> tp_base_ticks := 5 \<rparr>"
  let ?w1 = "?w0\<lparr> pw_page := page_write ?snap page_zeroed, pw_log := [loaded 7 page_zeroed, normalized ?snap] \<rparr>"
  let ?w2 = "?w1\<lparr> pw_reader := RDone (Some (loaded 7 (pw_page ?w1))) 2 2 \<rparr>"
  have s: "page_start ?w0" by (simp add: page_start_def page_zeroed_def)
  have "pg_sequence (pw_page ?w1) AND 1 = 0" by (simp add: page_write_even page_zeroed_def)
  then have run: "(page_step True)\<^sup>*\<^sup>* ?w0 ?w2"
    using writer_runs [of ?w0 ?snap] reader_runs [of ?w1 True] by (simp add: numeral_2_eq_2)
  have "loaded 7 (pw_page ?w1) = normalized ?snap"
    using time_page_no_tearing [OF s run] by simp
  then show ?thesis using run
    by (intro exI [of _ ?w2] exI [of _ "loaded 7 (pw_page ?w1)"]) (simp add: normalized_def no_snapshot_def)
qed

text \<open>
  C28. The orderings that the source asks for do not by themselves keep torn
  snapshots out. From every fresh page, and for every snapshot that changes
  \<open>base_ticks\<close> and some other field, there is a run in which the data store of
  \<open>base_ticks\<close> passes the \<open>Release\<close> store of the odd sequence before it: the reader
  finds the same even sequence twice and returns a snapshot with the new
  \<open>base_ticks\<close> beside the old other fields, which was never published. A fence is
  missing between the store of the odd sequence and the data stores.
\<close>

theorem time_page_release_store_tears:
  assumes "page_start w" and "tp_base_ticks snap \<noteq> tp_base_ticks (loaded 7 (pw_page w))"
    and "normalized snap \<noteq> (loaded 7 (pw_page w))\<lparr> tp_base_ticks := tp_base_ticks snap \<rparr>"
  shows "\<exists>w' v. (page_step False)\<^sup>*\<^sup>* w w' \<and> pw_writer w' = WIdle \<and>
    pw_log w' = [loaded 7 (pw_page w), normalized snap] \<and> pw_reader w' = RDone (Some v) 1 1 \<and>
    v = (loaded 7 (pw_page w))\<lparr> tp_base_ticks := tp_base_ticks snap \<rparr> \<and> v \<notin> set (pw_log w')"
proof -
  define ord :: "nat list" where "ord = [1, 0, 2, 3, 4, 5, 6, 7, 8]"
  define v where "v = (loaded 7 (pw_page w))\<lparr> tp_base_ticks := tp_base_ticks snap \<rparr>"
  define w2 where "w2 = w\<lparr> pw_page := (pw_page w)\<lparr> pg_base_ticks := tp_base_ticks snap \<rparr>,
    pw_writer := WStore 0 snap ord 1 (pw_page w) \<rparr>"
  define w3 where "w3 = w2\<lparr> pw_reader := RDone (Some v) 1 1 \<rparr>"
  define w4 where "w4 = w3\<lparr> pw_page := fold (\<lambda>i. write_stores 0 snap ! (ord ! i)) [1..<9] (pw_page w3),
    pw_writer := WIdle, pw_log := pw_log w3 @ [normalized snap] \<rparr>"
  have s: "pg_sequence (pw_page w) = 0" "pw_writer w = WIdle" "pw_reader w = RTry 0"
    "pw_log w = [loaded 7 (pw_page w)]"
    using assms(1) by (auto simp: page_start_def)
  have "store_order False ord" unfolding ord_def by code_simp
  then have "(page_step False)\<^sup>*\<^sup>* w w2"
    using first_store_performed [of w False ord snap] s by (simp add: w2_def ord_def write_stores_def)
  moreover have "loaded 7 (pw_page w2) = v" by (simp add: loaded_def read_loads_def w2_def v_def)
  then have "(page_step False)\<^sup>*\<^sup>* w2 w3"
    using reader_runs [of w2 False] s unfolding w3_def by (simp add: w2_def)
  moreover have "(page_step False)\<^sup>*\<^sup>* w3 w4"
    unfolding w4_def by (rule writer_finishes [of w3 0 snap ord 1 "pw_page w"]) (simp_all add: w3_def w2_def)
  ultimately have "(page_step False)\<^sup>*\<^sup>* w w4" by (meson rtranclp_trans)
  moreover have l: "pw_log w4 = [loaded 7 (pw_page w), normalized snap]"
    using s(4) by (simp add: w4_def w3_def w2_def)
  moreover have "v \<noteq> loaded 7 (pw_page w)" unfolding v_def using assms(2) by (rule base_ticks_changed)
  then have "v \<notin> set (pw_log w4)" using assms(3) unfolding l v_def by auto
  moreover have "pw_writer w4 = WIdle" "pw_reader w4 = RDone (Some v) 1 1" by (simp_all add: w4_def w3_def)
  ultimately show ?thesis unfolding v_def by blast
qed

theorem time_page_release_store_tears_witness:
  "\<exists>w' v. (page_step False)\<^sup>*\<^sup>*
       \<lparr> pw_page = page_zeroed, pw_writer = WIdle, pw_reader = RTry 0, pw_log = [loaded 7 page_zeroed] \<rparr> w' \<and>
     pw_reader w' = RDone (Some v) 1 1 \<and> tp_base_ticks v = 5 \<and> tp_base_monotonic_ns v = 0 \<and> v \<notin> set (pw_log w')"
proof -
  let ?w0 = "\<lparr> pw_page = page_zeroed, pw_writer = WIdle, pw_reader = RTry 0, pw_log = [loaded 7 page_zeroed] \<rparr>"
  let ?snap = "no_snapshot\<lparr> tp_base_ticks := 5, tp_base_monotonic_ns := 7 \<rparr>"
  have "page_start ?w0" "tp_base_ticks ?snap \<noteq> tp_base_ticks (loaded 7 (pw_page ?w0))"
    "normalized ?snap \<noteq> (loaded 7 (pw_page ?w0))\<lparr> tp_base_ticks := tp_base_ticks ?snap \<rparr>"
    by (simp_all add: page_start_def page_zeroed_def loaded_def read_loads_def normalized_def no_snapshot_def)
  from time_page_release_store_tears [OF this]
  obtain w' v where "(page_step False)\<^sup>*\<^sup>* ?w0 w'" "pw_reader w' = RDone (Some v) 1 1" "v \<notin> set (pw_log w')"
    "v = (loaded 7 (pw_page ?w0))\<lparr> tp_base_ticks := tp_base_ticks ?snap \<rparr>" by blast
  moreover from this(4) have "tp_base_ticks v = 5" "tp_base_monotonic_ns v = 0"
    by (simp_all add: page_zeroed_def loaded_def read_loads_def no_snapshot_def)
  ultimately show ?thesis by blast
qed

text \<open>
  What is written is what is read: on a page with the right magic and version
  whose sequence is even, a write followed by a read returns the snapshot, with a
  tick frequency of zero replaced by one, and leaves the sequence even.
\<close>

lemma time_page_roundtrip:
  assumes "pg_magic p = TIME_PAGE_MAGIC" and "pg_abi_version p = TIME_PAGE_VERSION" and "pg_sequence p AND 1 = 0"
  shows "page_read (page_write snap p) = Some (normalized snap) \<and> pg_sequence (page_write snap p) AND 1 = 0"
proof -
  have "even (pg_sequence p)" using assms(3) by (simp add: even_parity)
  then have e: "pg_sequence (page_write snap p) AND 1 = 0" by (simp add: even_parity page_write_even)
  have "pg_magic (page_write snap p) = TIME_PAGE_MAGIC" "pg_abi_version (page_write snap p) = TIME_PAGE_VERSION"
    using assms by (simp_all add: page_write_def write_stores_def)
  moreover have "read_attempts 8 q = Some (loaded 7 q)" if "pg_sequence q AND 1 = 0" for q
    using that by (simp add: eval_nat_numeral)
  ultimately show ?thesis using e by (simp add: page_read_def page_write_loaded)
qed

lemma time_page_example:
  "page_read (page_write no_snapshot page_zeroed) = Some (no_snapshot\<lparr> tp_tick_frequency_hz := 1 \<rparr>)"
  using time_page_roundtrip [of page_zeroed no_snapshot]
  by (simp add: page_zeroed_def normalized_def no_snapshot_def)

end
