(* ===== verification/Service_Base.thy ===== *)
theory Service_Base
  imports Sched_Types Ipc_Ring
begin

text \<open>
  What the tables and handlers of \<open>kernel/core/src/kernel_services\<close> share: the
  rights and signals, the status codes, the object kinds, the shape of a
  handler as an operation on a state that may fail, the rules by which an
  invariant is carried through a handler, and the contract of a table that
  hands out increasing identifiers.
\<close>

section \<open>Rights, signals and status codes\<close>

definition RIGHT_TRANSFER :: u32 where "RIGHT_TRANSFER = 0x00000001"
definition RIGHT_READ :: u32 where "RIGHT_READ = 0x00000002"
definition RIGHT_WRITE :: u32 where "RIGHT_WRITE = 0x00000004"
definition RIGHT_EXECUTE :: u32 where "RIGHT_EXECUTE = 0x00000008"
definition RIGHT_MAP :: u32 where "RIGHT_MAP = 0x00000010"
definition RIGHT_DUPLICATE :: u32 where "RIGHT_DUPLICATE = 0x00000020"
definition RIGHT_SIGNAL :: u32 where "RIGHT_SIGNAL = 0x00000040"
definition RIGHT_MANAGE_TASK :: u32 where "RIGHT_MANAGE_TASK = 0x00000080"
definition RIGHT_SET_POLICY :: u32 where "RIGHT_SET_POLICY = 0x00000100"
definition RIGHT_ADMIN :: u32 where "RIGHT_ADMIN = 0x80000000"

definition SIGNAL_READABLE :: u32 where "SIGNAL_READABLE = 0x00000001"
definition SIGNAL_WRITABLE :: u32 where "SIGNAL_WRITABLE = 0x00000002"
definition SIGNAL_PEER_CLOSED :: u32 where "SIGNAL_PEER_CLOSED = 0x00000004"
definition SIGNAL_TERMINATED :: u32 where "SIGNAL_TERMINATED = 0x00000020"

lemmas right_defs = RIGHT_TRANSFER_def RIGHT_READ_def RIGHT_WRITE_def RIGHT_EXECUTE_def RIGHT_MAP_def
  RIGHT_DUPLICATE_def RIGHT_SIGNAL_def RIGHT_MANAGE_TASK_def RIGHT_SET_POLICY_def RIGHT_ADMIN_def

datatype kernel_service_status = Ok | InvalidHandle | AccessDenied | NoMemory | BufferTooSmall
  | PeerClosed | TimedOut | AlreadyExists | InvalidArgs | ResourceExhausted

datatype hardware_access = NoAccess | Isolated | Direct

type_synonym handle = u64

datatype object_kind = Channel | Vmo | Thread | Profile | ResourceGroup | Process | Job | VmSpace
  | Vmar | Interrupt | ReplyToken | GpuReservation

record read_message_result =
  rm_status :: kernel_service_status
  rm_bytes_len :: nat
  rm_handles_len :: nat

record map_result =
  mp_status :: kernel_service_status
  mp_mapped_vaddr :: u64

record wait_many_item =
  wi_handle :: handle
  wi_signals :: u32

record wait_many_result =
  wm_status :: kernel_service_status
  wm_satisfied_index :: u32
  wm_observed_signals :: u32

record wake_result =
  wk_status :: kernel_service_status
  wk_woken_count :: u32

text \<open>
  The vectors that grow with \<open>try_reserve\<close>, and those of the scheduler. For
  \<open>try_reserve_exact\<close> on an empty vector the number is the length asked for.
\<close>

datatype service_site = SiteHandles | SiteChannels | SiteBytes | SiteMessageHandles | SiteMessages | SiteCalls
  | SiteScratchBytes | SiteScratchHandles | SiteVmos | SiteFrames | SiteFrameRefs | SiteMappings | SiteVmars
  | SiteThreads | SiteFutexes | SiteWoken | SiteProcesses | SiteJobs | SiteVmSpaces | SiteGroups
  | SiteReservations | SiteInterrupts | SiteProfiles | SitePower | SiteSched reserve_site

section \<open>Operations\<close>

text \<open>
  A handler works on a state and returns a value or a status, which is how the
  source uses \<open>Result\<close> with \<open>?\<close>. The state an error leaves is the state
  reached at the point of the error.
\<close>

type_synonym ('s, 'a) op = "'s \<Rightarrow> 's \<times> (kernel_service_status + 'a)"

definition give :: "'a \<Rightarrow> ('s, 'a) op" where
  "give x s = (s, Inr x)"

definition raise :: "kernel_service_status \<Rightarrow> ('s, 'a) op" where
  "raise e s = (s, Inl e)"

definition seq :: "('s, 'a) op \<Rightarrow> ('a \<Rightarrow> ('s, 'b) op) \<Rightarrow> ('s, 'b) op" where
  "seq m f s = (case m s of (s', Inl e) \<Rightarrow> (s', Inl e) | (s', Inr x) \<Rightarrow> f x s')"

text \<open>Reading a value that may be missing, an early return, and an update.\<close>

definition look :: "('s \<Rightarrow> kernel_service_status + 'a) \<Rightarrow> ('s, 'a) op" where
  "look g s = (s, g s)"

definition require :: "bool \<Rightarrow> kernel_service_status \<Rightarrow> ('s, unit) op" where
  "require c e = (if c then give () else raise e)"

definition change :: "('s \<Rightarrow> 's) \<Rightarrow> ('s, unit) op" where
  "change f s = (f s, Inr ())"

text \<open>\<open>let _ = ...\<close>: the result, good or bad, is a value.\<close>

definition attempt :: "('s, 'a) op \<Rightarrow> ('s, kernel_service_status + 'a) op" where
  "attempt m s = (case m s of (s', r) \<Rightarrow> (s', Inr r))"

text \<open>An operation on a field of the state.\<close>

definition within :: "('s \<Rightarrow> 't) \<Rightarrow> ('t \<Rightarrow> 's \<Rightarrow> 's) \<Rightarrow> ('t, 'a) op \<Rightarrow> ('s, 'a) op" where
  "within get put m s = (case m (get s) of (t, r) \<Rightarrow> (put t s, r))"

text \<open>Running a handler that returns a status, not a result.\<close>

definition status_of :: "kernel_service_status + 'a \<Rightarrow> kernel_service_status" where
  "status_of r = (case r of Inl e \<Rightarrow> e | Inr _ \<Rightarrow> Ok)"

definition returning :: "(kernel_service_status + 'a \<Rightarrow> 'b) \<Rightarrow> ('s, 'a) op \<Rightarrow> 's \<Rightarrow> 's \<times> 'b" where
  "returning f m s = (case m s of (s', r) \<Rightarrow> (s', f r))"

text \<open>A loop over a list whose body may fail.\<close>

primrec each :: "('a \<Rightarrow> ('s, unit) op) \<Rightarrow> 'a list \<Rightarrow> ('s, unit) op" where
  "each f [] = give ()"
| "each f (x # xs) = seq (f x) (\<lambda>_. each f xs)"

named_theorems op_simps \<open>evaluation of operations\<close>

lemma op_run [op_simps]:
  "give x s = (s, Inr x)" "raise e s = (s, Inl e)" "look g s = (s, g s)" "change f s = (f s, Inr ())"
  by (simp_all add: give_def raise_def look_def change_def)

lemma require_run [op_simps]: "require c e s = (s, if c then Inr () else Inl e)"
  by (simp add: require_def op_run)

lemma seq_run [op_simps]:
  "m s = (s', Inr x) \<Longrightarrow> seq m f s = f x s'" "m s = (s', Inl e) \<Longrightarrow> seq m f s = (s', Inl e)"
  by (simp_all add: seq_def)

lemma seq_Inr: "seq m f s = (s'', Inr y) \<longleftrightarrow> (\<exists>s' x. m s = (s', Inr x) \<and> f x s' = (s'', Inr y))"
  by (auto simp: seq_def split: prod.splits sum.splits)

lemma seq_assoc: "seq (seq m f) g = seq m (\<lambda>x. seq (f x) g)"
  by (rule ext) (auto simp: seq_def split: prod.splits sum.splits)

lemma fst_returning [simp]: "fst (returning f m s) = fst (m s)"
  by (simp add: returning_def split: prod.split)

lemma returning_Pair: "m s = (s', r) \<Longrightarrow> returning f m s = (s', f r)"
  by (simp add: returning_def)

section \<open>Carrying an invariant through an operation\<close>

text \<open>
  \<open>holds I P m Q\<close>: from a state with the invariant \<open>I\<close> and \<open>P\<close>, the operation
  leaves the invariant in every case and \<open>Q\<close> of its result when it succeeds.
\<close>

definition holds :: "('s \<Rightarrow> bool) \<Rightarrow> ('s \<Rightarrow> bool) \<Rightarrow> ('s, 'a) op \<Rightarrow> ('a \<Rightarrow> 's \<Rightarrow> bool) \<Rightarrow> bool" where
  "holds I P m Q \<longleftrightarrow> (\<forall>s. I s \<and> P s \<longrightarrow> I (fst (m s)) \<and> (\<forall>x. snd (m s) = Inr x \<longrightarrow> Q x (fst (m s))))"

abbreviation keeps :: "('s \<Rightarrow> bool) \<Rightarrow> ('s, 'a) op \<Rightarrow> bool" where
  "keeps I m \<equiv> holds I (\<lambda>_. True) m (\<lambda>_ _. True)"

named_theorems keeps_intros \<open>operations that keep an invariant\<close>

lemma holdsI:
  assumes "\<And>s s' r. I s \<Longrightarrow> P s \<Longrightarrow> m s = (s', r) \<Longrightarrow> I s' \<and> (\<forall>x. r = Inr x \<longrightarrow> Q x s')"
  shows "holds I P m Q"
  unfolding holds_def using assms by (metis prod.collapse)

lemma holdsD: "holds I P m Q \<Longrightarrow> I s \<Longrightarrow> P s \<Longrightarrow> I (fst (m s))"
  by (simp add: holds_def)

lemma holds_result: "holds I P m Q \<Longrightarrow> I s \<Longrightarrow> P s \<Longrightarrow> m s = (s', Inr x) \<Longrightarrow> I s' \<and> Q x s'"
  by (fastforce simp: holds_def)

lemma holds_weaken:
  "holds I P m Q \<Longrightarrow> (\<And>s. I s \<Longrightarrow> P' s \<Longrightarrow> P s) \<Longrightarrow> (\<And>x s. I s \<Longrightarrow> Q x s \<Longrightarrow> Q' x s) \<Longrightarrow> holds I P' m Q'"
  unfolding holds_def by blast

lemma holds_seq:
  assumes "holds I P m R" and "\<And>x. holds I (R x) (f x) Q"
  shows "holds I P (seq m f) Q"
proof (rule holdsI)
  fix s s' r assume s: "I s" "P s" "seq m f s = (s', r)"
  obtain s1 r1 where m: "m s = (s1, r1)" by fastforce
  show "I s' \<and> (\<forall>x. r = Inr x \<longrightarrow> Q x s')"
  proof (cases r1)
    case (Inl e)
    with s m assms(1) show ?thesis by (fastforce simp: seq_def holds_def)
  next
    case (Inr x)
    with s m assms(1) have "I s1" "R x s1" by (fastforce simp: holds_def)+
    with assms(2) [of x] s m Inr show ?thesis by (fastforce simp: seq_def holds_def)
  qed
qed

lemma holds_give: "holds I (Q x) (give x) Q"
  by (simp add: holds_def op_run)

lemma holds_raise: "holds I P (raise e) Q"
  by (simp add: holds_def op_run)

lemma holds_look: "holds I P (look g) (\<lambda>x s. P s \<and> g s = Inr x)"
  by (simp add: holds_def op_run)

lemma holds_require: "holds I P (require c e) (\<lambda>_ s. P s \<and> c)"
  by (simp add: holds_def require_run)

lemma holds_change: "(\<And>s. I s \<Longrightarrow> P s \<Longrightarrow> I (f s) \<and> Q () (f s)) \<Longrightarrow> holds I P (change f) Q"
  by (simp add: holds_def op_run)

lemma keeps_seq [keeps_intros]: "keeps I m \<Longrightarrow> (\<And>x. keeps I (f x)) \<Longrightarrow> keeps I (seq m f)"
  by (rule holds_seq)

lemma keeps_basic [keeps_intros]:
  "keeps I (give x)" "keeps I (raise e)" "keeps I (look g)" "keeps I (require c e)"
  by (simp_all add: holds_def op_run require_run)

lemma keeps_change [keeps_intros]: "(\<And>s. I s \<Longrightarrow> I (f s)) \<Longrightarrow> keeps I (change f)"
  by (simp add: holds_def op_run)

lemma keeps_attempt [keeps_intros]: "keeps I m \<Longrightarrow> keeps I (attempt m)"
  by (simp add: holds_def attempt_def case_prod_unfold)

lemma keeps_each [keeps_intros]: "(\<And>x. keeps I (f x)) \<Longrightarrow> keeps I (each f xs)"
  by (induction xs) (auto intro!: keeps_seq keeps_basic)

lemma keeps_if [keeps_intros]: "(c \<Longrightarrow> keeps I m) \<Longrightarrow> (\<not> c \<Longrightarrow> keeps I m') \<Longrightarrow> keeps I (if c then m else m')"
  by simp

lemma keeps_option [keeps_intros]:
  "(v = None \<Longrightarrow> keeps I m) \<Longrightarrow> (\<And>x. v = Some x \<Longrightarrow> keeps I (f x)) \<Longrightarrow>
    keeps I (case v of None \<Rightarrow> m | Some x \<Rightarrow> f x)"
  by (cases v) simp_all

lemma keeps_sum [keeps_intros]:
  "(\<And>x. v = Inl x \<Longrightarrow> keeps I (f x)) \<Longrightarrow> (\<And>x. v = Inr x \<Longrightarrow> keeps I (g x)) \<Longrightarrow>
    keeps I (case v of Inl x \<Rightarrow> f x | Inr x \<Rightarrow> g x)"
  by (cases v) simp_all

lemma keeps_prod [keeps_intros]:
  "(\<And>a b. v = (a, b) \<Longrightarrow> keeps I (f a b)) \<Longrightarrow> keeps I (case v of (a, b) \<Rightarrow> f a b)"
  by (cases v) simp

lemma keeps_let [keeps_intros]: "(\<And>x. x = v \<Longrightarrow> keeps I (f x)) \<Longrightarrow> keeps I (let x = v in f x)"
  by simp

lemma keeps_within:
  "(\<And>s t r. I s \<Longrightarrow> m (get s) = (t, r) \<Longrightarrow> I (put t s)) \<Longrightarrow> keeps I (within get put m)"
  by (simp add: holds_def within_def split: prod.split)

section \<open>Tables with increasing identifiers\<close>

text \<open>
  Every table of the kernel services is a vector of records and a counter: a
  new record gets the counter as its identifier and the counter is increased,
  saturating at the top. Identifiers are unique as long as the counter has not
  reached the top, which takes \<open>2 ^ 64 - 1\<close> insertions (\<open>2 ^ 32 - 1\<close> for resource
  groups).
\<close>

definition ids_ok :: "('r \<Rightarrow> 'i::len word) \<Rightarrow> 'i word \<Rightarrow> 'r list \<Rightarrow> bool" where
  "ids_ok key counter xs \<longleftrightarrow>
     counter = max_of \<or> distinct (map key xs) \<and> (\<forall>x\<in>set xs. key x < counter)"

lemma sat_add_one: "counter \<noteq> max_of \<Longrightarrow> unat (sat_add counter 1) = Suc (unat counter)"
  for counter :: "'i::len word"
proof -
  assume "counter \<noteq> max_of"
  then have "unat counter \<noteq> unat (max_of :: 'i word)" by (simp add: word_unat_eq_iff)
  moreover have "unat counter < 2 ^ LENGTH('i)" by (rule unsigned_less)
  ultimately have "Suc (unat counter) \<le> 2 ^ LENGTH('i) - 1" unfolding unat_max_of by linarith
  then show ?thesis by (simp add: unat_sat_add)
qed

lemma find_app:
  "List.find p (xs @ ys) = (case List.find p xs of None \<Rightarrow> List.find p ys | Some x \<Rightarrow> Some x)"
  by (induction xs) auto

lemma find_map_key:
  "(\<And>x. k (g x) = k x) \<Longrightarrow> List.find (\<lambda>x. k x = i) (map g xs) = map_option g (List.find (\<lambda>x. k x = i) xs)"
  by (induction xs) auto

lemma ids_ok_empty [simp]: "ids_ok key counter []"
  by (simp add: ids_ok_def)

lemma sat_add_max [simp]: "sat_add max_of n = max_of"
  by (auto simp: word_unat_eq_iff unat_sat_add unat_max_of)

lemma ids_ok_insert:
  assumes "ids_ok key counter xs" and "key x = counter"
  shows "ids_ok key (sat_add counter 1) (xs @ [x])"
proof (cases "counter = max_of")
  case False
  with assms have d: "distinct (map key xs)" "\<forall>y\<in>set xs. key y < counter" by (auto simp: ids_ok_def)
  then have "key x \<notin> key ` set xs" using assms(2) by auto
  moreover have "\<forall>y\<in>set (xs @ [x]). key y < sat_add counter 1"
    using d(2) assms(2) sat_add_one [OF False] by (auto simp: word_less_nat_alt less_Suc_eq)
  ultimately show ?thesis using d(1) by (auto simp: ids_ok_def)
qed (simp add: ids_ok_def)

lemma ids_ok_subset:
  assumes "ids_ok key counter xs" and "mset ys \<subseteq># mset xs"
  shows "ids_ok key counter ys"
proof -
  have "distinct (map key ys)" if "distinct (map key xs)"
  proof -
    obtain zs where "mset xs = mset (ys @ zs)"
      using assms(2) by (metis ex_mset mset_append mset_subset_eq_exists_conv)
    then have "mset (map key xs) = mset (map key (ys @ zs))" by simp
    with that have "distinct (map key (ys @ zs))" by (metis mset_eq_imp_distinct_iff)
    then show ?thesis by simp
  qed
  with assms set_mset_mono [OF assms(2)] show ?thesis by (auto simp: ids_ok_def)
qed

lemma ids_ok_map: "map key ys = map key xs \<Longrightarrow> ids_ok key counter ys = ids_ok key counter xs"
  unfolding ids_ok_def by (metis (no_types, lifting) in_set_conv_nth length_map nth_map)

text \<open>What clients of such a table use.\<close>

locale id_table =
  fixes entries :: "'t \<Rightarrow> 'r list"
    and counter :: "'t \<Rightarrow> 'i::len word"
    and key :: "'r \<Rightarrow> 'i word"
    and get :: "'t \<Rightarrow> 'i word \<Rightarrow> 'r option"
    and add :: "'a \<Rightarrow> ('t, 'i word) op"
    and made :: "'a \<Rightarrow> 'i word \<Rightarrow> 'r"
  assumes get_find: "get t i = List.find (\<lambda>r. key r = i) (entries t)"
    and key_made: "key (made a i) = i"
    and add_done: "add a t = (t', Inr i) \<Longrightarrow>
      i = counter t \<and> entries t' = entries t @ [made a i] \<and> counter t' = sat_add (counter t) 1"
    and add_failed: "add a t = (t', Inl e) \<Longrightarrow> t' = t"
begin

definition table_ok :: "'t \<Rightarrow> bool" where
  "table_ok t \<longleftrightarrow> ids_ok key (counter t) (entries t)"

lemma add_cases:
  obtains e where "add a t = (t, Inl e)"
  | t' where "add a t = (t', Inr (counter t))" "entries t' = entries t @ [made a (counter t)]"
      "counter t' = sat_add (counter t) 1"
proof (cases "add a t")
  case (Pair t' r)
  show thesis
  proof (cases r)
    case (Inl e)
    with Pair add_failed [of a t t' e] that(1) show ?thesis by simp
  next
    case (Inr i)
    with Pair add_done [of a t t' i] that(2) show ?thesis by simp
  qed
qed

lemma table_ok_add: "table_ok t \<Longrightarrow> table_ok (fst (add a t))"
  by (cases rule: add_cases [of a t]) (auto simp: table_ok_def key_made intro: ids_ok_insert)

lemma get_in: "get t i = Some r \<Longrightarrow> r \<in> set (entries t) \<and> key r = i"
  unfolding get_find by (rule find_Some_in)

lemma get_iff:
  "table_ok t \<Longrightarrow> counter t \<noteq> max_of \<Longrightarrow> get t i = Some r \<longleftrightarrow> r \<in> set (entries t) \<and> key r = i"
  unfolding get_find table_ok_def ids_ok_def by (simp add: find_key_iff)

lemma get_live: "get t i = None \<longleftrightarrow> i \<notin> key ` set (entries t)"
  unfolding get_find by (rule find_key_None)

text \<open>A successful insertion is found under the identifier it returned and disturbs no other.\<close>

lemma get_added:
  assumes "table_ok t" and "counter t \<noteq> max_of" and "add a t = (t', Inr i)"
  shows "get t' i = Some (made a i)" and "j \<noteq> i \<Longrightarrow> get t' j = get t j"
proof -
  note d = add_done [OF assms(3)]
  have "counter t \<notin> key ` set (entries t)" using assms(1,2) by (auto simp: table_ok_def ids_ok_def)
  then show "get t' i = Some (made a i)"
    using d by (simp add: get_find find_app find_key_None [symmetric] key_made)
  show "j \<noteq> i \<Longrightarrow> get t' j = get t j"
    using d by (simp add: get_find find_app key_made split: option.split)
qed

lemma live_grows: "key ` set (entries t) \<subseteq> key ` set (entries (fst (add a t)))"
  by (cases rule: add_cases [of a t]) auto

end

end
