(* ===== verification/Handles.thy ===== *)
theory Handles
  imports Service_Base
begin

text \<open>
  The handle table (\<open>kernel_services/handle.rs\<close>): every access of a process to a
  kernel object goes through a record that names the object, its kind and the
  rights granted.
\<close>

section \<open>Operations\<close>

record handle_record =
  hr_handle_id :: u64
  hr_object_id :: u64
  hr_kind :: object_kind
  hr_rights :: u32
  hr_signals :: u32
  hr_owner_task_id :: u64
  hr_endpoint :: "endpoint option"

definition SIGNAL_SIGNALED_OR_WRITABLE :: u32 where
  "SIGNAL_SIGNALED_OR_WRITABLE = SIGNAL_WRITABLE"

definition initial_signals :: "object_kind \<Rightarrow> u32" where
  "initial_signals kind =
     (case kind of
        Channel \<Rightarrow> SIGNAL_WRITABLE
      | Thread \<Rightarrow> 0
      | _ \<Rightarrow> SIGNAL_SIGNALED_OR_WRITABLE)"

definition closed_signals :: "object_kind \<Rightarrow> u32" where
  "closed_signals kind =
     (case kind of Channel \<Rightarrow> SIGNAL_PEER_CLOSED | Thread \<Rightarrow> SIGNAL_TERMINATED | _ \<Rightarrow> SIGNAL_READABLE)"

definition handle_record_new :: "u64 \<Rightarrow> u64 \<Rightarrow> object_kind \<Rightarrow> u32 \<Rightarrow> u64 \<Rightarrow> endpoint option \<Rightarrow> handle_record" where
  "handle_record_new handle_id object_id kind rights owner_task_id endpoint =
     \<lparr> hr_handle_id = handle_id, hr_object_id = object_id, hr_kind = kind, hr_rights = rights,
       hr_signals = initial_signals kind, hr_owner_task_id = owner_task_id, hr_endpoint = endpoint \<rparr>"

definition has_rights :: "handle_record \<Rightarrow> u32 \<Rightarrow> bool" where
  "has_rights r required \<longleftrightarrow> hr_rights r AND required = required"

record handle_table =
  ht_entries :: "handle_record list"
  ht_next_handle_id :: u64

definition handle_table_new :: handle_table where
  "handle_table_new = \<lparr> ht_entries = [], ht_next_handle_id = 1 \<rparr>"

definition handle_insert ::
    "service_site allocator \<Rightarrow> u64 \<Rightarrow> object_kind \<Rightarrow> u32 \<Rightarrow> u64 \<Rightarrow> endpoint option \<Rightarrow> (handle_table, handle) op" where
  "handle_insert al object_id kind rights owner_task_id endpoint t =
     (if \<not> al SiteHandles (length (ht_entries t)) then (t, Inl NoMemory)
      else let handle_id = ht_next_handle_id t
           in (t\<lparr> ht_next_handle_id := sat_add handle_id 1,
                  ht_entries := ht_entries t @
                    [handle_record_new handle_id object_id kind rights owner_task_id endpoint] \<rparr>, Inr handle_id))"

definition handle_get :: "handle_table \<Rightarrow> u64 \<Rightarrow> handle_record option" where
  "handle_get t raw = List.find (\<lambda>r. hr_handle_id r = raw) (ht_entries t)"

definition entry_for_object :: "handle_table \<Rightarrow> u64 \<Rightarrow> object_kind \<Rightarrow> handle_record option" where
  "entry_for_object t object_id kind =
     List.find (\<lambda>r. hr_object_id r = object_id \<and> hr_kind r = kind) (ht_entries t)"

definition handles_for_object :: "handle_table \<Rightarrow> u64 \<Rightarrow> object_kind \<Rightarrow> u64 list" where
  "handles_for_object t object_id kind =
     map hr_handle_id (filter (\<lambda>r. hr_object_id r = object_id \<and> hr_kind r = kind) (ht_entries t))"

definition set_signals :: "u64 \<Rightarrow> u32 \<Rightarrow> handle_table \<Rightarrow> handle_table" where
  "set_signals raw signals t =
     t\<lparr> ht_entries := upd_first (\<lambda>r. hr_handle_id r = raw) (\<lambda>r. r\<lparr> hr_signals := signals \<rparr>) (ht_entries t) \<rparr>"

definition signals_for_object :: "(u32 \<Rightarrow> u32) \<Rightarrow> u64 \<Rightarrow> object_kind \<Rightarrow> handle_table \<Rightarrow> handle_table" where
  "signals_for_object f object_id kind t =
     t\<lparr> ht_entries := map (\<lambda>r. if hr_object_id r = object_id \<and> hr_kind r = kind
                               then r\<lparr> hr_signals := f (hr_signals r) \<rparr> else r) (ht_entries t) \<rparr>"

definition add_signals_for_object :: "u64 \<Rightarrow> object_kind \<Rightarrow> u32 \<Rightarrow> handle_table \<Rightarrow> handle_table" where
  "add_signals_for_object object_id kind signals = signals_for_object (\<lambda>old. old OR signals) object_id kind"

definition remove_signals_for_object :: "u64 \<Rightarrow> object_kind \<Rightarrow> u32 \<Rightarrow> handle_table \<Rightarrow> handle_table" where
  "remove_signals_for_object object_id kind signals = signals_for_object (\<lambda>old. old AND NOT signals) object_id kind"

definition remove_where :: "(handle_record \<Rightarrow> bool) \<Rightarrow> handle_table \<Rightarrow> handle_table \<times> handle_record option" where
  "remove_where p t =
     (case position p (ht_entries t) of
        None \<Rightarrow> (t, None)
      | Some index \<Rightarrow> (t\<lparr> ht_entries := swap_remove index (ht_entries t) \<rparr>, Some (ht_entries t ! index)))"

definition handle_remove :: "u64 \<Rightarrow> handle_table \<Rightarrow> handle_table \<times> handle_record option" where
  "handle_remove raw = remove_where (\<lambda>r. hr_handle_id r = raw)"

definition remove_for_owner :: "u64 \<Rightarrow> handle_table \<Rightarrow> handle_table \<times> handle_record option" where
  "remove_for_owner owner_task_id = remove_where (\<lambda>r. hr_owner_task_id r = owner_task_id)"

section \<open>The table hands out increasing identifiers\<close>

interpretation handles: id_table ht_entries ht_next_handle_id hr_handle_id handle_get
    "\<lambda>(object_id, kind, rights, owner, endpoint). handle_insert al object_id kind rights owner endpoint"
    "\<lambda>(object_id, kind, rights, owner, endpoint) i. handle_record_new i object_id kind rights owner endpoint"
    for al
  by unfold_locales
    (auto simp: handle_get_def handle_insert_def handle_record_new_def Let_def split: if_splits)

abbreviation handles_ok :: "handle_table \<Rightarrow> bool" where
  "handles_ok t \<equiv> ids_ok hr_handle_id (ht_next_handle_id t) (ht_entries t)"

lemma handles_ok_eq: "handles.table_ok t \<longleftrightarrow> handles_ok t"
  by (simp add: handles.table_ok_def)

lemma handle_insert_cases:
  obtains "handle_insert al ob k r w e t = (t, Inl NoMemory)"
  | "handle_insert al ob k r w e t =
      (t\<lparr> ht_next_handle_id := sat_add (ht_next_handle_id t) 1,
          ht_entries := ht_entries t @ [handle_record_new (ht_next_handle_id t) ob k r w e] \<rparr>, Inr (ht_next_handle_id t))"
  by (cases "al SiteHandles (length (ht_entries t))") (simp_all add: handle_insert_def Let_def)

section \<open>Removal\<close>

lemma remove_where_Some:
  assumes "remove_where p t = (t', Some r)"
  shows "p r" and "r \<in> set (ht_entries t)" and "mset (ht_entries t') = mset (ht_entries t) - {# r #}"
    and "ht_next_handle_id t' = ht_next_handle_id t"
  using assms by (auto simp: remove_where_def position_Some mset_swap_remove split: option.splits)

lemma remove_where_None: "remove_where p t = (t', None) \<Longrightarrow> t' = t \<and> (\<forall>r\<in>set (ht_entries t). \<not> p r)"
  by (auto simp: remove_where_def position_None split: option.splits)

lemma remove_where_subset:
  "set (ht_entries (fst (remove_where p t))) \<subseteq> set (ht_entries t)"
  using set_swap_remove_subset by (fastforce simp: remove_where_def split: option.splits)

lemma remove_where_length:
  "remove_where p t = (t', Some r) \<Longrightarrow> length (ht_entries t') < length (ht_entries t)"
  by (auto simp: remove_where_def position_Some split: option.splits)

lemma handles_ok_remove: "handles_ok t \<Longrightarrow> handles_ok (fst (remove_where p t))"
proof (cases "remove_where p t")
  case (Pair t' v)
  assume ok: "handles_ok t"
  show ?thesis
  proof (cases v)
    case None
    with Pair ok remove_where_None [of p t t'] show ?thesis by simp
  next
    case (Some r)
    note d = remove_where_Some [OF Pair [unfolded Some]]
    have "mset (ht_entries t') \<subseteq># mset (ht_entries t)" by (simp add: d(3))
    with ok Pair d(4) show ?thesis by (simp add: ids_ok_subset)
  qed
qed

text \<open>Removing a handle makes it invalid and leaves every other handle as it was.\<close>

lemma handle_remove_get:
  assumes ok: "handles_ok t" "ht_next_handle_id t \<noteq> max_of" and rm: "handle_remove raw t = (t', Some r)"
  shows "handle_get t raw = Some r" and "handle_get t' raw = None" and "j \<noteq> raw \<Longrightarrow> handle_get t' j = handle_get t j"
proof -
  note d = remove_where_Some [OF rm [unfolded handle_remove_def]]
  have ok': "handles_ok t'" "ht_next_handle_id t' \<noteq> max_of"
    using handles_ok_remove [OF ok(1), of "\<lambda>r. hr_handle_id r = raw"] rm d(4) ok(2)
    by (simp_all add: handle_remove_def)
  note g = handles.get_iff [unfolded handles_ok_eq, OF ok] and g' = handles.get_iff [unfolded handles_ok_eq, OF ok']
  have dist: "distinct (map hr_handle_id (ht_entries t))" using ok by (simp add: ids_ok_def)
  then have "distinct (ht_entries t)" by (simp add: distinct_map)
  moreover have "set (ht_entries t') = set (remove1 r (ht_entries t))"
    using d(3) by (metis mset_remove1 set_mset_mset)
  ultimately have set': "set (ht_entries t') = set (ht_entries t) - {r}" by simp
  show "handle_get t raw = Some r" using g d by simp
  have "x = r" if "x \<in> set (ht_entries t)" "hr_handle_id x = raw" for x
    using distinct_key_eq [OF dist that(1) d(2)] that d(1) by simp
  then show "handle_get t' raw = None"
    unfolding handles.get_live set' by auto
  show "j \<noteq> raw \<Longrightarrow> handle_get t' j = handle_get t j"
  proof -
    assume j: "j \<noteq> raw"
    have "handle_get t' j = Some x \<longleftrightarrow> handle_get t j = Some x" for x
      unfolding g g' set' using j d(1) by auto
    then show ?thesis by (cases "handle_get t j"; cases "handle_get t' j") auto
  qed
qed

section \<open>Signals leave identity and rights alone\<close>

lemma signals_sel [simp]:
  "ht_next_handle_id (signals_for_object f ob k t) = ht_next_handle_id t"
  "map hr_handle_id (ht_entries (signals_for_object f ob k t)) = map hr_handle_id (ht_entries t)"
  by (simp_all add: signals_for_object_def)

lemma handles_ok_signals [simp]: "handles_ok (signals_for_object f ob k t) \<longleftrightarrow> handles_ok t"
  using ids_ok_map [OF signals_sel(2)] by simp

lemma handle_get_signals:
  "handle_get (signals_for_object f ob k t) raw =
     map_option (\<lambda>r. if hr_object_id r = ob \<and> hr_kind r = k then r\<lparr> hr_signals := f (hr_signals r) \<rparr> else r)
       (handle_get t raw)"
  unfolding handle_get_def signals_for_object_def
  by (simp add: find_map_key [where k = hr_handle_id])

end
