(* ===== verification/Tasks.thy ===== *)
theory Tasks
  imports Service_Base
begin

text \<open>
  Threads and futexes (\<open>kernel_services/task.rs\<close>): the thread table and the
  table of futex waiters.
\<close>

section \<open>Threads\<close>

datatype thread_state = ThReady | ThRunning | ThBlocked | ThSuspended | ThExited

record thread_record =
  th_id :: u64
  th_process_id :: u64
  th_vm_space_id :: u64
  th_entry_vaddr :: u64
  th_stack_top_vaddr :: u64
  th_arg_handle :: "handle option"
  th_state :: thread_state
  th_priority :: u8
  th_base_priority :: u8
  th_effective_priority :: u8
  th_cpu_affinity_mask :: u64
  th_profile :: "scheduling_profile option"
  th_exit_code :: i32
  th_saved_sp_el0 :: u64
  th_saved_elr_el1 :: u64
  th_saved_spsr_el1 :: u64
  th_saved_tpidr_el0 :: u64

record thread_table =
  tt_entries :: "thread_record list"
  tt_next_thread_id :: u64
  tt_current_thread_id :: u64

definition thread_table_new :: thread_table where
  "thread_table_new = \<lparr> tt_entries = [], tt_next_thread_id = 1, tt_current_thread_id = 0 \<rparr>"

definition thread_new :: "u64 \<Rightarrow> u64 \<Rightarrow> u64 \<Rightarrow> u64 \<Rightarrow> u64 \<Rightarrow> u64 \<Rightarrow> handle option \<Rightarrow> u8 \<Rightarrow> thread_record" where
  "thread_new i process_id vm_space_id entry_vaddr stack_top_vaddr thread_pointer_vaddr arg_handle priority =
     \<lparr> th_id = i, th_process_id = process_id, th_vm_space_id = vm_space_id, th_entry_vaddr = entry_vaddr,
       th_stack_top_vaddr = stack_top_vaddr, th_arg_handle = arg_handle, th_state = ThReady,
       th_priority = priority, th_base_priority = priority, th_effective_priority = priority,
       th_cpu_affinity_mask = 1, th_profile = None, th_exit_code = 0, th_saved_sp_el0 = stack_top_vaddr,
       th_saved_elr_el1 = entry_vaddr, th_saved_spsr_el1 = 0, th_saved_tpidr_el0 = thread_pointer_vaddr \<rparr>"

definition thread_insert ::
    "service_site allocator \<Rightarrow> u64 \<Rightarrow> u64 \<Rightarrow> u64 \<Rightarrow> u64 \<Rightarrow> u64 \<Rightarrow> handle option \<Rightarrow> u8 \<Rightarrow> (thread_table, u64) op" where
  "thread_insert al process_id vm_space_id entry_vaddr stack_top_vaddr thread_pointer_vaddr arg_handle priority t =
     (if process_id = 0 \<or> vm_space_id = 0 \<or> priority = 0 then (t, Inl InvalidArgs)
      else if \<not> al SiteThreads (length (tt_entries t)) then (t, Inl NoMemory)
      else let i = tt_next_thread_id t
           in (t\<lparr> tt_next_thread_id := sat_add i 1,
                  tt_current_thread_id := (if tt_current_thread_id t = 0 then i else tt_current_thread_id t),
                  tt_entries := tt_entries t @ [thread_new i process_id vm_space_id entry_vaddr stack_top_vaddr
                    thread_pointer_vaddr arg_handle priority] \<rparr>, Inr i))"

definition thread_get :: "thread_table \<Rightarrow> u64 \<Rightarrow> thread_record option" where
  "thread_get t i = List.find (\<lambda>r. th_id r = i) (tt_entries t)"

definition thread_upd :: "u64 \<Rightarrow> (thread_record \<Rightarrow> thread_record) \<Rightarrow> thread_table \<Rightarrow> thread_table" where
  "thread_upd i f t = t\<lparr> tt_entries := upd_first (\<lambda>r. th_id r = i) f (tt_entries t) \<rparr>"

definition thread_exit_current :: "i32 \<Rightarrow> thread_table \<Rightarrow> thread_table \<times> u64 option" where
  "thread_exit_current exit_code t =
     (let current = tt_current_thread_id t
      in case thread_get t current of
           None \<Rightarrow> (t, None)
         | Some _ \<Rightarrow> (thread_upd current (\<lambda>r. r\<lparr> th_state := ThExited, th_exit_code := exit_code \<rparr>) t, Some current))"

definition thread_exit_process :: "u64 \<Rightarrow> i32 \<Rightarrow> thread_table \<Rightarrow> thread_table \<times> u64 list" where
  "thread_exit_process process_id exit_code t =
     (let live = (\<lambda>r. th_process_id r = process_id \<and> th_state r \<noteq> ThExited)
      in (t\<lparr> tt_entries := map (\<lambda>r. if live r then r\<lparr> th_state := ThExited, th_exit_code := exit_code \<rparr> else r)
               (tt_entries t) \<rparr>,
          map th_id (filter live (tt_entries t))))"

definition switch_state :: "u64 \<Rightarrow> thread_record \<Rightarrow> thread_record" where
  "switch_state i r =
     (if th_state r \<noteq> ThExited
      then r\<lparr> th_state := (if th_id r = i then ThRunning
                           else if th_state r = ThRunning then ThReady else th_state r) \<rparr>
      else r)"

definition thread_set_current :: "u64 \<Rightarrow> (thread_table, unit) op" where
  "thread_set_current i t =
     (case thread_get t i of
        None \<Rightarrow> (t, Inl InvalidHandle)
      | Some _ \<Rightarrow> (t\<lparr> tt_current_thread_id := i, tt_entries := map (switch_state i) (tt_entries t) \<rparr>, Inr ()))"

definition process_has_live_threads :: "thread_table \<Rightarrow> u64 \<Rightarrow> bool" where
  "process_has_live_threads t process_id \<longleftrightarrow>
     list_ex (\<lambda>r. th_process_id r = process_id \<and> th_state r \<noteq> ThExited) (tt_entries t)"

section \<open>Futexes\<close>

record futex_waiter =
  fw_thread_id :: u64
  fw_uaddr :: u64
  fw_expected_val :: u32
  fw_owner_thread_id :: "u64 option"
  fw_donated_priority :: u8

record futex_table =
  ft_entries :: "futex_waiter list"
  ft_last_woken :: "u64 list"

definition futex_table_new :: futex_table where
  "futex_table_new = \<lparr> ft_entries = [], ft_last_woken = [] \<rparr>"

definition futex_table_wait :: "service_site allocator \<Rightarrow> futex_waiter \<Rightarrow> (futex_table, unit) op" where
  "futex_table_wait al waiter t =
     (if \<not> al SiteFutexes (length (ft_entries t)) then (t, Inl NoMemory)
      else (t\<lparr> ft_entries := ft_entries t @ [waiter] \<rparr>, Inr ()))"

text \<open>
  The loop of \<open>wake\<close>: the remaining entries, the threads woken so far and how
  many. A removed entry is replaced by the last one, which is looked at next.
\<close>

function wake_loop :: "u64 \<Rightarrow> u32 \<Rightarrow> nat \<Rightarrow> futex_waiter list \<Rightarrow> u64 list \<Rightarrow> u32 \<Rightarrow> futex_waiter list \<times> u64 list \<times> u32" where
  "wake_loop uaddr wake_count index entries last_woken woken =
     (if index < length entries
      then if woken = wake_count then (entries, last_woken, woken)
           else if fw_uaddr (entries ! index) = uaddr
           then wake_loop uaddr wake_count index (swap_remove index entries)
                  (last_woken @ [fw_thread_id (entries ! index)]) (woken + 1)
           else wake_loop uaddr wake_count (index + 1) entries last_woken woken
      else (entries, last_woken, woken))"
  by pat_completeness auto
termination
  by (relation "measure (\<lambda>(_, _, index, entries, _, _). length entries - index)") auto

declare wake_loop.simps [simp del]

definition futex_table_wake :: "service_site allocator \<Rightarrow> u64 \<Rightarrow> u32 \<Rightarrow> futex_table \<Rightarrow> futex_table \<times> u32" where
  "futex_table_wake al uaddr wake_count t =
     (if \<not> al SiteWoken (unat wake_count) then (t\<lparr> ft_last_woken := [] \<rparr>, 0)
      else case wake_loop uaddr wake_count 0 (ft_entries t) [] 0 of (entries, last_woken, woken) \<Rightarrow>
        (t\<lparr> ft_entries := entries, ft_last_woken := last_woken \<rparr>, woken))"

function remove_thread_loop :: "u64 \<Rightarrow> nat \<Rightarrow> futex_waiter list \<Rightarrow> u64 list \<Rightarrow> futex_waiter list \<times> u64 list" where
  "remove_thread_loop thread_id index entries owners =
     (if index < length entries
      then if fw_thread_id (entries ! index) = thread_id \<or> fw_owner_thread_id (entries ! index) = Some thread_id
           then remove_thread_loop thread_id index (swap_remove index entries)
                  (case fw_owner_thread_id (entries ! index) of None \<Rightarrow> owners | Some owner \<Rightarrow> owners @ [owner])
           else remove_thread_loop thread_id (index + 1) entries owners
      else (entries, owners))"
  by pat_completeness auto
termination
  by (relation "measure (\<lambda>(_, index, entries, _). length entries - index)") auto

declare remove_thread_loop.simps [simp del]

definition futex_remove_thread :: "u64 \<Rightarrow> futex_table \<Rightarrow> futex_table \<times> u64 list" where
  "futex_remove_thread thread_id t =
     (case remove_thread_loop thread_id 0 (ft_entries t) [] of (entries, owners) \<Rightarrow>
        (t\<lparr> ft_entries := entries \<rparr>, owners))"

definition max_donation_for_owner :: "futex_table \<Rightarrow> u64 \<Rightarrow> u8 option" where
  "max_donation_for_owner t owner_thread_id =
     iter_max (map fw_donated_priority (filter (\<lambda>w. fw_owner_thread_id w = Some owner_thread_id) (ft_entries t)))"

section \<open>The tables\<close>

interpretation threads: id_table tt_entries tt_next_thread_id th_id thread_get
    "\<lambda>(p, v, e, s, tp, a, pr). thread_insert al p v e s tp a pr"
    "\<lambda>(p, v, e, s, tp, a, pr) i. thread_new i p v e s tp a pr" for al
  by unfold_locales (auto simp: thread_get_def thread_insert_def thread_new_def Let_def split: if_splits)

lemma thread_upd_ids [simp]:
  "(\<And>r. th_id (f r) = th_id r) \<Longrightarrow> map th_id (tt_entries (thread_upd i f t)) = map th_id (tt_entries t)"
  by (simp add: thread_upd_def map_upd_first)

lemma switch_state_sel [simp]:
  "th_id (switch_state i r) = th_id r" "th_process_id (switch_state i r) = th_process_id r"
  "th_vm_space_id (switch_state i r) = th_vm_space_id r"
  by (simp_all add: switch_state_def)

text \<open>
  Waking takes waiters of the address out of the table, at most as many as
  asked for and all of them if there are no more.
\<close>

lemma wake_loop_result:
  assumes "wake_loop uaddr n index entries ws k = (entries', ws', k')"
    and "unat k \<le> unat n" and "\<forall>i<index. i < length entries \<longrightarrow> fw_uaddr (entries ! i) \<noteq> uaddr"
  shows "\<exists>gone. mset entries = mset gone + mset entries' \<and> (\<forall>w\<in>set gone. fw_uaddr w = uaddr) \<and>
    ws' = ws @ map fw_thread_id gone \<and> unat k' = unat k + length gone \<and> unat k' \<le> unat n \<and>
    (k' = n \<or> (\<forall>w\<in>set entries'. fw_uaddr w \<noteq> uaddr))"
  using assms
proof (induction uaddr n index entries ws k rule: wake_loop.induct)
  case (1 uaddr n index entries ws k)
  consider (stop) "index \<ge> length entries" | (full) "index < length entries" "k = n"
    | (take) "index < length entries" "k \<noteq> n" "fw_uaddr (entries ! index) = uaddr"
    | (skip) "index < length entries" "k \<noteq> n" "fw_uaddr (entries ! index) \<noteq> uaddr"
    by linarith
  then show ?case
  proof cases
    case stop
    with 1(5) have "\<forall>w\<in>set entries. fw_uaddr w \<noteq> uaddr" by (metis in_set_conv_nth less_le_trans)
    with stop 1(3-) show ?thesis by (intro exI [of _ "[]"]) (simp add: wake_loop.simps)
  next
    case full
    with 1(3-) show ?thesis by (intro exI [of _ "[]"]) (simp add: wake_loop.simps)
  next
    case take
    let ?w = "entries ! index"
    have k: "unat (k + 1) = Suc (unat k)" "unat (k + 1) \<le> unat n"
    proof -
      have "unat k < unat n" using 1(4) take(2) by (simp add: word_unat_eq_iff le_less)
      moreover have "unat n < 2 ^ LENGTH(32)" by (rule unsigned_less)
      ultimately show "unat (k + 1) = Suc (unat k)" by (simp add: unat_word_ariths)
      with \<open>unat k < unat n\<close> show "unat (k + 1) \<le> unat n" by simp
    qed
    have nth: "swap_remove index entries ! i = entries ! i" if "i < index" "i < length (swap_remove index entries)" for i
      using that by (simp add: swap_remove_def nth_butlast)
    have run: "wake_loop uaddr n index (swap_remove index entries) (ws @ [fw_thread_id ?w]) (k + 1) = (entries', ws', k')"
      using 1(3) take by (subst (asm) wake_loop.simps) simp
    from 1(1) [OF take(1,2,3) run k(2)] 1(5) nth take(1)
    obtain gone where g: "mset (swap_remove index entries) = mset gone + mset entries'"
        "\<forall>w\<in>set gone. fw_uaddr w = uaddr" "ws' = (ws @ [fw_thread_id ?w]) @ map fw_thread_id gone"
        "unat k' = unat (k + 1) + length gone" "unat k' \<le> unat n"
        "k' = n \<or> (\<forall>w\<in>set entries'. fw_uaddr w \<noteq> uaddr)" by auto
    have "mset entries = mset (?w # gone) + mset entries'"
      using g(1) take(1) by (simp add: mset_swap_remove) (metis insert_DiffM nth_mem set_mset_mset add_mset_add_single union_mset_add_mset_left)
    with g k take show ?thesis by (intro exI [of _ "?w # gone"]) auto
  next
    case skip
    have run: "wake_loop uaddr n (index + 1) entries ws k = (entries', ws', k')"
      using 1(3) skip by (subst (asm) wake_loop.simps) simp
    from 1(2) [OF skip run 1(4)] 1(5) skip show ?thesis by (auto simp: less_Suc_eq)
  qed
qed

end
