(* ===== verification/Channels.thy ===== *)
theory Channels
  imports Service_Base
begin

text \<open>
  Channel objects (\<open>kernel_services/ipc.rs\<close>): messages that carry bytes and
  handles, the queue of messages and the queue of calls in each direction, and
  the table of channels.
\<close>

section \<open>Messages\<close>

record channel_policy =
  po_enable_priority_inheritance :: bool
  po_enable_timeslice_donation :: bool

definition policy_disabled :: channel_policy where
  "policy_disabled = \<lparr> po_enable_priority_inheritance = False, po_enable_timeslice_donation = False \<rparr>"

record transferred_message =
  tm_bytes :: "u8 list"
  tm_handles :: "handle list"

definition transferred_message_empty :: transferred_message where
  "transferred_message_empty = \<lparr> tm_bytes = [], tm_handles = [] \<rparr>"

definition transferred_message_new ::
    "service_site allocator \<Rightarrow> u8 list \<Rightarrow> handle list \<Rightarrow> kernel_service_status + transferred_message" where
  "transferred_message_new al bytes handles =
     (if \<not> al SiteBytes (length bytes) then Inl NoMemory
      else if \<not> al SiteMessageHandles (length handles) then Inl NoMemory
      else Inr (transferred_message_empty\<lparr> tm_bytes := bytes, tm_handles := handles \<rparr>))"

record message_scratch =
  ms_bytes :: "u8 list"
  ms_handles :: "handle list"

definition message_scratch_new :: message_scratch where
  "message_scratch_new = \<lparr> ms_bytes = [], ms_handles = [] \<rparr>"

section \<open>Calls\<close>

record call_record =
  ca_id :: u64
  ca_caller :: endpoint
  ca_caller_thread_id :: u64
  ca_request :: transferred_message
  ca_reply :: "transferred_message option"
  ca_serving :: bool
  ca_server_thread_id :: "u64 option"
  ca_donated_priority :: u8

record call_queue =
  cq_entries :: "call_record list"
  cq_next_id :: u64

definition call_queue_new :: call_queue where
  "call_queue_new = \<lparr> cq_entries = [], cq_next_id = 1 \<rparr>"

definition call_push ::
    "service_site allocator \<Rightarrow> endpoint \<Rightarrow> u64 \<Rightarrow> transferred_message \<Rightarrow> (call_queue, unit) op" where
  "call_push al caller caller_thread_id request q =
     (if \<not> al SiteCalls (length (cq_entries q)) then (q, Inl NoMemory)
      else let i = cq_next_id q
           in (q\<lparr> cq_next_id := sat_add i 1,
                  cq_entries := cq_entries q @
                    [\<lparr> ca_id = i, ca_caller = caller, ca_caller_thread_id = caller_thread_id, ca_request = request,
                       ca_reply = None, ca_serving = False, ca_server_thread_id = None, ca_donated_priority = 0 \<rparr>] \<rparr>,
               Inr ()))"

definition take_for_server :: "u64 \<Rightarrow> u8 \<Rightarrow> call_queue \<Rightarrow> call_queue \<times> call_record option" where
  "take_for_server server_thread_id donated_priority q =
     (let waiting = (\<lambda>c. \<not> ca_serving c \<and> ca_reply c = None);
          serve = (\<lambda>c. c\<lparr> ca_serving := True, ca_server_thread_id := Some server_thread_id,
                          ca_donated_priority := donated_priority \<rparr>)
      in (q\<lparr> cq_entries := upd_first waiting serve (cq_entries q) \<rparr>,
          map_option serve (List.find waiting (cq_entries q))))"

definition call_complete :: "u64 \<Rightarrow> transferred_message \<Rightarrow> call_queue \<Rightarrow> call_queue \<times> u64 option" where
  "call_complete i reply q =
     (let served = (\<lambda>c. ca_id c = i \<and> ca_serving c)
      in case List.find served (cq_entries q) of
           None \<Rightarrow> (q, None)
         | Some c \<Rightarrow> (q\<lparr> cq_entries := upd_first served (\<lambda>c. c\<lparr> ca_reply := Some reply \<rparr>) (cq_entries q) \<rparr>,
                     ca_server_thread_id c))"

definition remove_at :: "nat \<Rightarrow> 'a list \<Rightarrow> 'a list" where
  "remove_at i xs = take i xs @ drop (Suc i) xs"

definition take_completed_for :: "u64 \<Rightarrow> call_queue \<Rightarrow> call_queue \<times> transferred_message option" where
  "take_completed_for caller_thread_id q =
     (case position (\<lambda>c. ca_caller_thread_id c = caller_thread_id \<and> ca_reply c \<noteq> None) (cq_entries q) of
        None \<Rightarrow> (q, None)
      | Some index \<Rightarrow> (q\<lparr> cq_entries := remove_at index (cq_entries q) \<rparr>, ca_reply (cq_entries q ! index)))"

section \<open>The message queue\<close>

type_synonym message_queue = "transferred_message list"

definition message_push :: "service_site allocator \<Rightarrow> transferred_message \<Rightarrow> (message_queue, unit) op" where
  "message_push al message q = (if \<not> al SiteMessages (length q) then (q, Inl NoMemory) else (q @ [message], Inr ()))"

definition message_pop :: "(message_queue, transferred_message) op" where
  "message_pop q = (case q of [] \<Rightarrow> ([], Inl TimedOut) | m # q' \<Rightarrow> (q', Inr m))"

definition message_front :: "message_queue \<Rightarrow> transferred_message option" where
  "message_front q = (case q of [] \<Rightarrow> None | m # _ \<Rightarrow> Some m)"

text \<open>The growing queue keeps the contract of a message queue.\<close>

interpretation messages: fifo "\<lambda>_. True" "\<lambda>q. q" "\<lambda>q. al SiteMessages (length q)" "message_push al" message_pop
    NoMemory TimedOut for al
  by unfold_locales (auto simp: message_push_def message_pop_def)

section \<open>Channels\<close>

record channel_object =
  co_id :: u64
  co_peer_a_open :: bool
  co_peer_b_open :: bool
  co_policy :: channel_policy
  co_to_a :: message_queue
  co_to_b :: message_queue
  co_calls_to_a :: call_queue
  co_calls_to_b :: call_queue

definition channel_object_new :: "u64 \<Rightarrow> channel_object" where
  "channel_object_new i = \<lparr> co_id = i, co_peer_a_open = True, co_peer_b_open = True, co_policy = policy_disabled,
     co_to_a = [], co_to_b = [], co_calls_to_a = call_queue_new, co_calls_to_b = call_queue_new \<rparr>"

record channel_table =
  ct_entries :: "channel_object list"
  ct_next_channel_id :: u64

definition channel_table_new :: channel_table where
  "channel_table_new = \<lparr> ct_entries = [], ct_next_channel_id = 1 \<rparr>"

definition channel_create :: "service_site allocator \<Rightarrow> (channel_table, u64) op" where
  "channel_create al t =
     (if \<not> al SiteChannels (length (ct_entries t)) then (t, Inl NoMemory)
      else let i = ct_next_channel_id t
           in (t\<lparr> ct_next_channel_id := sat_add i 1, ct_entries := ct_entries t @ [channel_object_new i] \<rparr>, Inr i))"

definition channel_get :: "channel_table \<Rightarrow> u64 \<Rightarrow> channel_object option" where
  "channel_get t i = List.find (\<lambda>c. co_id c = i) (ct_entries t)"

text \<open>\<open>get_mut(id)\<close> followed by an update.\<close>

definition channel_upd :: "u64 \<Rightarrow> (channel_object \<Rightarrow> channel_object) \<Rightarrow> channel_table \<Rightarrow> channel_table" where
  "channel_upd i f t = t\<lparr> ct_entries := upd_first (\<lambda>c. co_id c = i) f (ct_entries t) \<rparr>"

interpretation channels: id_table ct_entries ct_next_channel_id co_id channel_get "\<lambda>_ :: unit. channel_create al"
    "\<lambda>_. channel_object_new" for al
  by unfold_locales (auto simp: channel_get_def channel_create_def channel_object_new_def Let_def split: if_splits)

text \<open>The queues by direction: \<open>inbox\<close> is what the endpoint reads, \<open>outbox\<close> what it writes.\<close>

definition inbox :: "endpoint \<Rightarrow> channel_object \<Rightarrow> message_queue" where
  "inbox e c = (case e of A \<Rightarrow> co_to_a c | B \<Rightarrow> co_to_b c)"

definition set_inbox :: "endpoint \<Rightarrow> message_queue \<Rightarrow> channel_object \<Rightarrow> channel_object" where
  "set_inbox e q c = (case e of A \<Rightarrow> c\<lparr> co_to_a := q \<rparr> | B \<Rightarrow> c\<lparr> co_to_b := q \<rparr>)"

definition call_inbox :: "endpoint \<Rightarrow> channel_object \<Rightarrow> call_queue" where
  "call_inbox e c = (case e of A \<Rightarrow> co_calls_to_a c | B \<Rightarrow> co_calls_to_b c)"

definition set_call_inbox :: "endpoint \<Rightarrow> call_queue \<Rightarrow> channel_object \<Rightarrow> channel_object" where
  "set_call_inbox e q c = (case e of A \<Rightarrow> c\<lparr> co_calls_to_a := q \<rparr> | B \<Rightarrow> c\<lparr> co_calls_to_b := q \<rparr>)"

definition peer :: "endpoint \<Rightarrow> endpoint" where
  "peer e = (case e of A \<Rightarrow> B | B \<Rightarrow> A)"

definition peer_open :: "endpoint \<Rightarrow> channel_object \<Rightarrow> bool" where
  "peer_open e c = (case e of A \<Rightarrow> co_peer_b_open c | B \<Rightarrow> co_peer_a_open c)"

lemma inbox_simps [simp]:
  "inbox e (set_inbox e q c) = q" "inbox (peer e) (set_inbox e q c) = inbox (peer e) c"
  "inbox e (set_inbox (peer e) q c) = inbox e c" "peer (peer e) = e" "peer e \<noteq> e"
  "co_id (set_inbox e q c) = co_id c" "co_id (set_call_inbox e cq c) = co_id c"
  by (cases e; simp add: inbox_def set_inbox_def set_call_inbox_def peer_def)+

lemma channel_get_upd:
  assumes "\<And>c. co_id (f c) = co_id c"
  shows "channel_get (channel_upd i f t) j = (if j = i then map_option f (channel_get t j) else channel_get t j)"
proof -
  have "List.find (\<lambda>c. co_id c = j) (upd_first (\<lambda>c. co_id c = i) f xs) =
      (if j = i then map_option f (List.find (\<lambda>c. co_id c = j) xs) else List.find (\<lambda>c. co_id c = j) xs)" for xs
    using assms by (induction xs) auto
  then show ?thesis by (simp add: channel_get_def channel_upd_def)
qed

lemma channel_upd_ids [simp]:
  "(\<And>c. co_id (f c) = co_id c) \<Longrightarrow> map co_id (ct_entries (channel_upd i f t)) = map co_id (ct_entries t)"
  by (simp add: channel_upd_def map_upd_first)

end
