(* ===== verification/Vmars.thy ===== *)
theory Vmars
  imports Service_Base Frames
begin

text \<open>
  Virtual memory address regions (\<open>kernel_services/vmar.rs\<close>): a tree of address
  ranges per address space, in which a child lies inside its parent, does not
  overlap its active siblings and never permits more than its parent.
\<close>

section \<open>Operations\<close>

definition VMAR_FLAG_CAN_MAP_READ :: u32 where "VMAR_FLAG_CAN_MAP_READ = 0x00000001"
definition VMAR_FLAG_CAN_MAP_WRITE :: u32 where "VMAR_FLAG_CAN_MAP_WRITE = 0x00000002"
definition VMAR_FLAG_CAN_MAP_EXECUTE :: u32 where "VMAR_FLAG_CAN_MAP_EXECUTE = 0x00000004"
definition VMAR_FLAG_CAN_MAP_SPECIFIC :: u32 where "VMAR_FLAG_CAN_MAP_SPECIFIC = 0x00000008"
definition VMAR_FLAG_COMPACT :: u32 where "VMAR_FLAG_COMPACT = 0x00000010"
definition VMAR_FLAG_ALLOCATE :: u32 where "VMAR_FLAG_ALLOCATE = 0x00000020"
definition VMAR_FLAGS_ALL :: u32 where
  "VMAR_FLAGS_ALL = VMAR_FLAG_CAN_MAP_READ OR VMAR_FLAG_CAN_MAP_WRITE OR VMAR_FLAG_CAN_MAP_EXECUTE"
definition VMAR_VALID_FLAGS :: u32 where
  "VMAR_VALID_FLAGS = VMAR_FLAGS_ALL OR VMAR_FLAG_CAN_MAP_SPECIFIC OR VMAR_FLAG_COMPACT OR VMAR_FLAG_ALLOCATE"

lemmas vmar_flag_defs = VMAR_FLAG_CAN_MAP_READ_def VMAR_FLAG_CAN_MAP_WRITE_def VMAR_FLAG_CAN_MAP_EXECUTE_def
  VMAR_FLAG_CAN_MAP_SPECIFIC_def VMAR_FLAG_COMPACT_def VMAR_FLAG_ALLOCATE_def VMAR_FLAGS_ALL_def VMAR_VALID_FLAGS_def

text \<open>The start of user space depends on the architecture, as in the boot library.\<close>

definition USER_START :: "bool \<Rightarrow> u64" where "USER_START x86 = (if x86 then 0x40000000 else 0x80000000)"
definition USER_VMAR_BASE :: "bool \<Rightarrow> u64" where "USER_VMAR_BASE x86 = USER_START x86"
definition USER_VMAR_SIZE :: "bool \<Rightarrow> u64" where "USER_VMAR_SIZE x86 = 0x0000800000000000 - USER_VMAR_BASE x86"

record vmar_record =
  vr_id :: u64
  vr_vm_space_id :: u64
  vr_parent_vmar_id :: "u64 option"
  vr_base :: u64
  vr_size_bytes :: u64
  vr_flags :: u32
  vr_destroyed :: bool

definition is_root :: "vmar_record \<Rightarrow> bool" where
  "is_root v \<longleftrightarrow> vr_parent_vmar_id v = None"

definition contains_range :: "vmar_record \<Rightarrow> u64 \<Rightarrow> u64 \<Rightarrow> bool" where
  "contains_range v base size_bytes =
     (case checked_add base size_bytes of
        None \<Rightarrow> False
      | Some stop \<Rightarrow> base \<ge> vr_base v \<and> stop \<le> sat_add (vr_base v) (vr_size_bytes v))"

definition ranges_overlap :: "u64 \<Rightarrow> u64 \<Rightarrow> u64 \<Rightarrow> u64 \<Rightarrow> bool" where
  "ranges_overlap a_start a_len b_start b_len =
     (let a_end = sat_add a_start a_len; b_end = sat_add b_start b_len
      in a_start < b_end \<and> b_start < a_end)"

definition validate_vmar_flags :: "u32 \<Rightarrow> kernel_service_status + unit" where
  "validate_vmar_flags flags = (if flags AND NOT VMAR_VALID_FLAGS \<noteq> 0 then Inl InvalidArgs else Inr ())"

definition validate_vmar_size :: "u64 \<Rightarrow> kernel_service_status + unit" where
  "validate_vmar_size size_bytes = (if size_bytes = 0 \<or> size_bytes mod PAGE_SIZE \<noteq> 0 then Inl InvalidArgs else Inr ())"

definition rights_to_vmar_flags :: "u32 \<Rightarrow> u32" where
  "rights_to_vmar_flags rights =
     (if rights AND RIGHT_READ \<noteq> 0 then VMAR_FLAG_CAN_MAP_READ else 0) OR
     (if rights AND RIGHT_WRITE \<noteq> 0 then VMAR_FLAG_CAN_MAP_WRITE else 0) OR
     (if rights AND RIGHT_EXECUTE \<noteq> 0 then VMAR_FLAG_CAN_MAP_EXECUTE else 0)"

definition vmar_flags_to_rights :: "u32 \<Rightarrow> u32" where
  "vmar_flags_to_rights flags =
     (if flags AND VMAR_FLAG_CAN_MAP_READ \<noteq> 0 then RIGHT_READ else 0) OR
     (if flags AND VMAR_FLAG_CAN_MAP_WRITE \<noteq> 0 then RIGHT_WRITE else 0) OR
     (if flags AND VMAR_FLAG_CAN_MAP_EXECUTE \<noteq> 0 then RIGHT_EXECUTE else 0)"

record vmar_table =
  vt_entries :: "vmar_record list"
  vt_next_vmar_id :: u64

definition vmar_table_new :: vmar_table where
  "vmar_table_new = \<lparr> vt_entries = [], vt_next_vmar_id = 1 \<rparr>"

definition vmar_get :: "vmar_table \<Rightarrow> u64 \<Rightarrow> vmar_record option" where
  "vmar_get t i = List.find (\<lambda>v. vr_id v = i) (vt_entries t)"

definition root_for_vm_space :: "vmar_table \<Rightarrow> u64 \<Rightarrow> vmar_record option" where
  "root_for_vm_space t vm_space_id =
     List.find (\<lambda>v. vr_vm_space_id v = vm_space_id \<and> vr_parent_vmar_id v = None) (vt_entries t)"

definition vmar_insert_record ::
    "service_site allocator \<Rightarrow> u64 \<Rightarrow> u64 option \<Rightarrow> u64 \<Rightarrow> u64 \<Rightarrow> u32 \<Rightarrow> (vmar_table, u64) op" where
  "vmar_insert_record al vm_space_id parent_vmar_id base size_bytes flags t =
     (if \<not> al SiteVmars (length (vt_entries t)) then (t, Inl NoMemory)
      else let i = vt_next_vmar_id t
           in (t\<lparr> vt_next_vmar_id := sat_add i 1,
                  vt_entries := vt_entries t @ [\<lparr> vr_id = i, vr_vm_space_id = vm_space_id,
                    vr_parent_vmar_id = parent_vmar_id, vr_base = base, vr_size_bytes = size_bytes,
                    vr_flags = flags, vr_destroyed = False \<rparr>] \<rparr>, Inr i))"

definition vmar_insert_root :: "bool \<Rightarrow> service_site allocator \<Rightarrow> u64 \<Rightarrow> (vmar_table, u64) op" where
  "vmar_insert_root x86 al vm_space_id =
     seq (look (\<lambda>t. guard_or InvalidArgs (\<not> (vm_space_id = 0 \<or> root_for_vm_space t vm_space_id \<noteq> None)))) (\<lambda>_.
       vmar_insert_record al vm_space_id None (USER_VMAR_BASE x86) (USER_VMAR_SIZE x86)
         (VMAR_FLAGS_ALL OR VMAR_FLAG_CAN_MAP_SPECIFIC))"

definition active_children_overlap :: "vmar_table \<Rightarrow> u64 \<Rightarrow> u64 \<Rightarrow> u64 \<Rightarrow> bool" where
  "active_children_overlap t parent_id base size_bytes \<longleftrightarrow>
     list_ex (\<lambda>e. vr_parent_vmar_id e = Some parent_id \<and> \<not> vr_destroyed e \<and>
       ranges_overlap (vr_base e) (vr_size_bytes e) base size_bytes) (vt_entries t)"

definition active_children :: "vmar_table \<Rightarrow> u64 \<Rightarrow> vmar_record list" where
  "active_children t parent_id =
     filter (\<lambda>e. vr_parent_vmar_id e = Some parent_id \<and> \<not> vr_destroyed e) (vt_entries t)"

definition vmar_insert_child ::
    "service_site allocator \<Rightarrow> vmar_record \<Rightarrow> u64 \<Rightarrow> u64 \<Rightarrow> u32 \<Rightarrow> (vmar_table, vmar_record) op" where
  "vmar_insert_child al parent offset size_bytes flags =
     seq (look (\<lambda>_. validate_vmar_flags flags)) (\<lambda>_.
     seq (look (\<lambda>_. validate_vmar_size size_bytes)) (\<lambda>_.
     seq (require (\<not> (vr_destroyed parent \<or> offset mod PAGE_SIZE \<noteq> 0)) InvalidArgs) (\<lambda>_.
     seq (require (flags AND NOT (vr_flags parent) AND VMAR_FLAGS_ALL = 0) AccessDenied) (\<lambda>_.
     seq (look (\<lambda>_. ok_or InvalidArgs (checked_add (vr_base parent) offset))) (\<lambda>base.
     seq (require (contains_range parent base size_bytes) InvalidArgs) (\<lambda>_.
     seq (look (\<lambda>t. guard_or AlreadyExists (\<not> active_children_overlap t (vr_id parent) base size_bytes))) (\<lambda>_.
     seq (vmar_insert_record al (vr_vm_space_id parent) (Some (vr_id parent)) base size_bytes flags) (\<lambda>i.
       look (\<lambda>t. ok_or InvalidHandle (vmar_get t i))))))))))"

text \<open>
  The loops of \<open>subtree_ids\<close> and \<open>is_descendant_or_self\<close>. Both would run forever on
  a cyclic table, so they have a bound; the table is a forest, and the bound
  is shown to be enough below.
\<close>

fun subtree_loop :: "nat \<Rightarrow> vmar_record list \<Rightarrow> nat \<Rightarrow> u64 list \<Rightarrow> u64 list" where
  "subtree_loop 0 entries index ids = ids"
| "subtree_loop (Suc fuel) entries index ids =
     (if index < length ids
      then subtree_loop fuel entries (index + 1)
             (ids @ map vr_id (filter (\<lambda>e. vr_parent_vmar_id e = Some (ids ! index) \<and> \<not> vr_destroyed e) entries))
      else ids)"

definition subtree_ids :: "vmar_table \<Rightarrow> u64 \<Rightarrow> u64 list" where
  "subtree_ids t root_id = subtree_loop (length (vt_entries t) + 2) (vt_entries t) 0 [root_id]"

fun descendant_loop :: "nat \<Rightarrow> vmar_table \<Rightarrow> u64 \<Rightarrow> u64 option \<Rightarrow> bool" where
  "descendant_loop 0 t ancestor_id current = False"
| "descendant_loop (Suc fuel) t ancestor_id current =
     (case current of
        None \<Rightarrow> False
      | Some i \<Rightarrow> i = ancestor_id \<or> descendant_loop fuel t ancestor_id (Option.bind (vmar_get t i) vr_parent_vmar_id))"

definition is_descendant_or_self :: "vmar_table \<Rightarrow> u64 \<Rightarrow> u64 \<Rightarrow> bool" where
  "is_descendant_or_self t ancestor_id candidate_id =
     descendant_loop (length (vt_entries t) + 2) t ancestor_id (Some candidate_id)"

definition destroy_subtree :: "u64 \<Rightarrow> (vmar_table, u64 list) op" where
  "destroy_subtree root_id =
     seq (look (\<lambda>t. ok_or InvalidHandle (vmar_get t root_id))) (\<lambda>root.
     seq (require (\<not> vr_destroyed root) InvalidHandle) (\<lambda>_.
     seq (require (\<not> is_root root) AccessDenied) (\<lambda>_.
     seq (look (\<lambda>t. Inr (subtree_ids t root_id))) (\<lambda>ids.
     seq (change (\<lambda>t. t\<lparr> vt_entries := fold (\<lambda>i. upd_first (\<lambda>e. vr_id e = i) (\<lambda>e. e\<lparr> vr_destroyed := True \<rparr>)) ids
            (vt_entries t) \<rparr>)) (\<lambda>_. give ids)))))"

section \<open>The forest\<close>

text \<open>The end of a region, as a number; regions do not wrap around.\<close>

definition vmar_end :: "vmar_record \<Rightarrow> nat" where
  "vmar_end v = unat (vr_base v) + unat (vr_size_bytes v)"

definition child_of :: "vmar_record \<Rightarrow> vmar_record \<Rightarrow> bool" where
  "child_of v q \<longleftrightarrow> vr_parent_vmar_id v = Some (vr_id q) \<and> vr_id q < vr_id v \<and>
     vr_vm_space_id v = vr_vm_space_id q \<and> vr_base q \<le> vr_base v \<and> vmar_end v \<le> vmar_end q \<and>
     vr_flags v AND NOT (vr_flags q) AND VMAR_FLAGS_ALL = 0 \<and> (vr_destroyed q \<longrightarrow> vr_destroyed v)"

definition vmar_forest :: "vmar_record list \<Rightarrow> bool" where
  "vmar_forest es \<longleftrightarrow> distinct (map vr_id es) \<and>
     (\<forall>v\<in>set es. vmar_end v < 2 ^ 64 \<and> vr_size_bytes v \<noteq> 0 \<and>
        (vr_parent_vmar_id v = None \<or> (\<exists>q\<in>set es. child_of v q))) \<and>
     (\<forall>v\<in>set es. \<forall>w\<in>set es. vr_parent_vmar_id v = vr_parent_vmar_id w \<longrightarrow> vr_parent_vmar_id v \<noteq> None \<longrightarrow>
        \<not> vr_destroyed v \<longrightarrow> \<not> vr_destroyed w \<longrightarrow> vr_id v \<noteq> vr_id w \<longrightarrow>
        \<not> ranges_overlap (vr_base v) (vr_size_bytes v) (vr_base w) (vr_size_bytes w))"

definition vmars_ok :: "vmar_table \<Rightarrow> bool" where
  "vmars_ok t \<longleftrightarrow> vt_next_vmar_id t = max_of \<or>
     vmar_forest (vt_entries t) \<and> (\<forall>v\<in>set (vt_entries t). vr_id v < vt_next_vmar_id t)"

text \<open>The identifiers of the active children, as the loop collects them.\<close>

definition child_ids :: "vmar_record list \<Rightarrow> u64 \<Rightarrow> u64 list" where
  "child_ids es p = map vr_id (filter (\<lambda>e. vr_parent_vmar_id e = Some p \<and> \<not> vr_destroyed e) es)"

inductive descends :: "vmar_record list \<Rightarrow> u64 \<Rightarrow> u64 \<Rightarrow> bool" for es a where
  self: "descends es a a"
| down: "descends es a p \<Longrightarrow> i \<in> set (child_ids es p) \<Longrightarrow> descends es a i"

lemma ranges_overlap_sym: "ranges_overlap a m b n = ranges_overlap b n a m"
  by (auto simp: ranges_overlap_def Let_def)

lemma ranges_overlap_nat:
  assumes "unat a + unat m < 2 ^ 64" and "unat b + unat n < 2 ^ 64"
  shows "ranges_overlap a m b n \<longleftrightarrow> unat a < unat b + unat n \<and> unat b < unat a + unat m"
  using assms by (simp add: ranges_overlap_def Let_def word_less_nat_alt unat_sat_add)

lemma contains_range_nat:
  assumes "vmar_end v < 2 ^ 64"
  shows "contains_range v b n \<longleftrightarrow> vr_base v \<le> b \<and> unat b + unat n \<le> vmar_end v"
proof (cases "checked_add b n")
  case None
  then have "2 ^ 64 \<le> unat b + unat n" by (simp add: checked_add_None)
  then show ?thesis using assms unfolding contains_range_def None by simp
next
  case (Some e)
  then have "unat e = unat b + unat n" by (simp add: checked_add_Some)
  then show ?thesis
    using assms unfolding contains_range_def Some by (auto simp: word_le_nat_alt unat_sat_add vmar_end_def)
qed

lemma vmar_forestD:
  assumes "vmar_forest es" and "v \<in> set es"
  shows "vmar_end v < 2 ^ 64" and "vr_size_bytes v \<noteq> 0"
    and "vr_parent_vmar_id v = Some p \<Longrightarrow> \<exists>q\<in>set es. vr_id q = p \<and> child_of v q"
proof -
  show "vmar_end v < 2 ^ 64" "vr_size_bytes v \<noteq> 0" using assms by (auto simp: vmar_forest_def)
  assume "vr_parent_vmar_id v = Some p"
  with assms obtain q where "q \<in> set es" "child_of v q" by (fastforce simp: vmar_forest_def)
  with \<open>vr_parent_vmar_id v = Some p\<close> show "\<exists>q\<in>set es. vr_id q = p \<and> child_of v q"
    by (auto simp: child_of_def)
qed

lemma vmars_ok_insert:
  assumes ok: "vmars_ok t" and v: "v \<notin> set (vt_entries t)" "vr_id v = vt_next_vmar_id t" "vmar_end v < 2 ^ 64"
      "vr_size_bytes v \<noteq> 0"
    and p: "vt_next_vmar_id t \<noteq> max_of \<Longrightarrow> vr_parent_vmar_id v = None \<or> (\<exists>q\<in>set (vt_entries t). child_of v q)"
    and s: "\<And>p w. vr_parent_vmar_id v = Some p \<Longrightarrow> w \<in> set (vt_entries t) \<Longrightarrow> vr_parent_vmar_id w = Some p \<Longrightarrow>
      \<not> vr_destroyed w \<Longrightarrow> \<not> ranges_overlap (vr_base w) (vr_size_bytes w) (vr_base v) (vr_size_bytes v)"
  shows "vmars_ok (t\<lparr> vt_next_vmar_id := sat_add (vt_next_vmar_id t) 1, vt_entries := vt_entries t @ [v] \<rparr>)"
proof (cases "vt_next_vmar_id t = max_of")
  case False
  with ok have f: "vmar_forest (vt_entries t)" and b: "\<forall>v\<in>set (vt_entries t). vr_id v < vt_next_vmar_id t"
    by (auto simp: vmars_ok_def)
  have fresh: "vr_id w \<noteq> vr_id v" if "w \<in> set (vt_entries t)" for w using b v(2) that by auto
  have "vmar_forest (vt_entries t @ [v])"
    unfolding vmar_forest_def
  proof (intro conjI ballI impI)
    show "distinct (map vr_id (vt_entries t @ [v]))" using f fresh by (simp add: vmar_forest_def image_iff) metis
  next
    fix w assume "w \<in> set (vt_entries t @ [v])"
    then show "vmar_end w < 2 ^ 64" "vr_size_bytes w \<noteq> 0"
      "vr_parent_vmar_id w = None \<or> (\<exists>q\<in>set (vt_entries t @ [v]). child_of w q)"
      using f v p [OF False] by (auto simp: vmar_forest_def)
  next
    fix w w' assume w: "w \<in> set (vt_entries t @ [v])" "w' \<in> set (vt_entries t @ [v])"
      "vr_parent_vmar_id w = vr_parent_vmar_id w'" "vr_parent_vmar_id w \<noteq> None"
      "\<not> vr_destroyed w" "\<not> vr_destroyed w'" "vr_id w \<noteq> vr_id w'"
    then consider "w = v" "w' \<in> set (vt_entries t)" | "w' = v" "w \<in> set (vt_entries t)"
      | "w \<in> set (vt_entries t)" "w' \<in> set (vt_entries t)" by auto
    then show "\<not> ranges_overlap (vr_base w) (vr_size_bytes w) (vr_base w') (vr_size_bytes w')"
    proof cases
      case 1
      with s [of _ w'] w ranges_overlap_sym show ?thesis by (metis not_None_eq)
    next
      case 2
      with s [of _ w] w show ?thesis by (metis not_None_eq)
    next
      case 3
      with f w show ?thesis by (simp add: vmar_forest_def)
    qed
  qed
  moreover have "vr_id w < sat_add (vt_next_vmar_id t) 1" if "w \<in> set (vt_entries t @ [v])" for w
    using b v(2) that sat_add_one [OF False] by (auto simp: word_less_nat_alt less_Suc_eq)
  ultimately show ?thesis by (simp add: vmars_ok_def)
qed (simp add: vmars_ok_def)

section \<open>The subtree loop\<close>

lemma child_ids_in: "i \<in> set (child_ids es p) \<longleftrightarrow>
    (\<exists>e\<in>set es. vr_id e = i \<and> vr_parent_vmar_id e = Some p \<and> \<not> vr_destroyed e)"
  by (auto simp: child_ids_def)

lemma child_ids_forest:
  assumes "vmar_forest es"
  shows "distinct (child_ids es p)" and "i \<in> set (child_ids es p) \<Longrightarrow> p < i"
    and "i \<in> set (child_ids es p) \<Longrightarrow> i \<in> set (child_ids es q) \<Longrightarrow> p = q"
proof -
  have d: "distinct (map vr_id es)" using assms by (simp add: vmar_forest_def)
  then show "distinct (child_ids es p)" by (simp add: child_ids_def distinct_map inj_on_def)
  show "i \<in> set (child_ids es p) \<Longrightarrow> p < i"
    using vmar_forestD(3) [OF assms] by (fastforce simp: child_ids_in child_of_def)
  show "i \<in> set (child_ids es p) \<Longrightarrow> i \<in> set (child_ids es q) \<Longrightarrow> p = q"
    using distinct_key_eq [OF d] by (auto simp: child_ids_in) (metis option.inject)
qed

text \<open>What the loop keeps: the identifiers found so far and the position up to which they are expanded.\<close>

definition subtree_inv :: "vmar_record list \<Rightarrow> u64 \<Rightarrow> nat \<Rightarrow> u64 list \<Rightarrow> bool" where
  "subtree_inv es root index ids \<longleftrightarrow> distinct ids \<and> index \<le> length ids \<and>
     set ids = insert root (\<Union>k<index. set (child_ids es (ids ! k))) \<and> (\<forall>i\<in>set ids. root \<le> i \<and> descends es root i)"

lemma subtree_inv_step:
  assumes f: "vmar_forest es" and inv: "subtree_inv es root index ids" and l: "index < length ids"
  shows "subtree_inv es root (index + 1) (ids @ child_ids es (ids ! index))"
proof -
  let ?p = "ids ! index"
  have d: "distinct ids" and u: "set ids = insert root (\<Union>k<index. set (child_ids es (ids ! k)))"
    and ge: "\<forall>i\<in>set ids. root \<le> i \<and> descends es root i" using inv by (auto simp: subtree_inv_def)
  have p: "?p \<in> set ids" using l by simp
  have new: "i \<notin> set ids" if "i \<in> set (child_ids es ?p)" for i
  proof
    assume "i \<in> set ids"
    moreover have "i \<noteq> root" using child_ids_forest(2) [OF f that] ge p by auto
    ultimately obtain k where k: "k < index" "i \<in> set (child_ids es (ids ! k))" using u by auto
    then have "ids ! k = ?p" using child_ids_forest(3) [OF f] that by blast
    with d l k(1) show False by (simp add: nth_eq_iff_index_eq)
  qed
  have nth: "(ids @ child_ids es ?p) ! k = ids ! k" if "k < index + 1" for k
    using l that by (simp add: nth_append)
  have "(\<Union>k<index + 1. set (child_ids es ((ids @ child_ids es ?p) ! k))) =
      (\<Union>k<index. set (child_ids es (ids ! k))) \<union> set (child_ids es ?p)"
    using nth by (auto simp: less_Suc_eq nth_append split: if_splits)
  then have "set (ids @ child_ids es ?p) =
      insert root (\<Union>k<index + 1. set (child_ids es ((ids @ child_ids es ?p) ! k)))" using u by auto
  moreover have "root \<le> i \<and> descends es root i" if "i \<in> set (child_ids es ?p)" for i
    using child_ids_forest(2) [OF f that] ge p that by (auto intro: descends.down less_imp_le order_trans)
  ultimately show ?thesis
    using d l new child_ids_forest(1) [OF f] ge by (auto simp: subtree_inv_def)
qed

lemma subtree_loop_done:
  assumes "vmar_forest es" and "subtree_inv es root index ids" and "length es + 2 \<le> index + fuel"
    and "root \<in> vr_id ` set es"
  shows "\<exists>ids'. subtree_loop fuel es index ids = ids' \<and> subtree_inv es root (length ids') ids'"
  using assms(2,3)
proof (induction fuel arbitrary: index ids)
  case 0
  have "set ids \<subseteq> vr_id ` set es" using 0(1) assms(4) by (auto simp: subtree_inv_def child_ids_in)
  then have "card (set ids) \<le> card (vr_id ` set es)" by (rule card_mono [rotated]) simp
  also have "\<dots> \<le> length es" using card_image_le card_length order_trans by (metis List.finite_set)
  finally have "length ids \<le> length es" using 0(1) distinct_card [of ids] by (simp only: subtree_inv_def)
  with 0 show ?case by (simp add: subtree_inv_def)
next
  case (Suc fuel)
  show ?case
  proof (cases "index < length ids")
    case True
    with Suc.IH [OF subtree_inv_step [OF assms(1) Suc.prems(1) True]] Suc.prems(2) show ?thesis
      by (simp add: child_ids_def)
  next
    case False
    with Suc.prems(1) have "index = length ids" by (simp add: subtree_inv_def)
    with False Suc.prems(1) show ?thesis by simp
  qed
qed

text \<open>The loop returns, with the root and all its active descendants, each once.\<close>

lemma subtree_ids_descends:
  assumes f: "vmar_forest (vt_entries t)" and r: "root \<in> vr_id ` set (vt_entries t)"
  shows "distinct (subtree_ids t root)" and "set (subtree_ids t root) = {i. descends (vt_entries t) root i}"
proof -
  let ?es = "vt_entries t" and ?R = "subtree_ids t root"
  have "subtree_inv ?es root 0 [root]" by (simp add: subtree_inv_def descends.self)
  with subtree_loop_done [OF f _ _ r, of 0 "[root]" "length ?es + 2"] have inv: "subtree_inv ?es root (length ?R) ?R"
    unfolding subtree_ids_def by (auto simp del: subtree_loop.simps)
  then show "distinct ?R" by (simp add: subtree_inv_def)
  have u: "set ?R = insert root (\<Union>k<length ?R. set (child_ids ?es (?R ! k)))" using inv by (simp add: subtree_inv_def)
  have closed: "i \<in> set ?R" if "p \<in> set ?R" "i \<in> set (child_ids ?es p)" for p i
  proof -
    from that(1) obtain k where "k < length ?R" "p = ?R ! k" by (auto simp: in_set_conv_nth)
    with that(2) show ?thesis by (subst u) auto
  qed
  have "i \<in> set ?R" if "descends ?es root i" for i
    using that
  proof induction
    case self
    show ?case by (subst u) simp
  qed (rule closed)
  with inv show "set ?R = {i. descends ?es root i}" by (auto simp: subtree_inv_def)
qed

lemma fold_destroy:
  assumes "distinct (map vr_id es)"
  shows "fold (\<lambda>i. upd_first (\<lambda>e. vr_id e = i) (\<lambda>e. e\<lparr> vr_destroyed := True \<rparr>)) ids es =
    map (\<lambda>e. if vr_id e \<in> set ids then e\<lparr> vr_destroyed := True \<rparr> else e) es"
  using assms
proof (induction ids arbitrary: es)
  case (Cons i ids)
  let ?es = "upd_first (\<lambda>e. vr_id e = i) (\<lambda>e. e\<lparr> vr_destroyed := True \<rparr>) es"
  have e: "?es = map (\<lambda>e. if vr_id e = i then e\<lparr> vr_destroyed := True \<rparr> else e) es"
    using Cons.prems by (rule upd_first_distinct)
  have "map vr_id ?es = map vr_id es" by (rule map_upd_first) simp
  with Cons.prems have "distinct (map vr_id ?es)" by simp
  from Cons.IH [OF this] have "fold (\<lambda>i. upd_first (\<lambda>e. vr_id e = i) (\<lambda>e. e\<lparr> vr_destroyed := True \<rparr>)) (i # ids) es =
      map (\<lambda>e. if vr_id e \<in> set ids then e\<lparr> vr_destroyed := True \<rparr> else e) ?es" by simp
  also have "\<dots> = map (\<lambda>e. if vr_id e \<in> set (i # ids) then e\<lparr> vr_destroyed := True \<rparr> else e) es"
    unfolding e map_map by (rule map_cong) auto
  finally show ?case .
qed (simp add: map_idI)

section \<open>The operations keep the forest\<close>

lemma vmar_insert_record_cases:
  obtains "vmar_insert_record al sp p b n fl t = (t, Inl NoMemory)"
  | "vmar_insert_record al sp p b n fl t =
      (t\<lparr> vt_next_vmar_id := sat_add (vt_next_vmar_id t) 1, vt_entries := vt_entries t @
         [\<lparr> vr_id = vt_next_vmar_id t, vr_vm_space_id = sp, vr_parent_vmar_id = p, vr_base = b, vr_size_bytes = n,
            vr_flags = fl, vr_destroyed = False \<rparr>] \<rparr>, Inr (vt_next_vmar_id t))"
  by (cases "al SiteVmars (length (vt_entries t))") (simp_all add: vmar_insert_record_def Let_def)

lemma vmars_ok_fresh:
  "vmars_ok t \<Longrightarrow> vt_next_vmar_id t \<noteq> max_of \<Longrightarrow> v \<in> set (vt_entries t) \<Longrightarrow> vr_id v \<noteq> vt_next_vmar_id t"
  by (auto simp: vmars_ok_def)

lemma vmars_ok_insert_record:
  assumes ok: "vmars_ok t" and b: "unat b + unat n < 2 ^ 64" "n \<noteq> 0"
    and p: "\<And>i. p = Some i \<Longrightarrow> \<exists>q\<in>set (vt_entries t). vr_id q = i \<and> vr_vm_space_id q = sp \<and> vr_base q \<le> b \<and>
      unat b + unat n \<le> vmar_end q \<and> fl AND NOT (vr_flags q) AND VMAR_FLAGS_ALL = 0 \<and> \<not> vr_destroyed q"
    and s: "\<And>i. p = Some i \<Longrightarrow> \<not> active_children_overlap t i b n"
  shows "vmars_ok (fst (vmar_insert_record al sp p b n fl t))"
proof (cases rule: vmar_insert_record_cases [of al sp p b n fl t])
  case 2
  let ?v = "\<lparr> vr_id = vt_next_vmar_id t, vr_vm_space_id = sp, vr_parent_vmar_id = p, vr_base = b, vr_size_bytes = n,
      vr_flags = fl, vr_destroyed = False \<rparr>"
  show ?thesis
  proof (cases "vt_next_vmar_id t = max_of")
    case True
    with 2 show ?thesis by (simp add: vmars_ok_def)
  next
    case False
    have "vmars_ok (t\<lparr> vt_next_vmar_id := sat_add (vt_next_vmar_id t) 1, vt_entries := vt_entries t @ [?v] \<rparr>)"
    proof (rule vmars_ok_insert [OF ok])
      show "?v \<notin> set (vt_entries t)" using vmars_ok_fresh [OF ok False, of ?v] by auto
      show "vr_parent_vmar_id ?v = None \<or> (\<exists>q\<in>set (vt_entries t). child_of ?v q)"
        using p ok False by (cases p) (fastforce simp: child_of_def vmar_end_def vmars_ok_def)+
      show "\<not> ranges_overlap (vr_base w) (vr_size_bytes w) (vr_base ?v) (vr_size_bytes ?v)"
        if "vr_parent_vmar_id ?v = Some i" "w \<in> set (vt_entries t)" "vr_parent_vmar_id w = Some i" "\<not> vr_destroyed w" for i w
        using s [of i] that by (auto simp: active_children_overlap_def list_ex_iff)
    qed (use b in \<open>simp_all add: vmar_end_def\<close>)
    with 2 show ?thesis by simp
  qed
qed (use ok in simp)

lemma user_vmar_bounds: "unat (USER_VMAR_BASE x86) + unat (USER_VMAR_SIZE x86) < 2 ^ 64" "USER_VMAR_SIZE x86 \<noteq> 0"
  by (simp_all add: USER_VMAR_SIZE_def USER_VMAR_BASE_def USER_START_def)

lemma vmars_ok_insert_root: "vmars_ok t \<Longrightarrow> vmars_ok (fst (vmar_insert_root x86 al sp t))"
  by (auto simp: vmar_insert_root_def seq_def op_run guard_or_def intro!: vmars_ok_insert_record user_vmar_bounds)

text \<open>The tests of \<open>insert_child\<close>, in one place.\<close>

lemma vmar_insert_child_run:
  "vmar_insert_child al parent offset n fl t =
    (if validate_vmar_flags fl \<noteq> Inr () then (t, Inl InvalidArgs)
     else if validate_vmar_size n \<noteq> Inr () then (t, Inl InvalidArgs)
     else if vr_destroyed parent \<or> offset mod PAGE_SIZE \<noteq> 0 then (t, Inl InvalidArgs)
     else if fl AND NOT (vr_flags parent) AND VMAR_FLAGS_ALL \<noteq> 0 then (t, Inl AccessDenied)
     else case checked_add (vr_base parent) offset of None \<Rightarrow> (t, Inl InvalidArgs) | Some b \<Rightarrow>
       if \<not> contains_range parent b n then (t, Inl InvalidArgs)
       else if active_children_overlap t (vr_id parent) b n then (t, Inl AlreadyExists)
       else seq (vmar_insert_record al (vr_vm_space_id parent) (Some (vr_id parent)) b n fl)
              (\<lambda>i. look (\<lambda>t. ok_or InvalidHandle (vmar_get t i))) t)"
  unfolding vmar_insert_child_def
  by (simp add: seq_def op_run require_run validate_vmar_flags_def validate_vmar_size_def guard_or_def ok_or_def
      look_def split: option.split prod.split sum.split)

lemma fst_seq_look [simp]: "fst (seq m (\<lambda>x. look (g x)) s) = fst (m s)"
  by (simp add: seq_def op_run split: prod.split sum.split)

lemma vmars_ok_insert_child:
  assumes ok: "vmars_ok t" and p: "parent \<in> set (vt_entries t)"
  shows "vmars_ok (fst (vmar_insert_child al parent offset n fl t))"
proof (cases "vt_next_vmar_id t = max_of")
  case True
  then show ?thesis
    by (auto simp: vmar_insert_child_run vmar_insert_record_def Let_def vmars_ok_def split: option.split)
next
  case False
  with ok p have e: "vmar_end parent < 2 ^ 64" by (auto simp: vmars_ok_def vmar_forest_def)
  have "vmars_ok (fst (vmar_insert_record al (vr_vm_space_id parent) (Some (vr_id parent)) b n fl t))"
    if "validate_vmar_size n = Inr ()" "\<not> vr_destroyed parent" "fl AND NOT (vr_flags parent) AND VMAR_FLAGS_ALL = 0"
      "contains_range parent b n" "\<not> active_children_overlap t (vr_id parent) b n" for b
    using that p e
    by (intro vmars_ok_insert_record [OF ok])
      (auto simp: contains_range_nat [OF e] validate_vmar_size_def split: if_splits)
  with ok show ?thesis by (auto simp: vmar_insert_child_run split: option.split)
qed

definition destroyed_by :: "u64 list \<Rightarrow> vmar_record \<Rightarrow> vmar_record" where
  "destroyed_by ids e = (if vr_id e \<in> set ids then e\<lparr> vr_destroyed := True \<rparr> else e)"

lemma destroyed_by_sel [simp]:
  "vr_id (destroyed_by ids e) = vr_id e" "vr_parent_vmar_id (destroyed_by ids e) = vr_parent_vmar_id e"
  "vr_base (destroyed_by ids e) = vr_base e" "vr_size_bytes (destroyed_by ids e) = vr_size_bytes e"
  "vmar_end (destroyed_by ids e) = vmar_end e" "vr_flags (destroyed_by ids e) = vr_flags e"
  "vr_vm_space_id (destroyed_by ids e) = vr_vm_space_id e"
  "vr_destroyed (destroyed_by ids e) \<longleftrightarrow> vr_destroyed e \<or> vr_id e \<in> set ids"
  by (simp_all add: destroyed_by_def vmar_end_def)

lemma destroy_subtree_Inr:
  assumes ok: "vmars_ok t" "vt_next_vmar_id t \<noteq> max_of" and run: "destroy_subtree root t = (t', Inr ids)"
  shows "ids = subtree_ids t root \<and> t' = t\<lparr> vt_entries := map (destroyed_by ids) (vt_entries t) \<rparr> \<and>
    set ids = {i. descends (vt_entries t) root i}"
proof -
  have f: "vmar_forest (vt_entries t)" using ok by (simp add: vmars_ok_def)
  then have d: "distinct (map vr_id (vt_entries t))" by (simp add: vmar_forest_def)
  from run obtain v where v: "vmar_get t root = Some v" and ids: "ids = subtree_ids t root"
    and t': "t' = t\<lparr> vt_entries := map (destroyed_by ids) (vt_entries t) \<rparr>"
    by (auto simp: destroy_subtree_def seq_Inr op_run require_run fold_destroy [OF d] destroyed_by_def [abs_def]
        split: if_splits)
  from v have "root \<in> vr_id ` set (vt_entries t)" by (auto simp: vmar_get_def dest: find_Some_in)
  with subtree_ids_descends [OF f] ids t' show ?thesis by simp
qed

lemma vmar_forest_destroy:
  assumes f: "vmar_forest es" and c: "\<And>p i. p \<in> set ids \<Longrightarrow> i \<in> set (child_ids es p) \<Longrightarrow> i \<in> set ids"
  shows "vmar_forest (map (destroyed_by ids) es)"
proof -
  have "child_of (destroyed_by ids v) (destroyed_by ids q)" if "v \<in> set es" "q \<in> set es" "child_of v q" for v q
    using that c [of "vr_id q" "vr_id v"] by (auto simp: child_of_def child_ids_in)
  with f show ?thesis
    unfolding vmar_forest_def by (auto simp: comp_def) blast
qed

lemma vmars_ok_destroy:
  assumes ok: "vmars_ok t" shows "vmars_ok (fst (destroy_subtree root t))"
proof (cases "destroy_subtree root t")
  case (Pair t' r)
  show ?thesis
  proof (cases r)
    case (Inl e)
    with Pair have "t' = t"
      by (auto simp: destroy_subtree_def seq_def op_run require_run ok_or_def split: option.splits if_splits)
    with ok Pair show ?thesis by simp
  next
    case (Inr ids)
    show ?thesis
    proof (cases "vt_next_vmar_id t = max_of")
      case True
      have "vt_next_vmar_id t' = vt_next_vmar_id t"
        using Pair by (auto simp: destroy_subtree_def seq_def op_run require_run ok_or_def split: option.splits if_splits)
      with True Pair show ?thesis by (simp add: vmars_ok_def)
    next
      case False
      note d = destroy_subtree_Inr [OF ok False Pair [unfolded Inr]]
      have "vmar_forest (map (destroyed_by ids) (vt_entries t))"
        using ok False d by (intro vmar_forest_destroy) (auto simp: vmars_ok_def intro: descends.down)
      with ok False d Pair show ?thesis by (auto simp: vmars_ok_def)
    qed
  qed
qed

section \<open>Reachable tables\<close>

text \<open>The tables the kernel can build: a child is made under a record the table returned.\<close>

inductive vmars_reachable :: "bool \<Rightarrow> vmar_table \<Rightarrow> bool" for x86 where
  start: "vmars_reachable x86 vmar_table_new"
| root: "vmars_reachable x86 t \<Longrightarrow> vmars_reachable x86 (fst (vmar_insert_root x86 al sp t))"
| child: "vmars_reachable x86 t \<Longrightarrow> vmar_get t i = Some parent \<Longrightarrow>
    vmars_reachable x86 (fst (vmar_insert_child al parent offset n fl t))"
| destroy: "vmars_reachable x86 t \<Longrightarrow> vmars_reachable x86 (fst (destroy_subtree i t))"

lemma vmars_reachable_ok: "vmars_reachable x86 t \<Longrightarrow> vmars_ok t"
proof (induction rule: vmars_reachable.induct)
  case start
  show ?case by (simp add: vmars_ok_def vmar_forest_def vmar_table_new_def)
next
  case (child t i parent al offset n fl)
  then show ?case by (auto simp: vmar_get_def dest: find_Some_in intro!: vmars_ok_insert_child)
qed (simp_all add: vmars_ok_insert_root vmars_ok_destroy)

lemma sibling_disjoint:
  assumes "vmar_forest es" and "v \<in> set es" "w \<in> set es" "vr_id v \<noteq> vr_id w" "\<not> vr_destroyed v" "\<not> vr_destroyed w"
    and "vr_parent_vmar_id v = Some p" "vr_parent_vmar_id w = Some p"
  shows "vmar_end v \<le> unat (vr_base w) \<or> vmar_end w \<le> unat (vr_base v)"
proof -
  have "\<not> ranges_overlap (vr_base v) (vr_size_bytes v) (vr_base w) (vr_size_bytes w)"
    using assms by (simp add: vmar_forest_def)
  moreover have "vmar_end v < 2 ^ 64" "vmar_end w < 2 ^ 64" using assms vmar_forestD(1) by blast+
  ultimately show ?thesis by (auto simp: vmar_end_def ranges_overlap_nat)
qed

text \<open>
  C31. Address regions nest. In every table the kernel can build (before the 64-bit
  identifier counter saturates), an active region with a parent lies inside that
  parent, which is active, of the same address space and permits every mapping
  permission the child permits; and two different active children of one parent
  do not share an address.
\<close>

theorem vmar_regions_nest:
  assumes "vmars_reachable x86 t" and "vt_next_vmar_id t \<noteq> max_of"
    and "v \<in> set (vt_entries t)" and "\<not> vr_destroyed v" and "vr_parent_vmar_id v = Some p"
  shows "(\<exists>q\<in>set (vt_entries t). vr_id q = p \<and> \<not> vr_destroyed q \<and> vr_vm_space_id q = vr_vm_space_id v \<and>
      unat (vr_base q) \<le> unat (vr_base v) \<and>
      unat (vr_base v) + unat (vr_size_bytes v) \<le> unat (vr_base q) + unat (vr_size_bytes q) \<and>
      vr_flags v AND NOT (vr_flags q) AND VMAR_FLAGS_ALL = 0) \<and>
    (\<forall>w\<in>set (vt_entries t). vr_parent_vmar_id w = Some p \<longrightarrow> \<not> vr_destroyed w \<longrightarrow> vr_id w \<noteq> vr_id v \<longrightarrow>
      unat (vr_base v) + unat (vr_size_bytes v) \<le> unat (vr_base w) \<or>
      unat (vr_base w) + unat (vr_size_bytes w) \<le> unat (vr_base v))"
proof -
  have f: "vmar_forest (vt_entries t)" using vmars_reachable_ok [OF assms(1)] assms(2) by (simp add: vmars_ok_def)
  obtain q where "q \<in> set (vt_entries t)" "vr_id q = p" "child_of v q" using vmar_forestD(3) [OF f assms(3,5)] by blast
  then show ?thesis
    using sibling_disjoint [OF f assms(3)] assms(4,5)
    by (auto simp: child_of_def vmar_end_def word_le_nat_alt)
qed

definition vmar_example :: vmar_table where
  "vmar_example = fst (vmar_insert_child (\<lambda>_ _. True)
     \<lparr> vr_id = 1, vr_vm_space_id = 7, vr_parent_vmar_id = None, vr_base = 0x80000000, vr_size_bytes = 0x00007fff80000000,
       vr_flags = 15, vr_destroyed = False \<rparr> 0x1000 0x2000 3 (fst (vmar_insert_root False (\<lambda>_ _. True) 7 vmar_table_new)))"

lemmas vmar_example_simps = vmar_example_def vmar_insert_child_run vmar_insert_record_def vmar_insert_root_def seq_def op_run
  guard_or_def root_for_vm_space_def vmar_table_new_def USER_VMAR_SIZE_def USER_VMAR_BASE_def USER_START_def vmar_flag_defs
  validate_vmar_flags_def validate_vmar_size_def PAGE_SIZE_def checked_add_def contains_range_def sat_add_def
  active_children_overlap_def vmar_get_def ok_or_def

lemma vmar_example_entries:
  "vt_next_vmar_id vmar_example = 3"
  "vt_entries vmar_example =
    [\<lparr> vr_id = 1, vr_vm_space_id = 7, vr_parent_vmar_id = None, vr_base = 0x80000000, vr_size_bytes = 0x00007fff80000000,
       vr_flags = 15, vr_destroyed = False \<rparr>,
     \<lparr> vr_id = 2, vr_vm_space_id = 7, vr_parent_vmar_id = Some 1, vr_base = 0x80001000, vr_size_bytes = 0x2000,
       vr_flags = 3, vr_destroyed = False \<rparr>]"
  by (simp_all add: vmar_example_simps)

lemma vmar_example_reachable: "vmars_reachable False vmar_example"
  unfolding vmar_example_def
  by (rule vmars_reachable.child [where i = 1, OF vmars_reachable.root [OF vmars_reachable.start]])
    (simp add: vmar_example_simps)

theorem vmar_regions_nest_witness:
  "\<exists>q\<in>set (vt_entries vmar_example). vr_id q = 1 \<and> \<not> vr_destroyed q \<and> unat (vr_base q) \<le> unat (0x80001000 :: u64)"
  using vmar_regions_nest [OF vmar_example_reachable, of "\<lparr> vr_id = 2, vr_vm_space_id = 7, vr_parent_vmar_id = Some 1,
      vr_base = 0x80001000, vr_size_bytes = 0x2000, vr_flags = 3, vr_destroyed = False \<rparr>" 1]
  by (simp add: vmar_example_entries)

text \<open>
  C32. Destroying a region ends its subtree and nothing else. When \<open>destroy_subtree\<close>
  succeeds on a table the kernel can build, it returns each identifier that is
  reached from the region through active children, marks exactly those records
  as destroyed and leaves every other record as it was; and it never succeeds on
  a root region, which belongs to its address space.
\<close>

theorem destroy_subtree_exact:
  assumes "vmars_reachable x86 t" and "vt_next_vmar_id t \<noteq> max_of" and "destroy_subtree root t = (t', Inr ids)"
  shows "set ids = {i. descends (vt_entries t) root i} \<and>
    vt_entries t' = map (\<lambda>e. if descends (vt_entries t) root (vr_id e) then e\<lparr> vr_destroyed := True \<rparr> else e) (vt_entries t) \<and>
    (\<exists>v. vmar_get t root = Some v \<and> vr_parent_vmar_id v \<noteq> None \<and> \<not> vr_destroyed v)"
proof -
  have "\<exists>v. vmar_get t root = Some v \<and> vr_parent_vmar_id v \<noteq> None \<and> \<not> vr_destroyed v"
    using assms(3) by (auto simp: destroy_subtree_def seq_Inr op_run require_run is_root_def split: if_splits)
  with destroy_subtree_Inr [OF vmars_reachable_ok [OF assms(1)] assms(2,3)] show ?thesis
    by (auto simp: destroyed_by_def)
qed

theorem destroy_subtree_exact_witness:
  "map vr_destroyed (vt_entries (fst (destroy_subtree 2 vmar_example))) = [False, True] \<and>
   descends (vt_entries vmar_example) 2 2"
proof -
  have run: "destroy_subtree 2 vmar_example = (fst (destroy_subtree 2 vmar_example), Inr [2])"
    by (simp add: destroy_subtree_def seq_def op_run require_run ok_or_def vmar_get_def is_root_def subtree_ids_def
        vmar_example_entries eval_nat_numeral)
  have "\<not> descends (vt_entries vmar_example) 2 1"
    by (auto simp: vmar_example_entries child_ids_in elim: descends.cases)
  with destroy_subtree_exact [OF vmar_example_reachable _ run] show ?thesis
    by (simp add: vmar_example_entries max_of_def descends.self)
qed

end
