(* ===== verification/Vmos.thy ===== *)
theory Vmos
  imports Service_Base Frames
begin

text \<open>
  Virtual memory objects (\<open>VmoTable\<close> of \<open>kernel_services/memory.rs\<close>): objects
  made of page frames, which a clone shares with its parent until a page is
  copied. Frames are counted; a frame goes back to the free list when its
  count drops to zero.
\<close>

section \<open>Operations\<close>

definition VMO_FLAG_RESIZABLE :: u32 where "VMO_FLAG_RESIZABLE = 0x00000001"
definition VMO_FLAG_CONTIGUOUS_PHYS :: u32 where "VMO_FLAG_CONTIGUOUS_PHYS = 0x00000002"
definition VMO_FLAG_CACHE_POLICY_WB :: u32 where "VMO_FLAG_CACHE_POLICY_WB = 0x00000004"
definition VMO_FLAG_CACHE_POLICY_UC :: u32 where "VMO_FLAG_CACHE_POLICY_UC = 0x00000008"
definition SYNTHETIC_PHYS_BASE :: u64 where "SYNTHETIC_PHYS_BASE = 0x50000000"

datatype vmo_backing_kind = LazyAnonymous | Contiguous

record vmo_record =
  vo_id :: u64
  vo_size_bytes :: u64
  vo_flags :: u32
  vo_parent_vmo :: "u64 option"
  vo_parent_offset :: u64
  vo_charged_resource_group_id :: "u32 option"
  vo_backing :: vmo_backing_kind
  vo_frames :: "u64 option list"

definition frame_for_offset :: "vmo_record \<Rightarrow> u64 \<Rightarrow> u64 option" where
  "frame_for_offset v offset =
     (let frame_index = unat (offset div PAGE_SIZE)
      in if frame_index < length (vo_frames v) then vo_frames v ! frame_index else None)"

record frame_record =
  fr_phys :: u64
  fr_refs :: u64

record vmo_table =
  vm_entries :: "vmo_record list"
  vm_next_vmo_id :: u64
  vm_next_phys :: u64
  vm_free_frames :: "u64 list"
  vm_frame_refs :: "frame_record list"

definition vmo_table_new :: vmo_table where
  "vmo_table_new = \<lparr> vm_entries = [], vm_next_vmo_id = 1, vm_next_phys = SYNTHETIC_PHYS_BASE,
     vm_free_frames = [], vm_frame_refs = [] \<rparr>"

definition hardware_restricted_vmo :: "u32 \<Rightarrow> bool" where
  "hardware_restricted_vmo flags \<longleftrightarrow> flags AND (VMO_FLAG_CONTIGUOUS_PHYS OR VMO_FLAG_CACHE_POLICY_UC) \<noteq> 0"

definition checked_page_size :: "u64 \<Rightarrow> kernel_service_status + u64" where
  "checked_page_size size_bytes = (if size_bytes = 0 then Inl InvalidArgs else Inr (align_up size_bytes PAGE_SIZE))"

definition pages_for_size :: "u64 \<Rightarrow> kernel_service_status + nat" where
  "pages_for_size size_bytes = and_then (checked_page_size size_bytes) (\<lambda>size. Inr (unat (size div PAGE_SIZE)))"

definition validate_vmo_flags :: "u32 \<Rightarrow> kernel_service_status + unit" where
  "validate_vmo_flags flags =
     (if flags AND (VMO_FLAG_CACHE_POLICY_WB OR VMO_FLAG_CACHE_POLICY_UC)
           = VMO_FLAG_CACHE_POLICY_WB OR VMO_FLAG_CACHE_POLICY_UC then Inl InvalidArgs
      else if flags AND NOT (VMO_FLAG_RESIZABLE OR VMO_FLAG_CONTIGUOUS_PHYS OR
           VMO_FLAG_CACHE_POLICY_WB OR VMO_FLAG_CACHE_POLICY_UC) \<noteq> 0 then Inl InvalidArgs
      else Inr ())"

definition vmo_get :: "vmo_table \<Rightarrow> u64 \<Rightarrow> vmo_record option" where
  "vmo_get t i = List.find (\<lambda>v. vo_id v = i) (vm_entries t)"

text \<open>The frame comes off the free list or the bump pointer before the reservation is tried.\<close>

definition take_frame :: "vmo_table \<Rightarrow> vmo_table \<times> u64" where
  "take_frame t =
     (if vm_free_frames t = []
      then (t\<lparr> vm_next_phys := sat_add (vm_next_phys t) PAGE_SIZE \<rparr>, vm_next_phys t)
      else (t\<lparr> vm_free_frames := butlast (vm_free_frames t) \<rparr>, last (vm_free_frames t)))"

definition allocate_frame :: "service_site allocator \<Rightarrow> (vmo_table, u64) op" where
  "allocate_frame al t =
     (case take_frame t of (t', f) \<Rightarrow>
        if \<not> al SiteFrameRefs (length (vm_frame_refs t')) then (t', Inl NoMemory)
        else (t'\<lparr> vm_frame_refs := vm_frame_refs t' @ [\<lparr> fr_phys = f, fr_refs = 1 \<rparr>] \<rparr>, Inr f))"

definition retain_frame :: "u64 \<Rightarrow> (vmo_table, unit) op" where
  "retain_frame f t =
     (case List.find (\<lambda>r. fr_phys r = f) (vm_frame_refs t) of
        None \<Rightarrow> (t, Inl InvalidHandle)
      | Some r \<Rightarrow>
          (case checked_add (fr_refs r) 1 of
             None \<Rightarrow> (t, Inl NoMemory)
           | Some n \<Rightarrow> (t\<lparr> vm_frame_refs := upd_first (\<lambda>r. fr_phys r = f) (\<lambda>r. r\<lparr> fr_refs := n \<rparr>) (vm_frame_refs t) \<rparr>,
               Inr ())))"

definition release_frame :: "u64 \<Rightarrow> vmo_table \<Rightarrow> vmo_table" where
  "release_frame f t =
     (case position (\<lambda>r. fr_phys r = f) (vm_frame_refs t) of
        None \<Rightarrow> t
      | Some i \<Rightarrow>
          if fr_refs (vm_frame_refs t ! i) > 1
          then t\<lparr> vm_frame_refs := (vm_frame_refs t)[i := (vm_frame_refs t ! i)\<lparr> fr_refs := fr_refs (vm_frame_refs t ! i) - 1 \<rparr>] \<rparr>
          else t\<lparr> vm_frame_refs := swap_remove i (vm_frame_refs t), vm_free_frames := vm_free_frames t @ [f] \<rparr>)"

definition frame_ref_count :: "vmo_table \<Rightarrow> u64 \<Rightarrow> nat" where
  "frame_ref_count t f =
     (case List.find (\<lambda>r. fr_phys r = f) (vm_frame_refs t) of None \<Rightarrow> 0 | Some r \<Rightarrow> unat (fr_refs r))"

definition flatten :: "u64 option list \<Rightarrow> u64 list" where
  "flatten fs = List.map_filter (\<lambda>f. f) fs"

text \<open>The allocation loop of a contiguous object gives back what it took when it fails.\<close>

fun allocate_frames :: "service_site allocator \<Rightarrow> nat \<Rightarrow> u64 option list \<Rightarrow> (vmo_table, u64 option list) op" where
  "allocate_frames al 0 frames t = (t, Inr frames)"
| "allocate_frames al (Suc n) frames t =
     (case allocate_frame al t of
        (t', Inr f) \<Rightarrow> allocate_frames al n (frames @ [Some f]) t'
      | (t', Inl status) \<Rightarrow> (fold release_frame (flatten frames) t', Inl status))"

definition vmo_frames_for ::
    "service_site allocator \<Rightarrow> nat \<Rightarrow> u32 \<Rightarrow> u64 option \<Rightarrow> u64 \<Rightarrow> (vmo_table, u64 option list) op" where
  "vmo_frames_for al frame_count flags parent_vmo parent_offset =
     (case parent_vmo of
        Some parent_id \<Rightarrow>
          seq (look (\<lambda>t. ok_or InvalidHandle (vmo_get t parent_id))) (\<lambda>parent.
          let first = unat (parent_offset div PAGE_SIZE); stop = first + frame_count
          in seq (require (stop < 2 ^ 64) InvalidArgs) (\<lambda>_.
             seq (require (stop \<le> length (vo_frames parent)) InvalidArgs) (\<lambda>_.
             let selected = take frame_count (drop first (vo_frames parent))
             in seq (each (\<lambda>f. case f of None \<Rightarrow> give () | Some f \<Rightarrow> retain_frame f) selected) (\<lambda>_.
                  give selected))))
      | None \<Rightarrow>
          if flags AND VMO_FLAG_CONTIGUOUS_PHYS = 0 then give (replicate frame_count None)
          else allocate_frames al frame_count [])"

definition vmo_insert ::
    "service_site allocator \<Rightarrow> u64 \<Rightarrow> u32 \<Rightarrow> u64 option \<Rightarrow> u64 \<Rightarrow> u32 option \<Rightarrow> (vmo_table, u64) op" where
  "vmo_insert al size_bytes flags parent_vmo parent_offset charged =
     seq (look (\<lambda>t. guard_or NoMemory (al SiteVmos (length (vm_entries t))))) (\<lambda>_.
     seq (look (\<lambda>_. pages_for_size size_bytes)) (\<lambda>frame_count.
     seq (require (al SiteFrames frame_count) NoMemory) (\<lambda>_.
     seq (vmo_frames_for al frame_count flags parent_vmo parent_offset) (\<lambda>frames.
     seq (look (\<lambda>t. Inr (vm_next_vmo_id t))) (\<lambda>i.
     seq (change (\<lambda>t. t\<lparr> vm_next_vmo_id := sat_add i 1,
            vm_entries := vm_entries t @ [\<lparr> vo_id = i, vo_size_bytes = size_bytes, vo_flags = flags,
              vo_parent_vmo = parent_vmo, vo_parent_offset = parent_offset, vo_charged_resource_group_id = charged,
              vo_backing = (if flags AND VMO_FLAG_CONTIGUOUS_PHYS \<noteq> 0 then Contiguous else LazyAnonymous),
              vo_frames = frames \<rparr>] \<rparr>)) (\<lambda>_. give i))))))"

definition vmo_remove :: "u64 \<Rightarrow> (vmo_table, vmo_record) op" where
  "vmo_remove i t =
     (case position (\<lambda>v. vo_id v = i) (vm_entries t) of
        None \<Rightarrow> (t, Inl InvalidHandle)
      | Some index \<Rightarrow>
          let vmo = vm_entries t ! index
          in (fold release_frame (flatten (vo_frames vmo)) (t\<lparr> vm_entries := swap_remove index (vm_entries t) \<rparr>), Inr vmo))"

definition page_frame :: "vmo_table \<Rightarrow> u64 \<Rightarrow> nat \<Rightarrow> u64 option" where
  "page_frame t vmo_id page_index =
     (case vmo_get t vmo_id of
        None \<Rightarrow> None
      | Some v \<Rightarrow> if page_index < length (vo_frames v) then vo_frames v ! page_index else None)"

definition resolve_cow_page :: "service_site allocator \<Rightarrow> u64 \<Rightarrow> nat \<Rightarrow> (vmo_table, u64 \<times> u64 option) op" where
  "resolve_cow_page al vmo_id page_index =
     seq (look (\<lambda>t. ok_or InvalidArgs (page_frame t vmo_id page_index))) (\<lambda>old.
     seq (look (\<lambda>t. Inr (frame_ref_count t old))) (\<lambda>refs.
     if refs \<le> 1 then give (old, None)
     else seq (allocate_frame al) (\<lambda>new.
          seq (change (\<lambda>t. t\<lparr> vm_entries := upd_first (\<lambda>v. vo_id v = vmo_id)
                 (\<lambda>v. v\<lparr> vo_frames := (vo_frames v)[page_index := Some new] \<rparr>) (vm_entries t) \<rparr>)) (\<lambda>_.
          seq (change (release_frame old)) (\<lambda>_. give (new, Some old))))))"

section \<open>Removing and updating by key\<close>

lemma position_find: "position p xs = Some i \<Longrightarrow> List.find p xs = Some (xs ! i)"
  by (induction xs arbitrary: i) (auto split: if_splits)

lemma position_upd_first: "position p xs = Some i \<Longrightarrow> xs[i := f (xs ! i)] = upd_first p f xs"
  by (induction xs arbitrary: i) (auto split: if_splits)

lemma swap_remove_key:
  assumes d: "distinct (map k xs)" and i: "i < length xs"
  shows "distinct (map k (swap_remove i xs))" and "set (swap_remove i xs) = set xs - {xs ! i}"
    and "List.find (\<lambda>x. k x = g) (swap_remove i xs) = (if g = k (xs ! i) then None else List.find (\<lambda>x. k x = g) xs)"
proof -
  have m: "mset (swap_remove i xs) = mset (remove1 (xs ! i) xs)" by (simp add: mset_swap_remove [OF i])
  then have "mset (map k (swap_remove i xs)) = mset (map k (remove1 (xs ! i) xs))" by simp
  moreover have "distinct (map k (remove1 (xs ! i) xs))"
    using d by (auto simp: distinct_map inj_on_def dest: notin_set_remove1)
  ultimately show dk: "distinct (map k (swap_remove i xs))" by (metis mset_eq_imp_distinct_iff)
  have "distinct xs" using d by (simp add: distinct_map)
  with m show s: "set (swap_remove i xs) = set xs - {xs ! i}" by (metis set_mset_mset set_remove1_eq)
  have "List.find (\<lambda>x. k x = g) (swap_remove i xs) = Some y \<longleftrightarrow>
      (if g = k (xs ! i) then None else List.find (\<lambda>x. k x = g) xs) = Some y" for y
    using distinct_key_eq [OF d, of y "xs ! i"] i by (auto simp: find_key_iff [OF dk] find_key_iff [OF d] s)
  then show "List.find (\<lambda>x. k x = g) (swap_remove i xs) = (if g = k (xs ! i) then None else List.find (\<lambda>x. k x = g) xs)"
    by (metis option.exhaust)
qed

section \<open>Counting frames\<close>

text \<open>The frames that the objects hold, with multiplicity.\<close>

definition held_frames :: "vmo_table \<Rightarrow> u64 multiset" where
  "held_frames t = mset (flatten (concat (map vo_frames (vm_entries t))))"

text \<open>
  What the counting keeps of a table whose pages (in objects or on their way
  into one) are the multiset \<open>M\<close>: a frame's count is at least the number of pages that use
  it, a counted frame is not free, and the bump pointer is above all of them.
  The bump pointer saturates after \<open>2 ^ 52\<close> pages and then hands out one address again and again.
\<close>

definition counts_ok :: "u64 multiset \<Rightarrow> vmo_table \<Rightarrow> bool" where
  "counts_ok M t \<longleftrightarrow> vm_next_phys t = max_of \<or>
     distinct (map fr_phys (vm_frame_refs t)) \<and> distinct (vm_free_frames t) \<and>
     (\<forall>f\<in>set (vm_free_frames t). f \<notin> fr_phys ` set (vm_frame_refs t)) \<and>
     (\<forall>f\<in>set (vm_free_frames t) \<union> fr_phys ` set (vm_frame_refs t). f < vm_next_phys t) \<and>
     (\<forall>r\<in>set (vm_frame_refs t). 1 \<le> fr_refs r) \<and> (\<forall>f. count M f \<le> frame_ref_count t f)"

definition vmos_ok :: "vmo_table \<Rightarrow> bool" where
  "vmos_ok t \<longleftrightarrow> counts_ok (held_frames t) t"

lemma flatten_simps [simp]:
  "flatten [] = []" "flatten (None # fs) = flatten fs" "flatten (Some f # fs) = f # flatten fs"
  "flatten (xs @ ys) = flatten xs @ flatten ys" "flatten (replicate n None) = []"
  by (simp_all add: flatten_def List.map_filter_def)

lemma counts_ok_mono: "counts_ok M t \<Longrightarrow> N \<subseteq># M \<Longrightarrow> counts_ok N t"
  unfolding counts_ok_def by (meson mset_subset_eq_count order_trans)

lemma counts_ok_entries [simp]: "counts_ok M (t\<lparr> vm_entries := es \<rparr>) = counts_ok M t"
  "counts_ok M (t\<lparr> vm_next_vmo_id := i \<rparr>) = counts_ok M t"
  by (simp_all add: counts_ok_def frame_ref_count_def)

lemma counted_iff: "f \<in> fr_phys ` set rs \<longleftrightarrow> List.find (\<lambda>r. fr_phys r = f) rs \<noteq> None"
  by (simp add: find_key_None [where k = fr_phys])

lemma frame_ref_count_0: "f \<notin> fr_phys ` set (vm_frame_refs t) \<Longrightarrow> frame_ref_count t f = 0"
  by (simp add: frame_ref_count_def find_key_None [where k = fr_phys, THEN iffD2])

text \<open>A new frame was used by no page.\<close>

lemma bump_less: "p \<noteq> (max_of :: u64) \<Longrightarrow> sat_add p PAGE_SIZE \<noteq> max_of \<Longrightarrow> p < sat_add p PAGE_SIZE"
proof -
  assume "p \<noteq> max_of" "sat_add p PAGE_SIZE \<noteq> max_of"
  then have "unat p + 4096 < 2 ^ 64" by (auto simp: sat_add_def PAGE_SIZE_def split: if_splits)
  then show ?thesis by (simp add: word_less_nat_alt unat_sat_add PAGE_SIZE_def)
qed

lemma counts_okD:
  assumes "counts_ok M t" and "vm_next_phys t \<noteq> max_of"
  shows "distinct (map fr_phys (vm_frame_refs t))" "distinct (vm_free_frames t)"
    "\<And>f. f \<in> set (vm_free_frames t) \<Longrightarrow> f \<notin> fr_phys ` set (vm_frame_refs t)"
    "\<And>f. f \<in> set (vm_free_frames t) \<Longrightarrow> f < vm_next_phys t" "\<And>r. r \<in> set (vm_frame_refs t) \<Longrightarrow> fr_phys r < vm_next_phys t"
    "\<And>r. r \<in> set (vm_frame_refs t) \<Longrightarrow> 1 \<le> fr_refs r" "\<And>f. count M f \<le> frame_ref_count t f"
  using assms by (auto simp: counts_ok_def)

lemma counts_okI:
  assumes "vm_next_phys t \<noteq> max_of \<Longrightarrow> distinct (map fr_phys (vm_frame_refs t)) \<and> distinct (vm_free_frames t) \<and>
    (\<forall>f\<in>set (vm_free_frames t). f \<notin> fr_phys ` set (vm_frame_refs t)) \<and>
    (\<forall>f\<in>set (vm_free_frames t). f < vm_next_phys t) \<and> (\<forall>r\<in>set (vm_frame_refs t). fr_phys r < vm_next_phys t \<and> 1 \<le> fr_refs r) \<and>
    (\<forall>f. count M f \<le> frame_ref_count t f)"
  shows "counts_ok M t"
  using assms unfolding counts_ok_def ball_Un ball_simps by blast

lemma take_frame_cases:
  assumes "take_frame t = (t', f)"
  obtains "vm_free_frames t = []" "f = vm_next_phys t" "t' = t\<lparr> vm_next_phys := sat_add f PAGE_SIZE \<rparr>"
  | xs where "vm_free_frames t = xs @ [f]" "t' = t\<lparr> vm_free_frames := xs \<rparr>"
proof (cases "vm_free_frames t" rule: rev_cases)
  case Nil
  with assms that(1) show ?thesis by (auto simp: take_frame_def)
next
  case (snoc xs g)
  with assms that(2) [of xs] show ?thesis by (simp add: take_frame_def)
qed

lemma take_frame_fresh:
  assumes ok: "counts_ok M t" and run: "take_frame t = (t', f)"
  shows "counts_ok M t'" and "vm_next_phys t' \<noteq> max_of \<Longrightarrow>
    f \<notin> set (vm_free_frames t') \<and> f \<notin> fr_phys ` set (vm_frame_refs t') \<and> f < vm_next_phys t'"
proof -
  from run have "counts_ok M t' \<and> (vm_next_phys t' \<noteq> max_of \<longrightarrow>
    f \<notin> set (vm_free_frames t') \<and> f \<notin> fr_phys ` set (vm_frame_refs t') \<and> f < vm_next_phys t')"
  proof (cases rule: take_frame_cases)
    case 1
    show ?thesis
    proof (cases "vm_next_phys t' = max_of")
      case True
      then show ?thesis by (simp add: counts_ok_def)
    next
      case False
      then have n: "vm_next_phys t \<noteq> max_of" using 1 by auto
      have lt: "f < vm_next_phys t'" using 1 bump_less [OF n] False by simp
      note d = counts_okD [OF ok n]
      have "g < vm_next_phys t'" if "g < f" for g using that lt by (rule less_trans)
      moreover have "f \<notin> fr_phys ` set (vm_frame_refs t)" "frame_ref_count t' = frame_ref_count t"
        using 1 d(5) by (fastforce simp: frame_ref_count_def)+
      ultimately show ?thesis using 1 d lt by (auto intro!: counts_okI)
    qed
  next
    case (2 xs)
    have "frame_ref_count t' = frame_ref_count t" using 2 by (auto simp: frame_ref_count_def)
    with 2 counts_okD [OF ok] show ?thesis by (intro conjI counts_okI impI) simp_all
  qed
  then show "counts_ok M t'" "vm_next_phys t' \<noteq> max_of \<Longrightarrow>
    f \<notin> set (vm_free_frames t') \<and> f \<notin> fr_phys ` set (vm_frame_refs t') \<and> f < vm_next_phys t'" by auto
qed

lemma take_frame_sel:
  "take_frame t = (t', f) \<Longrightarrow> vm_entries t' = vm_entries t \<and> vm_frame_refs t' = vm_frame_refs t \<and>
    vm_next_vmo_id t' = vm_next_vmo_id t"
  by (auto simp: take_frame_def split: if_splits)

lemma allocate_frame_counts:
  assumes ok: "counts_ok M t" and run: "allocate_frame al t = (t', r)"
  shows "case r of Inl _ \<Rightarrow> counts_ok M t' | Inr f \<Rightarrow> counts_ok (add_mset f M) t' \<and>
    (vm_next_phys t' \<noteq> max_of \<longrightarrow> count M f = 0)"
proof -
  obtain t1 f where tk: "take_frame t = (t1, f)" by fastforce
  note fresh = take_frame_fresh [OF ok tk]
  show ?thesis
  proof (cases "al SiteFrameRefs (length (vm_frame_refs t1))")
    case False
    with run tk fresh(1) show ?thesis by (auto simp: allocate_frame_def)
  next
    case True
    with run tk have e: "r = Inr f" "t' = t1\<lparr> vm_frame_refs := vm_frame_refs t1 @ [\<lparr> fr_phys = f, fr_refs = 1 \<rparr>] \<rparr>"
      by (auto simp: allocate_frame_def)
    have c: "count M f = 0" if "vm_next_phys t1 \<noteq> max_of"
      using counts_okD(7) [OF fresh(1) that, of f] fresh(2) [OF that] frame_ref_count_0 [of f t1] by simp
    have "frame_ref_count t' g = (if g = f then 1 else frame_ref_count t1 g)" if "vm_next_phys t1 \<noteq> max_of" for g
      using fresh(2) [OF that] find_key_None [of fr_phys f "vm_frame_refs t1", THEN iffD2]
      by (auto simp: frame_ref_count_def e find_app split: option.splits)
    then have "counts_ok (add_mset f M) t'"
      using counts_okD [OF fresh(1)] fresh(2) c by (intro counts_okI) (auto simp: e)
    with e c show ?thesis by simp
  qed
qed

lemma count_upd_first:
  assumes "distinct (map fr_phys rs)" and "List.find (\<lambda>r. fr_phys r = f) rs = Some r"
  shows "List.find (\<lambda>r. fr_phys r = g) (upd_first (\<lambda>r. fr_phys r = f) (\<lambda>r. r\<lparr> fr_refs := n \<rparr>) rs) =
    (if g = f then Some (r\<lparr> fr_refs := n \<rparr>) else List.find (\<lambda>r. fr_phys r = g) rs)"
  using assms by (induction rs) auto

lemma counts_ok_refs_update:
  assumes ok: "counts_ok N t" and q: "List.find (\<lambda>r. fr_phys r = f) (vm_frame_refs t) = Some q" and n: "1 \<le> n"
    and c: "\<And>g. vm_next_phys t \<noteq> max_of \<Longrightarrow> count M g \<le> (if g = f then unat n else frame_ref_count t g)"
  shows "counts_ok M (t\<lparr> vm_frame_refs := upd_first (\<lambda>r. fr_phys r = f) (\<lambda>r. r\<lparr> fr_refs := n \<rparr>) (vm_frame_refs t) \<rparr>)"
    (is "counts_ok M ?t")
proof (cases "vm_next_phys t = max_of")
  case True
  then show ?thesis by (simp add: counts_ok_def)
next
  case False
  let ?rs = "upd_first (\<lambda>r. fr_phys r = f) (\<lambda>r. r\<lparr> fr_refs := n \<rparr>) (vm_frame_refs t)"
  note d = counts_okD [OF ok False]
  have keys: "map fr_phys ?rs = map fr_phys (vm_frame_refs t)" by (simp add: map_upd_first)
  then have img: "fr_phys ` set ?rs = fr_phys ` set (vm_frame_refs t)" by (metis list.set_map)
  have "frame_ref_count ?t g = (if g = f then unat n else frame_ref_count t g)" for g
    using count_upd_first [OF d(1) q, of g n] by (simp add: frame_ref_count_def)
  then have "count M g \<le> frame_ref_count ?t g" for g using c [of g] False by (cases "g = f") auto
  moreover have "fr_phys r < vm_next_phys t \<and> 1 \<le> fr_refs r" if "r \<in> set ?rs" for r
    using d(5,6) n that by (auto simp: upd_first_distinct [OF d(1)])
  ultimately show ?thesis using d by (intro counts_okI) (auto simp: keys img)
qed

lemma retain_frame_counts:
  assumes ok: "counts_ok M t" and run: "retain_frame f t = (t', r)"
  shows "case r of Inl _ \<Rightarrow> counts_ok M t' | Inr _ \<Rightarrow> counts_ok (add_mset f M) t'"
proof (cases "List.find (\<lambda>r. fr_phys r = f) (vm_frame_refs t)")
  case None
  with ok run show ?thesis by (auto simp: retain_frame_def)
next
  case q: (Some q)
  show ?thesis
  proof (cases "checked_add (fr_refs q) 1")
    case None
    have "(t', r) = (t, Inl NoMemory)" using run by (simp add: retain_frame_def q None)
    with ok show ?thesis by simp
  next
    case (Some n)
    have e: "(t', r) = (t\<lparr> vm_frame_refs := upd_first (\<lambda>r. fr_phys r = f) (\<lambda>r. r\<lparr> fr_refs := n \<rparr>) (vm_frame_refs t) \<rparr>, Inr ())"
      using run by (simp add: retain_frame_def q Some)
    have n: "unat n = Suc (unat (fr_refs q))" using Some by (simp add: checked_add_Some)
    have "counts_ok (add_mset f M) t'"
      using e counts_okD(7) [OF ok] n q
      by (auto intro!: counts_ok_refs_update [OF ok q] simp: word_le_nat_alt frame_ref_count_def) (metis option.simps(5))
    with e show ?thesis by simp
  qed
qed

lemma release_frame_counts:
  assumes ok: "counts_ok (add_mset f M) t"
  shows "counts_ok M (release_frame f t)"
proof (cases "vm_next_phys t = max_of")
  case True
  then show ?thesis by (simp add: counts_ok_def release_frame_def split: option.split)
next
  case False
  let ?rs = "vm_frame_refs t" and ?p = "\<lambda>r. fr_phys r = f"
  note d = counts_okD [OF ok False]
  have "frame_ref_count t f \<noteq> 0" using d(7) [of f] by simp
  then obtain i where i: "position ?p ?rs = Some i"
    using frame_ref_count_0 [of f t] by (cases "position ?p ?rs") (auto simp: position_None)
  then have il: "i < length ?rs" and f: "fr_phys (?rs ! i) = f" by (auto simp: position_Some)
  note find = position_find [OF i] and at = position_upd_first [OF i]
  have refs: "frame_ref_count t f = unat (fr_refs (?rs ! i))" by (simp add: frame_ref_count_def find)
  show ?thesis
  proof (cases "fr_refs (?rs ! i) > 1")
    case True
    let ?n = "fr_refs (?rs ! i) - 1"
    let ?t = "t\<lparr> vm_frame_refs := upd_first ?p (\<lambda>r. r\<lparr> fr_refs := ?n \<rparr>) ?rs \<rparr>"
    have e: "release_frame f t = ?t" using True i at [of "\<lambda>r. r\<lparr> fr_refs := ?n \<rparr>"] by (simp add: release_frame_def)
    have n: "unat ?n = unat (fr_refs (?rs ! i)) - 1" "1 \<le> ?n"
      using True by (auto simp: unat_sub word_le_nat_alt word_less_nat_alt)
    have "count M g \<le> (if g = f then unat ?n else frame_ref_count t g)" for g
      using d(7) [of g] n(1) refs by (auto split: if_splits)
    then show ?thesis unfolding e using n(2) by (intro counts_ok_refs_update [OF ok find]) auto
  next
    case False
    let ?t = "t\<lparr> vm_frame_refs := swap_remove i ?rs, vm_free_frames := vm_free_frames t @ [f] \<rparr>"
    have e: "release_frame f t = ?t" using False i by (simp add: release_frame_def)
    have one: "frame_ref_count t f \<le> 1" using False refs by (simp add: word_less_nat_alt)
    note sr = swap_remove_key [OF d(1) il]
    have "frame_ref_count ?t g = (if g = f then 0 else frame_ref_count t g)" for g
      using sr(3) [of g] f by (simp add: frame_ref_count_def)
    then have "count M g \<le> frame_ref_count ?t g" for g using d(7) [of g] one by (cases "g = f") auto
    moreover have "f \<in> fr_phys ` set ?rs" using il f by auto
    moreover have "f < vm_next_phys t" using d(5) [of "?rs ! i"] il f by simp
    moreover have "f \<notin> fr_phys ` set (swap_remove i ?rs)" using sr(3) [of f] f by (auto simp: find_None_iff)
    ultimately show ?thesis unfolding e using d sr(1,2) by (intro counts_okI) auto
  qed
qed

lemma release_frames_counts: "counts_ok (M + mset fs) t \<Longrightarrow> counts_ok M (fold release_frame fs t)"
  by (induction fs arbitrary: t) (auto intro: release_frame_counts)

lemma allocate_frames_counts:
  "counts_ok (M + mset (flatten fs)) t \<Longrightarrow> allocate_frames al n fs t = (t', r) \<Longrightarrow>
    case r of Inl _ \<Rightarrow> counts_ok M t' | Inr gs \<Rightarrow> counts_ok (M + mset (flatten gs)) t' \<and> length gs = length fs + n"
proof (induction n arbitrary: fs t)
  case (Suc n)
  obtain t1 r1 where a: "allocate_frame al t = (t1, r1)" by fastforce
  note c = allocate_frame_counts [OF Suc.prems(1) a]
  show ?case
  proof (cases r1)
    case (Inl e)
    with Suc.prems(2) a c release_frames_counts [of M "flatten fs" t1] show ?thesis by auto
  next
    case (Inr f)
    with Suc.prems(2) a c Suc.IH [of "fs @ [Some f]" t1] show ?thesis by (auto split: sum.splits)
  qed
qed auto

lemma retain_frames_counts:
  "counts_ok M t \<Longrightarrow> each (case_option (give ()) retain_frame) fs t = (t', r) \<Longrightarrow>
    case r of Inl _ \<Rightarrow> counts_ok M t' | Inr _ \<Rightarrow> counts_ok (M + mset (flatten fs)) t'"
proof (induction fs arbitrary: M t)
  case (Cons v fs)
  show ?case
  proof (cases v)
    case None
    with Cons show ?thesis by (auto simp: seq_def op_run split: sum.splits)
  next
    case (Some f)
    obtain t1 r1 where a: "retain_frame f t = (t1, r1)" by fastforce
    note c = retain_frame_counts [OF Cons.prems(1) a]
    show ?thesis
    proof (cases r1)
      case (Inl e)
      with Cons.prems(2) a c Some show ?thesis by (auto simp: seq_def)
    next
      case (Inr u)
      with Cons.prems(2) a c Some Cons.IH [of "add_mset f M" t1] show ?thesis
        by (auto simp: seq_def split: sum.splits intro: counts_ok_mono)
    qed
  qed
qed (auto simp: op_run)

section \<open>The operations keep the counts\<close>

lemma frame_ops_entries [simp]:
  "vm_entries (fst (allocate_frame al t)) = vm_entries t" "vm_entries (fst (retain_frame f t)) = vm_entries t"
  "vm_entries (release_frame f t) = vm_entries t"
  by (auto simp: allocate_frame_def retain_frame_def release_frame_def take_frame_def split: option.split)

lemma frame_runs_entries:
  "allocate_frame al t = (t', r) \<Longrightarrow> vm_entries t' = vm_entries t"
  "retain_frame f t = (t', u) \<Longrightarrow> vm_entries t' = vm_entries t"
  using frame_ops_entries(1) [of al t] frame_ops_entries(2) [of f t] by auto

lemma release_frames_entries [simp]: "vm_entries (fold release_frame fs t) = vm_entries t"
  by (induction fs arbitrary: t) auto

lemma allocate_frames_entries: "allocate_frames al n fs t = (t', r) \<Longrightarrow> vm_entries t' = vm_entries t"
proof (induction n arbitrary: fs t)
  case (Suc n)
  then show ?case by (auto split: prod.splits sum.splits dest: frame_runs_entries)
qed auto

lemma retain_frames_entries: "each (case_option (give ()) retain_frame) fs t = (t', r) \<Longrightarrow> vm_entries t' = vm_entries t"
proof (induction fs arbitrary: t)
  case (Cons v fs)
  show ?case
  proof (cases v)
    case None
    with Cons show ?thesis by (simp add: seq_def op_run)
  next
    case (Some f)
    with Cons show ?thesis by (auto simp: seq_def split: prod.splits sum.splits dest: frame_runs_entries)
  qed
qed (simp add: op_run)

lemma held_frames_entries: "vm_entries t' = vm_entries t \<Longrightarrow> held_frames t' = held_frames t"
  by (simp add: held_frames_def)

lemma vmo_frames_for_counts:
  assumes ok: "vmos_ok t" and run: "vmo_frames_for al n fl p off t = (t', r)"
  shows "vm_entries t' = vm_entries t \<and>
    (case r of Inl _ \<Rightarrow> vmos_ok t' | Inr fs \<Rightarrow> counts_ok (held_frames t + mset (flatten fs)) t')"
proof (cases p)
  case None
  show ?thesis
  proof (cases "fl AND VMO_FLAG_CONTIGUOUS_PHYS = 0")
    case True
    with None run ok show ?thesis by (auto simp: vmo_frames_for_def op_run vmos_ok_def)
  next
    case False
    with None run have "allocate_frames al n [] t = (t', r)" by (simp add: vmo_frames_for_def)
    with allocate_frames_counts [of "held_frames t" "[]" t al n t' r] allocate_frames_entries [of al n "[]" t t' r]
      held_frames_entries [of t' t] ok
    show ?thesis by (auto simp: vmos_ok_def split: sum.splits)
  qed
next
  case (Some pid)
  define m where "m = (\<lambda>fs. seq (each (case_option (give ()) retain_frame) fs) (\<lambda>_. give fs))"
  have body: "vm_entries t1 = vm_entries t \<and>
      (case r1 of Inl _ \<Rightarrow> vmos_ok t1 | Inr gs \<Rightarrow> counts_ok (held_frames t + mset (flatten gs)) t1)"
    if "m fs t = (t1, r1)" for fs t1 r1
    using that retain_frames_entries [of fs t] retain_frames_counts [of "held_frames t" t fs] ok
      held_frames_entries [of t1 t]
    by (auto simp: m_def seq_def op_run vmos_ok_def split: prod.splits sum.splits)
  have "vmo_frames_for al n fl p off = seq (look (\<lambda>t. ok_or InvalidHandle (vmo_get t pid))) (\<lambda>parent.
      seq (require (unat (off div PAGE_SIZE) + n < 2 ^ 64) InvalidArgs) (\<lambda>_.
      seq (require (unat (off div PAGE_SIZE) + n \<le> length (vo_frames parent)) InvalidArgs) (\<lambda>_.
        m (take n (drop (unat (off div PAGE_SIZE)) (vo_frames parent))))))"
    unfolding vmo_frames_for_def Let_def m_def Some by simp
  with run have "(\<exists>e. t' = t \<and> r = Inl e) \<or> (\<exists>fs. m fs t = (t', r))"
    by (auto simp: seq_def op_run require_run split: prod.splits sum.splits if_splits)
  with body ok show ?thesis by auto
qed

lemma held_frames_append [simp]:
  "held_frames (t\<lparr> vm_next_vmo_id := i, vm_entries := vm_entries t @ [v] \<rparr>) = held_frames t + mset (flatten (vo_frames v))"
  by (simp add: held_frames_def)

lemma vmos_ok_insert: "vmos_ok t \<Longrightarrow> vmos_ok (fst (vmo_insert al n fl p off ch t))"
proof -
  assume ok: "vmos_ok t"
  have "vmos_ok t'" if "pages_for_size n = Inr k" "vmo_frames_for al k fl p off t = (t', Inl e)" for k t' e
    using vmo_frames_for_counts [OF ok that(2)] by simp
  moreover have "vmos_ok (t'\<lparr> vm_next_vmo_id := j, vm_entries := vm_entries t' @ [v] \<rparr>)"
    if "vmo_frames_for al k fl p off t = (t', Inr fs)" "vo_frames v = fs" for k t' fs j v
    using vmo_frames_for_counts [OF ok that(1)] that(2) by (simp add: vmos_ok_def held_frames_def)
  ultimately show ?thesis
    using ok by (auto simp: vmo_insert_def seq_def op_run require_run split: prod.splits sum.splits)
qed

lemma mset_concat_swap_remove:
  fixes xs :: "vmo_record list"
  assumes "i < length xs"
  shows "mset (flatten (concat (map vo_frames xs))) =
    mset (flatten (concat (map vo_frames (swap_remove i xs)))) + mset (flatten (vo_frames (xs ! i)))"
proof -
  define g where "g xs = mset (flatten (concat (map vo_frames xs)))" for xs :: "vmo_record list"
  have g: "g xs = (\<Sum>v\<in>#mset xs. mset (flatten (vo_frames v)))" for xs
    by (induction xs) (simp_all add: g_def)
  have "mset xs = add_mset (xs ! i) (mset (swap_remove i xs))" using assms by (simp add: mset_swap_remove)
  then have "g xs = g (swap_remove i xs) + mset (flatten (vo_frames (xs ! i)))" unfolding g by (simp add: add.commute)
  then show ?thesis by (simp add: g_def)
qed

lemma vmos_ok_remove:
  assumes ok: "vmos_ok t" shows "vmos_ok (fst (vmo_remove i t))"
proof (cases "position (\<lambda>v. vo_id v = i) (vm_entries t)")
  case None
  with ok show ?thesis by (simp add: vmo_remove_def)
next
  case (Some k)
  let ?t = "t\<lparr> vm_entries := swap_remove k (vm_entries t) \<rparr>" and ?fs = "flatten (vo_frames (vm_entries t ! k))"
  have "k < length (vm_entries t)" using Some by (simp add: position_Some)
  from mset_concat_swap_remove [OF this] have "held_frames t = held_frames ?t + mset ?fs" by (simp add: held_frames_def)
  then have "counts_ok (held_frames ?t) (fold release_frame ?fs ?t)"
    using ok by (intro release_frames_counts) (simp add: vmos_ok_def)
  then show ?thesis using Some by (simp add: vmo_remove_def Let_def vmos_ok_def held_frames_def)
qed

section \<open>Copy on write\<close>

abbreviation set_page :: "u64 \<Rightarrow> nat \<Rightarrow> u64 \<Rightarrow> vmo_record list \<Rightarrow> vmo_record list" where
  "set_page i k f \<equiv> upd_first (\<lambda>v. vo_id v = i) (\<lambda>v. v\<lparr> vo_frames := (vo_frames v)[k := Some f] \<rparr>)"

lemma flatten_update:
  assumes "k < length fs" and "fs ! k = Some old"
  shows "add_mset old (mset (flatten (fs[k := Some f]))) = add_mset f (mset (flatten fs))"
  using assms by (subst (2) id_take_nth_drop [OF assms(1)]) (simp add: upd_conv_take_nth_drop)

lemma find_set_page:
  "List.find (\<lambda>v. vo_id v = j) (set_page i k f es) =
    map_option (\<lambda>v. if j = i then v\<lparr> vo_frames := (vo_frames v)[k := Some f] \<rparr> else v) (List.find (\<lambda>v. vo_id v = j) es)"
  by (induction es) (auto simp: option.map_ident)

lemma held_frames_set_page:
  assumes "page_frame t i k = Some old"
  shows "add_mset old (held_frames (t\<lparr> vm_entries := set_page i k f (vm_entries t) \<rparr>)) = add_mset f (held_frames t)"
proof -
  obtain v where v: "List.find (\<lambda>v. vo_id v = i) (vm_entries t) = Some v" "k < length (vo_frames v)" "vo_frames v ! k = Some old"
    using assms by (auto simp: page_frame_def vmo_get_def split: option.splits if_splits)
  have "add_mset old (mset (flatten (concat (map vo_frames (set_page i k f es))))) =
      add_mset f (mset (flatten (concat (map vo_frames es))))" if "List.find (\<lambda>v. vo_id v = i) es = Some v" for es
    using that
  proof (induction es)
    case (Cons w es)
    then show ?case
      using flatten_update [OF v(2,3), of f] by (auto simp: add_mset_commute split: if_splits)
  qed simp
  from this [OF v(1)] show ?thesis by (simp add: held_frames_def)
qed

lemma page_frame_held: "page_frame t i k = Some f \<Longrightarrow> 0 < count (held_frames t) f"
proof -
  assume p: "page_frame t i k = Some f"
  then obtain v where "v \<in> set (vm_entries t)" "Some f \<in> set (vo_frames v)"
    by (auto simp: page_frame_def vmo_get_def dest!: find_Some_in split: option.splits if_splits) (metis nth_mem)
  then have "f \<in> set (flatten (concat (map vo_frames (vm_entries t))))"
    by (force simp: flatten_def List.map_filter_def)
  then show ?thesis by (simp add: held_frames_def count_list_0_iff)
qed

lemma page_frame_set_page:
  assumes "page_frame t i k = Some old"
  shows "page_frame (t\<lparr> vm_entries := set_page i k f (vm_entries t) \<rparr>) j p = (if j = i \<and> p = k then Some f else page_frame t j p)"
  using assms by (auto simp: page_frame_def vmo_get_def find_set_page nth_list_update split: option.splits if_splits)

lemma page_frame_entries: "vm_entries t' = vm_entries t \<Longrightarrow> page_frame t' = page_frame t"
  by (intro ext) (simp add: page_frame_def vmo_get_def)

lemma release_frame_next [simp]: "vm_next_phys (release_frame f t) = vm_next_phys t"
  by (simp add: release_frame_def split: option.split)

text \<open>The two ways a page can be resolved.\<close>

lemma resolve_cow_page_run:
  "resolve_cow_page al i k t =
    (case page_frame t i k of
       None \<Rightarrow> (t, Inl InvalidArgs)
     | Some old \<Rightarrow> if frame_ref_count t old \<le> 1 then (t, Inr (old, None))
         else (case allocate_frame al t of
                 (t1, Inl e) \<Rightarrow> (t1, Inl e)
               | (t1, Inr new) \<Rightarrow> (release_frame old (t1\<lparr> vm_entries := set_page i k new (vm_entries t1) \<rparr>), Inr (new, Some old))))"
  by (simp add: resolve_cow_page_def seq_def op_run split: option.split prod.split sum.split)

lemma resolve_cow_page_cases:
  assumes "resolve_cow_page al i k t = (t', r)"
  obtains e where "page_frame t i k = None" "t' = t" "r = Inl e"
  | old where "page_frame t i k = Some old" "frame_ref_count t old \<le> 1" "t' = t" "r = Inr (old, None)"
  | old e where "page_frame t i k = Some old" "allocate_frame al t = (t', Inl e)" "r = Inl e"
  | old new t1 where "page_frame t i k = Some old" "allocate_frame al t = (t1, Inr new)" "r = Inr (new, Some old)"
      "t' = release_frame old (t1\<lparr> vm_entries := set_page i k new (vm_entries t1) \<rparr>)"
  using assms unfolding resolve_cow_page_run
  by (fastforce split: option.splits if_splits prod.splits sum.splits)

lemma cow_new_page:
  assumes ok: "vmos_ok t" and p: "page_frame t i k = Some old" and a: "allocate_frame al t = (t1, Inr new)"
    and t': "t' = release_frame old (t1\<lparr> vm_entries := set_page i k new (vm_entries t1) \<rparr>)"
  shows "vmos_ok t'" and "vm_next_phys t' \<noteq> max_of \<Longrightarrow> count (held_frames t') new = 1 \<and> new \<noteq> old"
    and "page_frame t' j q = (if j = i \<and> q = k then Some new else page_frame t j q)"
proof -
  let ?t2 = "t1\<lparr> vm_entries := set_page i k new (vm_entries t1) \<rparr>"
  have e: "vm_entries t1 = vm_entries t" using frame_runs_entries(1) [OF a] .
  note c = allocate_frame_counts [OF ok [unfolded vmos_ok_def] a, simplified]
  have p1: "page_frame t1 i k = Some old" using p page_frame_entries [OF e] by simp
  note h = held_frames_set_page [OF p1, of new] held_frames_entries [OF e]
  have "counts_ok (add_mset old (held_frames ?t2)) ?t2" using c h by simp
  then have "counts_ok (held_frames ?t2) t'" unfolding t' by (rule release_frame_counts)
  moreover have ht: "held_frames t' = held_frames ?t2" unfolding t' by (rule held_frames_entries) simp
  ultimately show "vmos_ok t'" by (simp add: vmos_ok_def)
  show "count (held_frames t') new = 1 \<and> new \<noteq> old" if "vm_next_phys t' \<noteq> max_of"
  proof -
    have z: "count (held_frames t) new = 0" using c that t' by simp
    then have "new \<noteq> old" using page_frame_held [OF p] by (metis less_irrefl)
    moreover have "count (add_mset old (held_frames ?t2)) new = count (add_mset new (held_frames t1)) new" using h(1) by simp
    ultimately show ?thesis using z h(2) ht by simp
  qed
  show "page_frame t' j q = (if j = i \<and> q = k then Some new else page_frame t j q)"
    using page_frame_set_page [OF p1, of new j q] page_frame_entries [of t' ?t2] page_frame_entries [OF e]
    by (simp add: t')
qed

lemma vmos_ok_cow: "vmos_ok t \<Longrightarrow> vmos_ok (fst (resolve_cow_page al i k t))"
proof (cases "resolve_cow_page al i k t")
  case (Pair t' r)
  assume ok: "vmos_ok t"
  from Pair show ?thesis
  proof (cases rule: resolve_cow_page_cases)
    case (3 old e)
    with ok Pair allocate_frame_counts [of "held_frames t" t al t' "Inl e"] held_frames_entries [of t' t] frame_runs_entries(1)
    show ?thesis by (simp add: vmos_ok_def)
  next
    case (4 old new t1)
    with ok Pair cow_new_page(1) show ?thesis by auto
  qed (use ok Pair in auto)
qed

section \<open>Reachable tables\<close>

inductive vmos_reachable :: "vmo_table \<Rightarrow> bool" where
  start: "vmos_reachable vmo_table_new"
| insert: "vmos_reachable t \<Longrightarrow> vmos_reachable (fst (vmo_insert al n fl p off ch t))"
| remove: "vmos_reachable t \<Longrightarrow> vmos_reachable (fst (vmo_remove i t))"
| cow: "vmos_reachable t \<Longrightarrow> vmos_reachable (fst (resolve_cow_page al i k t))"

lemma vmos_reachable_ok: "vmos_reachable t \<Longrightarrow> vmos_ok t"
proof (induction rule: vmos_reachable.induct)
  case start
  show ?case by (simp add: vmos_ok_def counts_ok_def held_frames_def vmo_table_new_def)
qed (simp_all add: vmos_ok_insert vmos_ok_remove vmos_ok_cow)

text \<open>
  C33. A page frame that an object uses is never handed out again. In every table the kernel can build,
  before the physical bump pointer saturates at the top of the address space: the free
  list has no duplicates, and its frames lie below the bump pointer and have
  reference count 0; the reference count of every frame is at least the
  number of pages that use it; and no frame in use is on the free list
  or at or above the bump pointer, the two places new frames come from. (The count
  may be larger: a child object whose creation fails half-way keeps the references
  it had taken.)
\<close>

theorem used_frames_not_free:
  assumes "vmos_reachable t" and "vm_next_phys t \<noteq> max_of"
  shows "distinct (vm_free_frames t) \<and>
    (\<forall>f. f \<in> set (vm_free_frames t) \<longrightarrow> f < vm_next_phys t \<and> frame_ref_count t f = 0) \<and>
    (\<forall>f. count (held_frames t) f \<le> frame_ref_count t f) \<and>
    (\<forall>i k f. page_frame t i k = Some f \<longrightarrow>
      1 \<le> count (held_frames t) f \<and> f \<notin> set (vm_free_frames t) \<and> f < vm_next_phys t)"
proof -
  note d = counts_okD [OF vmos_reachable_ok [OF assms(1), unfolded vmos_ok_def] assms(2)]
  have "1 \<le> count (held_frames t) f \<and> f \<notin> set (vm_free_frames t) \<and> f < vm_next_phys t"
    if "page_frame t i k = Some f" for i k f
  proof -
    have c: "1 \<le> count (held_frames t) f" using page_frame_held [OF that] by linarith
    with d(7) [of f] have "frame_ref_count t f \<noteq> 0" by linarith
    then have "f \<in> fr_phys ` set (vm_frame_refs t)" using frame_ref_count_0 [of f t] by metis
    with c d(3,5) show ?thesis by blast
  qed
  moreover have "frame_ref_count t f = 0" if "f \<in> set (vm_free_frames t)" for f
    using d(3) [OF that] frame_ref_count_0 [of f t] by metis
  ultimately show ?thesis using d(2,4,7) by blast
qed

text \<open>An object of two pages and a clone of it.\<close>

definition vmo_example :: vmo_table where
  "vmo_example = fst (vmo_insert (\<lambda>_ _. True) 0x2000 2 (Some 1) 0 None
     (fst (vmo_insert (\<lambda>_ _. True) 0x2000 2 None 0 None vmo_table_new)))"

lemmas vmo_eval = vmo_insert_def vmo_frames_for_def seq_def op_run require_run guard_or_def PAGE_SIZE_def VMO_FLAG_CONTIGUOUS_PHYS_def allocate_frame_def
  take_frame_def vmo_table_new_def SYNTHETIC_PHYS_BASE_def sat_add_def retain_frame_def checked_add_def vmo_get_def
  Let_def

lemma vmo_pages_eval: "pages_for_size 0x2000 = Inr (Suc (Suc 0))"
  by (simp add: pages_for_size_def checked_page_size_def align_up_def align_down_def PAGE_SIZE_def)

lemma vmo_first_eval: "fst (vmo_insert (\<lambda>_ _. True) 0x2000 2 None 0 None vmo_table_new) =
  \<lparr> vm_entries = [\<lparr> vo_id = 1, vo_size_bytes = 0x2000, vo_flags = 2, vo_parent_vmo = None, vo_parent_offset = 0,
      vo_charged_resource_group_id = None, vo_backing = Contiguous, vo_frames = [Some 0x50000000, Some 0x50001000] \<rparr>],
    vm_next_vmo_id = 2, vm_next_phys = 0x50002000, vm_free_frames = [],
    vm_frame_refs = [\<lparr> fr_phys = 0x50000000, fr_refs = 1 \<rparr>, \<lparr> fr_phys = 0x50001000, fr_refs = 1 \<rparr>] \<rparr>"
  by (simp add: vmo_eval vmo_pages_eval)

lemma vmo_example_eq: "vmo_example =
  \<lparr> vm_entries = [\<lparr> vo_id = 1, vo_size_bytes = 0x2000, vo_flags = 2, vo_parent_vmo = None, vo_parent_offset = 0,
      vo_charged_resource_group_id = None, vo_backing = Contiguous, vo_frames = [Some 0x50000000, Some 0x50001000] \<rparr>,
      \<lparr> vo_id = 2, vo_size_bytes = 0x2000, vo_flags = 2, vo_parent_vmo = Some 1, vo_parent_offset = 0,
      vo_charged_resource_group_id = None, vo_backing = Contiguous, vo_frames = [Some 0x50000000, Some 0x50001000] \<rparr>],
    vm_next_vmo_id = 3, vm_next_phys = 0x50002000, vm_free_frames = [],
    vm_frame_refs = [\<lparr> fr_phys = 0x50000000, fr_refs = 2 \<rparr>, \<lparr> fr_phys = 0x50001000, fr_refs = 2 \<rparr>] \<rparr>"
  unfolding vmo_example_def vmo_first_eval by (simp add: vmo_eval vmo_pages_eval)

lemma vmo_example_eval:
  "page_frame vmo_example 2 0 = Some 0x50000000" "vm_next_phys vmo_example = 0x50002000"
  "resolve_cow_page (\<lambda>_ _. True) 2 0 vmo_example =
     (fst (resolve_cow_page (\<lambda>_ _. True) 2 0 vmo_example), Inr (0x50002000, Some 0x50000000))"
  "vm_next_phys (fst (resolve_cow_page (\<lambda>_ _. True) 2 0 vmo_example)) = 0x50003000"
  unfolding vmo_example_eq resolve_cow_page_run page_frame_def vmo_get_def allocate_frame_def
  by (simp_all add: frame_ref_count_def take_frame_def sat_add_def PAGE_SIZE_def)

lemma vmo_example_reachable: "vmos_reachable vmo_example"
  unfolding vmo_example_def by (intro vmos_reachable.intros)

theorem used_frames_not_free_witness:
  "count (held_frames vmo_example) 0x50000000 \<le> frame_ref_count vmo_example 0x50000000 \<and>
   1 \<le> count (held_frames vmo_example) 0x50000000 \<and> 0x50000000 < vm_next_phys vmo_example \<and>
   0x50000000 \<notin> set (vm_free_frames vmo_example)"
proof -
  have "vm_next_phys vmo_example \<noteq> max_of" by (simp add: vmo_example_eval(2) max_of_def)
  from used_frames_not_free [OF vmo_example_reachable this] vmo_example_eval(1) show ?thesis by blast
qed

text \<open>
  C34. Copy on write isolates the page. When \<open>resolve_cow_page\<close> succeeds in a table the kernel
  can build, the page has the frame it returned, that frame is used by this page and by no other page of
  any object, and every other page keeps the frame it had; when it reports
  an old frame, that was the page's frame and the new one differs from it.
\<close>

theorem cow_page_is_private:
  assumes "vmos_reachable t" and "resolve_cow_page al i k t = (t', Inr (f, replaced))" and "vm_next_phys t' \<noteq> max_of"
  shows "page_frame t' i k = Some f \<and> count (held_frames t') f = 1 \<and>
    (\<forall>j q. (j, q) \<noteq> (i, k) \<longrightarrow> page_frame t' j q = page_frame t j q) \<and>
    (case replaced of None \<Rightarrow> t' = t | Some old \<Rightarrow> page_frame t i k = Some old \<and> f \<noteq> old)"
proof -
  note ok = vmos_reachable_ok [OF assms(1)]
  from assms(2) show ?thesis
  proof (cases rule: resolve_cow_page_cases)
    case (2 old)
    then have "count (held_frames t) old \<le> 1"
      using counts_okD(7) [OF ok [unfolded vmos_ok_def], of old] assms(3) by simp
    with page_frame_held [OF 2(1)] have "count (held_frames t) old = 1" by linarith
    with 2 show ?thesis by auto
  next
    case (4 old new t1)
    with cow_new_page [OF ok 4(1,2,4)] assms(3) show ?thesis by auto
  qed auto
qed

theorem cow_page_is_private_witness:
  "page_frame (fst (resolve_cow_page (\<lambda>_ _. True) 2 0 vmo_example)) 2 0 = Some 0x50002000 \<and>
   count (held_frames (fst (resolve_cow_page (\<lambda>_ _. True) 2 0 vmo_example))) 0x50002000 = 1"
  using cow_page_is_private [OF vmo_example_reachable vmo_example_eval(3)]
  by (simp add: vmo_example_eval(1,2,4) max_of_def)

end
