(* ===== verification/Mappings.thy ===== *)
theory Mappings
  imports Vmars Vmos
begin

text \<open>
  The mappings of objects into address spaces (\<open>MappingTable\<close> of
  \<open>kernel_services/memory.rs\<close>), with the search for a free range and the test
  that a range is covered by mappings.
\<close>

section \<open>Operations\<close>

record mapping_record =
  mp_vm_space_id :: u64
  mp_vmar_id :: u64
  mp_vmo_id :: u64
  mp_vmo_offset :: u64
  mp_size_bytes :: u64
  mp_vaddr :: u64
  mp_rights :: u32

record mapping_table =
  mt_entries :: "mapping_record list"
  mt_next_vaddr :: u64

definition FIRST_USER_VADDR :: "bool \<Rightarrow> u64" where "FIRST_USER_VADDR x86 = USER_START x86"

definition mapping_table_new :: "bool \<Rightarrow> mapping_table" where
  "mapping_table_new x86 = \<lparr> mt_entries = [], mt_next_vaddr = FIRST_USER_VADDR x86 \<rparr>"

definition overlaps_in_vm_space :: "mapping_record list \<Rightarrow> u64 \<Rightarrow> u64 \<Rightarrow> u64 \<Rightarrow> bool" where
  "overlaps_in_vm_space es vm_space_id base size_bytes \<longleftrightarrow>
     list_ex (\<lambda>m. mp_vm_space_id m = vm_space_id \<and> ranges_overlap (mp_vaddr m) (mp_size_bytes m) base size_bytes) es"

definition overlaps_child :: "vmar_record list \<Rightarrow> u64 \<Rightarrow> u64 \<Rightarrow> bool" where
  "overlaps_child reserved_children base size_bytes \<longleftrightarrow>
     list_ex (\<lambda>child. ranges_overlap (vr_base child) (vr_size_bytes child) base size_bytes) reserved_children"

text \<open>Where the search continues when the range at \<open>selected\<close> is taken.\<close>

definition next_candidate :: "mapping_record list \<Rightarrow> vmar_record \<Rightarrow> vmar_record list \<Rightarrow> u64 \<Rightarrow> u64" where
  "next_candidate es vmar reserved_children selected =
     (let next_mapping = iter_max (map (\<lambda>m. sat_add (mp_vaddr m) (mp_size_bytes m))
            (filter (\<lambda>m. mp_vm_space_id m = vr_vm_space_id vmar \<and> mp_vaddr m \<le> selected \<and>
               selected < sat_add (mp_vaddr m) (mp_size_bytes m)) es));
          next_child = iter_max (map (\<lambda>c. sat_add (vr_base c) (vr_size_bytes c))
            (filter (\<lambda>c. vr_base c \<le> selected \<and> selected < sat_add (vr_base c) (vr_size_bytes c)) reserved_children))
      in case iter_max (case_option [] (\<lambda>x. [x]) next_mapping @ case_option [] (\<lambda>x. [x]) next_child) of
           None \<Rightarrow> sat_add selected PAGE_SIZE
         | Some next \<Rightarrow> next)"

definition range_free :: "mapping_record list \<Rightarrow> vmar_record \<Rightarrow> vmar_record list \<Rightarrow> u64 \<Rightarrow> u64 \<Rightarrow> bool" where
  "range_free es vmar reserved_children size_bytes selected \<longleftrightarrow>
     \<not> overlaps_in_vm_space es (vr_vm_space_id vmar) selected size_bytes \<and>
     \<not> overlaps_child reserved_children selected size_bytes"

text \<open>
  The search loop. It returns a free address or, when a candidate leaves the
  region, no address. A loop that runs forever is the value \<open>None\<close> of the outer
  option; what \<open>allocate_vaddr_in_vmar\<close> returns then is left unspecified. That the
  loop ends is shown below.
\<close>

partial_function (option) allocate_vaddr_loop ::
    "mapping_record list \<Rightarrow> vmar_record \<Rightarrow> u64 \<Rightarrow> vmar_record list \<Rightarrow> u64 \<Rightarrow> u64 option option" where
  "allocate_vaddr_loop es vmar size_bytes children selected =
     (if contains_range vmar selected size_bytes
      then if range_free es vmar children size_bytes selected then Some (Some selected)
           else allocate_vaddr_loop es vmar size_bytes children
                  (align_up (next_candidate es vmar children selected) PAGE_SIZE)
      else Some None)"

definition first_candidate :: "mapping_table \<Rightarrow> vmar_record \<Rightarrow> u64" where
  "first_candidate t vmar =
     align_up (if vr_flags vmar AND VMAR_FLAG_COMPACT \<noteq> 0 then vr_base vmar else max (mt_next_vaddr t) (vr_base vmar)) PAGE_SIZE"

definition allocate_vaddr_in_vmar :: "vmar_record \<Rightarrow> u64 \<Rightarrow> vmar_record list \<Rightarrow> (mapping_table, u64) op" where
  "allocate_vaddr_in_vmar vmar size_bytes reserved_children t =
     (case the (allocate_vaddr_loop (mt_entries t) vmar size_bytes reserved_children (first_candidate t vmar)) of
        None \<Rightarrow> (t, Inl NoMemory)
      | Some selected \<Rightarrow> (t\<lparr> mt_next_vaddr := align_up (sat_add selected size_bytes) PAGE_SIZE \<rparr>, Inr selected))"

definition mapping_insert ::
    "service_site allocator \<Rightarrow> u64 \<Rightarrow> vmar_record \<Rightarrow> u64 \<Rightarrow> u64 \<Rightarrow> u64 \<Rightarrow> u64 \<Rightarrow> u32 \<Rightarrow> vmar_record list \<Rightarrow>
      (mapping_table, u64) op" where
  "mapping_insert al vm_space_id vmar vmo_id vmo_offset size_bytes requested_vaddr rights reserved_children =
     seq (if requested_vaddr = 0 then allocate_vaddr_in_vmar vmar size_bytes reserved_children else give requested_vaddr) (\<lambda>vaddr.
     seq (require (contains_range vmar vaddr size_bytes) InvalidArgs) (\<lambda>_.
     seq (require (\<not> overlaps_child reserved_children vaddr size_bytes) AlreadyExists) (\<lambda>_.
     seq (look (\<lambda>t. guard_or AlreadyExists (\<not> overlaps_in_vm_space (mt_entries t) vm_space_id vaddr size_bytes))) (\<lambda>_.
     seq (look (\<lambda>t. guard_or NoMemory (al SiteMappings (length (mt_entries t))))) (\<lambda>_.
     seq (change (\<lambda>t. t\<lparr> mt_entries := mt_entries t @ [\<lparr> mp_vm_space_id = vm_space_id, mp_vmar_id = vr_id vmar,
            mp_vmo_id = vmo_id, mp_vmo_offset = vmo_offset, mp_size_bytes = size_bytes, mp_vaddr = vaddr,
            mp_rights = rights \<rparr>] \<rparr>)) (\<lambda>_. give vaddr))))))"

definition mapping_remove_where :: "(mapping_record \<Rightarrow> bool) \<Rightarrow> mapping_table \<Rightarrow> mapping_table \<times> kernel_service_status" where
  "mapping_remove_where p t =
     (case position p (mt_entries t) of
        None \<Rightarrow> (t, InvalidHandle)
      | Some index \<Rightarrow> (t\<lparr> mt_entries := swap_remove index (mt_entries t) \<rparr>, Ok))"

definition mapping_remove :: "u64 \<Rightarrow> u64 \<Rightarrow> u64 \<Rightarrow> mapping_table \<Rightarrow> mapping_table \<times> kernel_service_status" where
  "mapping_remove vm_space_id vaddr size_bytes =
     mapping_remove_where (\<lambda>m. mp_vm_space_id m = vm_space_id \<and> mp_vaddr m = vaddr \<and> mp_size_bytes m = size_bytes)"

definition remove_in_vmar :: "u64 \<Rightarrow> u64 list \<Rightarrow> u64 \<Rightarrow> u64 \<Rightarrow> mapping_table \<Rightarrow> mapping_table \<times> kernel_service_status" where
  "remove_in_vmar vm_space_id vmar_ids vaddr size_bytes =
     mapping_remove_where (\<lambda>m. mp_vm_space_id m = vm_space_id \<and> mp_vmar_id m \<in> set vmar_ids \<and> mp_vaddr m = vaddr \<and>
       mp_size_bytes m = size_bytes)"

definition remove_for_vmo :: "u64 \<Rightarrow> mapping_table \<Rightarrow> mapping_table \<times> nat" where
  "remove_for_vmo vmo_id t =
     (let kept = filter (\<lambda>m. mp_vmo_id m \<noteq> vmo_id) (mt_entries t)
      in (t\<lparr> mt_entries := kept \<rparr>, length (mt_entries t) - length kept))"

definition remove_for_vmars :: "u64 list \<Rightarrow> mapping_table \<Rightarrow> mapping_table \<times> nat" where
  "remove_for_vmars vmar_ids t =
     (let kept = filter (\<lambda>m. mp_vmar_id m \<notin> set vmar_ids) (mt_entries t)
      in (t\<lparr> mt_entries := kept \<rparr>, length (mt_entries t) - length kept))"

function covers_loop :: "mapping_record list \<Rightarrow> u64 \<Rightarrow> u32 \<Rightarrow> u64 \<Rightarrow> u64 \<Rightarrow> bool" where
  "covers_loop es vm_space_id rights stop pos =
     (if pos < stop
      then case List.find (\<lambda>m. mp_vm_space_id m = vm_space_id \<and> mp_vaddr m \<le> pos \<and>
                  pos < sat_add (mp_vaddr m) (mp_size_bytes m) \<and> mp_rights m AND rights = rights) es of
             None \<Rightarrow> False
           | Some m \<Rightarrow> covers_loop es vm_space_id rights stop (min stop (sat_add (mp_vaddr m) (mp_size_bytes m)))
      else True)"
  by pat_completeness auto
termination covers_loop
  by (relation "measure (\<lambda>(_, _, _, stop, pos). unat stop - unat pos)")
    (auto simp: word_less_nat_alt min_def dest!: find_Some_in)

declare covers_loop.simps [simp del]

definition covers_range :: "mapping_table \<Rightarrow> u64 \<Rightarrow> u64 \<Rightarrow> u64 \<Rightarrow> u32 \<Rightarrow> bool" where
  "covers_range t vm_space_id vaddr size_bytes rights =
     (case checked_add vaddr size_bytes of
        None \<Rightarrow> False
      | Some stop \<Rightarrow> covers_loop (mt_entries t) vm_space_id rights stop vaddr)"

section \<open>The test of a range\<close>

text \<open>The addresses of a mapping; the end saturates, as in the code.\<close>

definition maps_address :: "u64 \<Rightarrow> u64 \<Rightarrow> mapping_record \<Rightarrow> bool" where
  "maps_address sp a m \<longleftrightarrow> mp_vm_space_id m = sp \<and> mp_vaddr m \<le> a \<and> a < sat_add (mp_vaddr m) (mp_size_bytes m)"

lemma covers_loop_iff:
  "covers_loop es sp r stop pos \<longleftrightarrow>
    (\<forall>a. pos \<le> a \<longrightarrow> a < stop \<longrightarrow> (\<exists>m\<in>set es. maps_address sp a m \<and> mp_rights m AND r = r))"
proof (induction es sp r stop pos rule: covers_loop.induct)
  case (1 es sp r stop pos)
  let ?p = "\<lambda>m. mp_vm_space_id m = sp \<and> mp_vaddr m \<le> pos \<and> pos < sat_add (mp_vaddr m) (mp_size_bytes m) \<and> mp_rights m AND r = r"
  show ?case
  proof (cases "pos < stop")
    case False
    then show ?thesis by (subst covers_loop.simps) auto
  next
    case True
    show ?thesis
    proof (cases "List.find ?p es")
      case None
      then have "\<not> (\<exists>m\<in>set es. maps_address sp pos m \<and> mp_rights m AND r = r)"
        by (auto simp: find_None_iff maps_address_def)
      with True None show ?thesis by (subst covers_loop.simps) auto
    next
      case (Some m)
      let ?q = "min stop (sat_add (mp_vaddr m) (mp_size_bytes m))"
      have m: "m \<in> set es" "?p m" using find_Some_in [OF Some] by auto
      have "covers_loop es sp r stop pos = covers_loop es sp r stop ?q"
        using True Some by (subst covers_loop.simps) simp
      moreover have "maps_address sp a m" if "pos \<le> a" "a < stop" "\<not> ?q \<le> a" for a
        using m(2) that by (auto simp: maps_address_def min_le_iff_disj)
      moreover have "pos \<le> ?q" using True m(2) by auto
      ultimately show ?thesis using 1 [OF True Some] m by (meson order_trans)
    qed
  qed
qed

text \<open>
  C35. \<open>covers_range\<close> decides coverage. It returns true exactly when the range does
  not run past the top of the address space and every address in it lies in
  a mapping of the space that has all the rights asked for.
\<close>

theorem covers_range_iff:
  "covers_range t sp vaddr n r \<longleftrightarrow> unat vaddr + unat n < 2 ^ 64 \<and>
    {a. unat vaddr \<le> unat a \<and> unat a < unat vaddr + unat n} \<subseteq>
      (\<Union>m\<in>{m \<in> set (mt_entries t). mp_vm_space_id m = sp \<and> mp_rights m AND r = r}.
        {mp_vaddr m ..< sat_add (mp_vaddr m) (mp_size_bytes m)})"
proof (cases "checked_add vaddr n")
  case None
  then have "2 ^ 64 \<le> unat vaddr + unat n" by (simp add: checked_add_None)
  with None show ?thesis by (simp add: covers_range_def)
next
  case (Some stop)
  then have s: "unat stop = unat vaddr + unat n" by (simp add: checked_add_Some)
  then have "{a. unat vaddr \<le> unat a \<and> unat a < unat vaddr + unat n} = {vaddr ..< stop}"
    by (auto simp: word_le_nat_alt word_less_nat_alt)
  moreover have "unat stop < 2 ^ LENGTH(64)" by (rule unsigned_less)
  moreover have "covers_range t sp vaddr n r = covers_loop (mt_entries t) sp r stop vaddr"
    by (simp add: covers_range_def Some)
  ultimately show ?thesis using s by (auto simp: covers_loop_iff maps_address_def) blast+
qed

section \<open>The search is first fit\<close>

definition fits :: "mapping_record list \<Rightarrow> vmar_record \<Rightarrow> u64 \<Rightarrow> vmar_record list \<Rightarrow> u64 \<Rightarrow> bool" where
  "fits es v n cs a \<longleftrightarrow> page_aligned a \<and> contains_range v a n \<and> range_free es v cs n a"

lemma page_aligned_0 [simp]: "page_aligned 0"
  by (simp add: page_aligned_def)

lemma page_aligned_top: "page_aligned w \<Longrightarrow> unat w + 4096 \<le> 2 ^ 64"
proof -
  assume "page_aligned w"
  then obtain k where k: "unat w = 4096 * k" by (auto simp: page_aligned_def)
  moreover have "unat w < 2 ^ LENGTH(64)" by (rule unsigned_less)
  ultimately have "k < 2 ^ 52" by simp
  with k show ?thesis by simp
qed

lemma align_up_wraps:
  assumes "2 ^ 64 \<le> unat w + 4095"
  shows "align_up w PAGE_SIZE = 0"
proof -
  have "unat w < 2 ^ LENGTH(64)" by (rule unsigned_less)
  then have "unat (w + 4095) < 4096" using assms by (simp add: unat_word_ariths mod_if) arith
  moreover have e: "w + PAGE_SIZE - 1 = w + 4095" by (simp add: PAGE_SIZE_def)
  ultimately have "unat (align_up w PAGE_SIZE) = 0" unfolding align_up_def align_down_page e by simp
  then show ?thesis by (simp add: unat_eq_0)
qed

lemma align_up_least:
  assumes "unat w + 4095 < 2 ^ 64"
  shows "w \<le> align_up w PAGE_SIZE" "page_aligned (align_up w PAGE_SIZE)"
    "page_aligned b \<Longrightarrow> w \<le> b \<Longrightarrow> align_up w PAGE_SIZE \<le> b"
proof -
  note e = align_up_page [OF assms]
  show "w \<le> align_up w PAGE_SIZE" "page_aligned (align_up w PAGE_SIZE)"
    unfolding word_le_nat_alt page_aligned_def e by (simp_all; linarith)+
  show "page_aligned b \<Longrightarrow> w \<le> b \<Longrightarrow> align_up w PAGE_SIZE \<le> b"
  proof -
    assume "page_aligned b" "w \<le> b"
    then obtain k where k: "unat b = 4096 * k" "unat w \<le> 4096 * k" by (auto simp: page_aligned_def word_le_nat_alt)
    then have "(unat w + 4095) div 4096 \<le> k" by linarith
    with k show ?thesis unfolding word_le_nat_alt e by simp
  qed
qed

lemma iter_max_None [simp]: "iter_max xs = None \<longleftrightarrow> xs = []"
  by (simp add: iter_max_eq)

lemma iter_max_in: "iter_max xs = Some x \<Longrightarrow> x \<in> set xs"
  by (auto simp: iter_max_eq split: if_splits)

text \<open>A range that starts inside a taken range meets it.\<close>

lemma inside_overlaps:
  assumes "b \<le> a" and "a < sat_add b m" and "n \<noteq> 0"
  shows "ranges_overlap b m a n"
proof -
  have "unat a < 2 ^ 64 - 1" using assms(2) by (simp add: word_less_nat_alt unat_sat_add)
  moreover have "0 < unat n" using assms(3) by (simp add: unat_gt_0)
  ultimately have "a < sat_add a n" by (simp add: word_less_nat_alt unat_sat_add)
  with assms(1) have "b < sat_add a n" by (rule le_less_trans)
  with assms(2) show ?thesis by (simp add: ranges_overlap_def Let_def)
qed

lemma next_candidate_cases:
  obtains m where "m \<in> set es" "mp_vm_space_id m = vr_vm_space_id v" "mp_vaddr m \<le> s" "s < next_candidate es v cs s"
      "next_candidate es v cs s = sat_add (mp_vaddr m) (mp_size_bytes m)"
  | c where "c \<in> set cs" "vr_base c \<le> s" "s < next_candidate es v cs s"
      "next_candidate es v cs s = sat_add (vr_base c) (vr_size_bytes c)"
  | "next_candidate es v cs s = sat_add s PAGE_SIZE"
proof -
  define M where "M = iter_max (map (\<lambda>m. sat_add (mp_vaddr m) (mp_size_bytes m))
    (filter (\<lambda>m. mp_vm_space_id m = vr_vm_space_id v \<and> mp_vaddr m \<le> s \<and> s < sat_add (mp_vaddr m) (mp_size_bytes m)) es))"
  define C where "C = iter_max (map (\<lambda>c. sat_add (vr_base c) (vr_size_bytes c))
    (filter (\<lambda>c. vr_base c \<le> s \<and> s < sat_add (vr_base c) (vr_size_bytes c)) cs))"
  let ?l = "case_option [] (\<lambda>x. [x]) M @ case_option [] (\<lambda>x. [x]) C"
  have e: "next_candidate es v cs s = (case iter_max ?l of None \<Rightarrow> sat_add s PAGE_SIZE | Some next \<Rightarrow> next)"
    by (simp add: next_candidate_def M_def C_def)
  show thesis
  proof (cases "iter_max ?l")
    case None
    with e that(3) show ?thesis by simp
  next
    case (Some x)
    then consider "M = Some x" | "C = Some x" using iter_max_in [OF Some] by (auto split: option.splits)
    then show ?thesis
    proof cases
      case 1
      with e Some that(1) show ?thesis by (auto simp: M_def dest!: iter_max_in)
    next
      case 2
      with e Some that(2) show ?thesis by (auto simp: C_def dest!: iter_max_in)
    qed
  qed
qed

lemma next_candidate_skips:
  assumes taken: "\<not> range_free es v cs n s" and n: "n \<noteq> 0" and al: "page_aligned s"
  shows "s < next_candidate es v cs s" and "s \<le> b \<Longrightarrow> b < next_candidate es v cs s \<Longrightarrow> \<not> fits es v n cs b"
proof -
  let ?c = "next_candidate es v cs s"
  have "s < ?c \<and> (s \<le> b \<longrightarrow> b < ?c \<longrightarrow> \<not> fits es v n cs b)"
  proof (cases rule: next_candidate_cases [of es v s cs])
    case (1 m)
    then have "s \<le> b \<Longrightarrow> b < ?c \<Longrightarrow> overlaps_in_vm_space es (vr_vm_space_id v) b n"
      using inside_overlaps [OF _ _ n, of "mp_vaddr m" b] order_trans by (fastforce simp: overlaps_in_vm_space_def list_ex_iff)
    with 1 show ?thesis by (auto simp: fits_def range_free_def)
  next
    case (2 c)
    then have "s \<le> b \<Longrightarrow> b < ?c \<Longrightarrow> overlaps_child cs b n"
      using inside_overlaps [OF _ _ n, of "vr_base c" b] order_trans by (fastforce simp: overlaps_child_def list_ex_iff)
    with 2 show ?thesis by (auto simp: fits_def range_free_def)
  next
    case 3
    note top = page_aligned_top [OF al]
    have "s < ?c" "unat ?c \<le> unat s + 4096" unfolding 3 using top
      by (simp_all add: word_less_nat_alt unat_sat_add PAGE_SIZE_def)
    moreover have "b = s" if "s \<le> b" "unat b < unat s + 4096" "page_aligned b"
      using that al by (auto simp: page_aligned_def word_le_nat_alt word_unat_eq_iff elim!: dvdE)
    ultimately show ?thesis using taken by (auto simp: fits_def word_less_nat_alt)
  qed
  then show "s < ?c" "s \<le> b \<Longrightarrow> b < ?c \<Longrightarrow> \<not> fits es v n cs b" by auto
qed

text \<open>
  Each turn moves up by a page at least, so the loop stops, at the lowest fitting
  page if there is one.
\<close>

lemma allocate_vaddr_loop_first_fit:
  assumes v: "vmar_end v < 2 ^ 64" "0 < vr_base v" and n: "n \<noteq> 0"
  shows "page_aligned s \<Longrightarrow> vr_base v \<le> s \<Longrightarrow> 2 ^ 64 \<le> unat s + turns \<Longrightarrow>
    (case allocate_vaddr_loop es v n cs s of
       None \<Rightarrow> False
     | Some None \<Rightarrow> \<forall>b\<ge>s. \<not> fits es v n cs b
     | Some (Some a) \<Rightarrow> s \<le> a \<and> fits es v n cs a \<and> (\<forall>b\<ge>s. b < a \<longrightarrow> \<not> fits es v n cs b))"
proof (induction turns arbitrary: s)
  case 0
  then show ?case using unsigned_less [of s, where 'a = nat] by simp
next
  case (Suc turns)
  note loop = allocate_vaddr_loop.simps [of es v n cs s]
  let ?c = "next_candidate es v cs s"
  consider "\<not> contains_range v s n" | "contains_range v s n" "range_free es v cs n s"
    | "contains_range v s n" "\<not> range_free es v cs n s" by blast
  then show ?case
  proof cases
    case 1
    then have "\<not> contains_range v b n" if "s \<le> b" for b
      using that Suc.prems(2) by (auto simp: contains_range_nat [OF v(1)] word_le_nat_alt)
    with 1 show ?thesis unfolding loop by (simp add: fits_def)
  next
    case 2
    with Suc.prems(1) show ?thesis unfolding loop by (auto simp: fits_def)
  next
    case 3
    note c = next_candidate_skips [OF 3(2) n Suc.prems(1)]
    have run: "allocate_vaddr_loop es v n cs s = allocate_vaddr_loop es v n cs (align_up ?c PAGE_SIZE)"
      using 3 loop by simp
    show ?thesis
    proof (cases "unat ?c + 4095 < 2 ^ 64")
      case True
      note a = align_up_least [OF True]
      have lt: "s < align_up ?c PAGE_SIZE" using c(1) a(1) by (rule less_le_trans)
      have none: "\<not> fits es v n cs b" if "s \<le> b" "b < align_up ?c PAGE_SIZE" for b
      proof
        assume "fits es v n cs b"
        with that c(2) [of b] have "?c \<le> b" "page_aligned b" by (auto simp: fits_def simp flip: not_less)
        with a(3) [of b] that(2) show False by simp
      qed
      have "vr_base v \<le> align_up ?c PAGE_SIZE" "2 ^ 64 \<le> unat (align_up ?c PAGE_SIZE) + turns"
        using Suc.prems(2,3) lt by (auto simp: word_less_nat_alt word_le_nat_alt)
      from Suc.IH [OF a(2) this] none lt show ?thesis
        unfolding run by (auto split: option.splits) (meson not_less order_trans less_imp_le)+
    next
      case False
      then have "align_up ?c PAGE_SIZE = 0" by (intro align_up_wraps) simp
      then have "allocate_vaddr_loop es v n cs s = Some None"
        unfolding run using v(2) allocate_vaddr_loop.simps [of es v n cs 0]
        by (auto simp: contains_range_nat [OF v(1)])
      moreover have "\<not> fits es v n cs b" if "s \<le> b" for b
      proof (cases "b < ?c")
        case False
        with \<open>\<not> unat ?c + 4095 < 2 ^ 64\<close> page_aligned_top [of b] show ?thesis
          by (auto simp: fits_def word_less_nat_alt)
      qed (use that c(2) in auto)
      ultimately show ?thesis by simp
    qed
  qed
qed

text \<open>
  C36. The search for a free range ends and is a complete first fit. The region starts
  above address 0, it and the start of the next search stay a page below the top of
  the address space, and the size asked for is not 0. Then the loop of
  \<open>allocate_vaddr_in_vmar\<close> returns, with the
  lowest page-aligned address, from its starting point on, at which a range of the size
  asked for lies in the region and meets neither a mapping of the space nor a
  reserved child region; it fails, leaving the table alone, exactly when there is
  none.
\<close>

theorem allocate_vaddr_first_fit:
  assumes "vmar_end v + 4095 < 2 ^ 64" and "0 < vr_base v" and "n \<noteq> 0" and "unat (mt_next_vaddr t) + 4095 < 2 ^ 64"
  shows "(\<exists>r. allocate_vaddr_loop (mt_entries t) v n cs (first_candidate t v) = Some r) \<and>
    (case allocate_vaddr_in_vmar v n cs t of
      (t', Inl e) \<Rightarrow> t' = t \<and> e = NoMemory \<and> (\<nexists>a. first_candidate t v \<le> a \<and> fits (mt_entries t) v n cs a)
    | (t', Inr a) \<Rightarrow> mt_entries t' = mt_entries t \<and> first_candidate t v \<le> a \<and> fits (mt_entries t) v n cs a \<and>
        (\<nexists>b. first_candidate t v \<le> b \<and> b < a \<and> fits (mt_entries t) v n cs b))"
proof -
  let ?s = "if vr_flags v AND VMAR_FLAG_COMPACT \<noteq> 0 then vr_base v else max (mt_next_vaddr t) (vr_base v)"
  have b: "unat (vr_base v) + 4095 < 2 ^ 64" using assms(1) by (simp add: vmar_end_def)
  then have "unat ?s + 4095 < 2 ^ 64" using assms(4) by (simp add: max_def)
  note a = align_up_least [OF this]
  have "vr_base v \<le> first_candidate t v" unfolding first_candidate_def using a(1) by (rule order_trans [rotated]) simp
  moreover have "page_aligned (first_candidate t v)" unfolding first_candidate_def by (rule a(2))
  ultimately show ?thesis
    using allocate_vaddr_loop_first_fit [of v n "first_candidate t v" "2 ^ 64" "mt_entries t" cs] assms(1,2,3)
    unfolding allocate_vaddr_in_vmar_def by (auto split: option.splits)
qed

text \<open>A region of three pages whose first page is mapped.\<close>

definition region_example :: vmar_record where
  "region_example = \<lparr> vr_id = 1, vr_vm_space_id = 7, vr_parent_vmar_id = None, vr_base = 0x1000, vr_size_bytes = 0x3000,
     vr_flags = VMAR_FLAG_COMPACT, vr_destroyed = False \<rparr>"

definition mapping_example :: mapping_table where
  "mapping_example = \<lparr> mt_entries = [\<lparr> mp_vm_space_id = 7, mp_vmar_id = 1, mp_vmo_id = 1, mp_vmo_offset = 0,
     mp_size_bytes = 0x1000, mp_vaddr = 0x1000, mp_rights = RIGHT_READ \<rparr>], mt_next_vaddr = 0x1000 \<rparr>"

lemmas mapping_eval = region_example_def mapping_example_def first_candidate_def contains_range_def
  checked_add_def sat_add_def align_up_def align_down_def PAGE_SIZE_def range_free_def overlaps_in_vm_space_def ranges_overlap_def
  overlaps_child_def next_candidate_def iter_max_def VMAR_FLAG_COMPACT_def vmar_end_def

lemma mapping_example_search:
  "allocate_vaddr_loop (mt_entries mapping_example) region_example 0x1000 [] (first_candidate mapping_example region_example)
    = Some (Some 0x2000)"
  by (subst allocate_vaddr_loop.simps, subst allocate_vaddr_loop.simps) (simp add: mapping_eval)

theorem allocate_vaddr_first_fit_witness:
  "snd (allocate_vaddr_in_vmar region_example 0x1000 [] mapping_example) = Inr 0x2000 \<and>
   fits (mt_entries mapping_example) region_example 0x1000 [] 0x2000 \<and>
   (\<nexists>b. first_candidate mapping_example region_example \<le> b \<and> b < 0x2000 \<and>
     fits (mt_entries mapping_example) region_example 0x1000 [] b)"
proof -
  have "vmar_end region_example + 4095 < 2 ^ 64" "0 < vr_base region_example" "(0x1000 :: u64) \<noteq> 0"
    "unat (mt_next_vaddr mapping_example) + 4095 < 2 ^ 64" by (simp_all add: mapping_eval)
  from allocate_vaddr_first_fit [OF this, of "[]"] show ?thesis
    unfolding allocate_vaddr_in_vmar_def mapping_example_search by simp
qed

section \<open>An address is mapped at most once\<close>

definition mappings_ok :: "mapping_table \<Rightarrow> bool" where
  "mappings_ok t \<longleftrightarrow> (\<forall>sp a. length (filter (maps_address sp a) (mt_entries t)) \<le> 1)"

lemma mappings_ok_sub:
  assumes "mappings_ok t" and "mset (mt_entries t') \<subseteq># mset (mt_entries t)"
  shows "mappings_ok t'"
proof -
  have "length (filter p (mt_entries t')) \<le> length (filter p (mt_entries t))" for p
    using size_mset_mono [OF multiset_filter_mono [OF assms(2), of p]] by (simp flip: mset_filter)
  with assms(1) show ?thesis unfolding mappings_ok_def by (meson order_trans)
qed

lemma mset_filter_sub: "mset (filter p xs) \<subseteq># mset xs"
  by (simp add: mset_filter multiset_filter_subset)

lemma mapping_remove_where_sub: "mset (mt_entries (fst (mapping_remove_where p t))) \<subseteq># mset (mt_entries t)"
  by (auto simp: mapping_remove_where_def mset_swap_remove position_Some split: option.split)

lemma mapping_removes_sub:
  "mset (mt_entries (fst (remove_for_vmo i t))) \<subseteq># mset (mt_entries t)"
  "mset (mt_entries (fst (remove_for_vmars is t))) \<subseteq># mset (mt_entries t)"
  by (simp_all add: remove_for_vmo_def remove_for_vmars_def Let_def mset_filter_sub)

lemma maps_address_overlap:
  "maps_address sp a m \<Longrightarrow> b \<le> a \<Longrightarrow> a < sat_add b n \<Longrightarrow> ranges_overlap (mp_vaddr m) (mp_size_bytes m) b n"
  by (auto simp: maps_address_def ranges_overlap_def Let_def intro: le_less_trans)

text \<open>The outcomes of an insertion; a failed one may still have moved the start of the next search.\<close>

lemma mapping_insert_cases:
  assumes "mapping_insert al sp v vmo off n va r cs t = (t', res)"
  obtains e where "res = Inl e" "mt_entries t' = mt_entries t"
  | a m where "res = Inr a" "mt_entries t' = mt_entries t @ [m]" "m = \<lparr> mp_vm_space_id = sp, mp_vmar_id = vr_id v,
      mp_vmo_id = vmo, mp_vmo_offset = off, mp_size_bytes = n, mp_vaddr = a, mp_rights = r \<rparr>"
      "contains_range v a n" "\<not> overlaps_child cs a n" "\<not> overlaps_in_vm_space (mt_entries t) sp a n"
proof -
  let ?m = "if va = 0 then allocate_vaddr_in_vmar v n cs else give va"
  obtain t1 r1 where a: "?m t = (t1, r1)" by fastforce
  then have t1: "mt_entries t1 = mt_entries t"
    by (auto simp: allocate_vaddr_in_vmar_def op_run split: if_splits option.splits)
  show thesis
  proof (cases r1)
    case (Inl e)
    with a assms t1 that(1) show ?thesis by (auto simp: mapping_insert_def seq_def)
  next
    case (Inr x)
    have "mapping_insert al sp v vmo off n va r cs t =
      (if \<not> contains_range v x n then (t1, Inl InvalidArgs)
       else if overlaps_child cs x n then (t1, Inl AlreadyExists)
       else if overlaps_in_vm_space (mt_entries t1) sp x n then (t1, Inl AlreadyExists)
       else if \<not> al SiteMappings (length (mt_entries t1)) then (t1, Inl NoMemory)
       else (t1\<lparr> mt_entries := mt_entries t1 @ [\<lparr> mp_vm_space_id = sp, mp_vmar_id = vr_id v, mp_vmo_id = vmo,
         mp_vmo_offset = off, mp_size_bytes = n, mp_vaddr = x, mp_rights = r \<rparr>] \<rparr>, Inr x))"
      unfolding mapping_insert_def using a Inr by (simp add: seq_def op_run require_run guard_or_def)
    with assms t1 that show ?thesis by (auto split: if_splits)
  qed
qed

lemma mappings_ok_insert: "mappings_ok t \<Longrightarrow> mappings_ok (fst (mapping_insert al sp v vmo off n va r cs t))"
proof (cases "mapping_insert al sp v vmo off n va r cs t")
  case (Pair t' res)
  assume ok: "mappings_ok t"
  from Pair show ?thesis
  proof (cases rule: mapping_insert_cases)
    case (1 e)
    with Pair ok show ?thesis by (simp add: mappings_ok_def)
  next
    case (2 a m)
    have "filter (maps_address sp' b) (mt_entries t) = []" if "maps_address sp' b m" for sp' b
      using that 2 maps_address_overlap [of sp' b _ a n]
      by (auto simp: filter_empty_conv overlaps_in_vm_space_def list_ex_iff maps_address_def)
    with 2 Pair ok show ?thesis by (auto simp: mappings_ok_def)
  qed
qed

end
