(* ===== verification/Resource_Groups.thy ===== *)
theory Resource_Groups
  imports Service_Base
begin

text \<open>
  Resource groups (\<open>ResourceGroupTable\<close> of \<open>kernel_services/system.rs\<close>): a tree of
  groups with memory and graphics budgets. Memory and graphics reservations
  are charged to a group and to every group above it, after all of them
  have been checked.
\<close>

section \<open>The table\<close>

definition RESOURCE_GROUP_SYSTEM :: u32 where "RESOURCE_GROUP_SYSTEM = 1"
definition RESOURCE_GROUP_FOREGROUND :: u32 where "RESOURCE_GROUP_FOREGROUND = 2"
definition RESOURCE_GROUP_BACKGROUND :: u32 where "RESOURCE_GROUP_BACKGROUND = 3"
definition RESOURCE_GROUP_DRIVER :: u32 where "RESOURCE_GROUP_DRIVER = 4"

lemmas resource_group_ids = RESOURCE_GROUP_SYSTEM_def RESOURCE_GROUP_FOREGROUND_def RESOURCE_GROUP_BACKGROUND_def
  RESOURCE_GROUP_DRIVER_def

text \<open>A name in an array of fixed size, padded with zeros.\<close>

definition stored :: "nat \<Rightarrow> u8 list \<Rightarrow> u8 list" where
  "stored n name = name @ replicate (n - length name) 0"

record resource_group_record =
  gp_id :: u32
  gp_parent_id :: "u32 option"
  gp_name :: "u8 list"
  gp_name_len :: nat
  gp_cpu_shares :: u32
  gp_memory_limit_pages :: u64
  gp_max_cpu_utilization_permille :: u16
  gp_allow_realtime :: bool
  gp_memory_low_watermark_bytes :: u64
  gp_memory_high_watermark_bytes :: u64
  gp_memory_used_bytes :: u64
  gp_max_render_budget_percent :: u8
  gp_max_vram_bytes :: u64
  gp_reserved_render_budget_percent :: u8
  gp_reserved_vram_bytes :: u64

record gpu_reservation_record =
  gr_id :: u64
  gr_group_id :: u32
  gr_render_budget_percent :: u8
  gr_vram_bytes :: u64

record resource_group_table =
  gt_entries :: "resource_group_record list"
  gt_next_resource_group_id :: u32
  gt_reservations :: "gpu_reservation_record list"
  gt_next_reservation_id :: u64

definition resource_group_table_new :: resource_group_table where
  "resource_group_table_new = \<lparr> gt_entries = [], gt_next_resource_group_id = RESOURCE_GROUP_DRIVER + 1,
     gt_reservations = [], gt_next_reservation_id = 1 \<rparr>"

definition default_group :: "u32 \<Rightarrow> u32 option \<Rightarrow> u8 list \<Rightarrow> nat \<Rightarrow> u32 \<Rightarrow> u16 \<Rightarrow> bool \<Rightarrow> resource_group_record" where
  "default_group i parent name name_len shares permille realtime =
     \<lparr> gp_id = i, gp_parent_id = parent, gp_name = name, gp_name_len = name_len, gp_cpu_shares = shares,
       gp_memory_limit_pages = 0, gp_max_cpu_utilization_permille = permille, gp_allow_realtime = realtime,
       gp_memory_low_watermark_bytes = 0, gp_memory_high_watermark_bytes = 0, gp_memory_used_bytes = 0,
       gp_max_render_budget_percent = 0, gp_max_vram_bytes = 0, gp_reserved_render_budget_percent = 0,
       gp_reserved_vram_bytes = 0 \<rparr>"

definition SYSTEM_NAME :: "u8 list" where "SYSTEM_NAME = stored 24 [0x73, 0x79, 0x73, 0x74, 0x65, 0x6d]"
definition FOREGROUND_NAME :: "u8 list" where
  "FOREGROUND_NAME = stored 24 [0x66, 0x6f, 0x72, 0x65, 0x67, 0x72, 0x6f, 0x75, 0x6e, 0x64]"
definition BACKGROUND_NAME :: "u8 list" where
  "BACKGROUND_NAME = stored 24 [0x62, 0x61, 0x63, 0x6b, 0x67, 0x72, 0x6f, 0x75, 0x6e, 0x64]"
definition DRIVER_NAME :: "u8 list" where "DRIVER_NAME = stored 24 [0x64, 0x72, 0x69, 0x76, 0x65, 0x72]"

definition with_defaults :: resource_group_table where
  "with_defaults = \<lparr> gt_entries =
     [default_group RESOURCE_GROUP_SYSTEM None SYSTEM_NAME 6 2048 1000 True,
      default_group RESOURCE_GROUP_FOREGROUND (Some RESOURCE_GROUP_SYSTEM) FOREGROUND_NAME 10 1024 0 True,
      default_group RESOURCE_GROUP_BACKGROUND (Some RESOURCE_GROUP_SYSTEM) BACKGROUND_NAME 10 256 0 False,
      default_group RESOURCE_GROUP_DRIVER (Some RESOURCE_GROUP_SYSTEM) DRIVER_NAME 6 1536 0 True],
     gt_next_resource_group_id = RESOURCE_GROUP_DRIVER + 1, gt_reservations = [], gt_next_reservation_id = 1 \<rparr>"

definition group_get :: "resource_group_table \<Rightarrow> u32 \<Rightarrow> resource_group_record option" where
  "group_get t i = List.find (\<lambda>g. gp_id g = i) (gt_entries t)"

definition group_named :: "u8 list \<Rightarrow> resource_group_record \<Rightarrow> bool" where
  "group_named name g \<longleftrightarrow> gp_name_len g = length name \<and> take (gp_name_len g) (gp_name g) = name"

definition get_by_name :: "resource_group_table \<Rightarrow> u8 list \<Rightarrow> resource_group_record option" where
  "get_by_name t name = List.find (group_named name) (gt_entries t)"

definition group_insert ::
    "service_site allocator \<Rightarrow> u32 \<Rightarrow> u8 list \<Rightarrow> u32 \<Rightarrow> u64 \<Rightarrow> (resource_group_table, unit) op" where
  "group_insert al i name cpu_shares memory_limit_pages =
     seq (require (\<not> (i = 0 \<or> name = [] \<or> length name > 24 \<or> cpu_shares = 0)) InvalidArgs) (\<lambda>_.
     seq (look (\<lambda>t. guard_or AlreadyExists (\<not> list_ex (group_named name) (gt_entries t)))) (\<lambda>_.
     seq (look (\<lambda>t. guard_or AlreadyExists (\<not> list_ex (\<lambda>g. gp_id g = i) (gt_entries t)))) (\<lambda>_.
     seq (look (\<lambda>t. guard_or NoMemory (al SiteGroups (length (gt_entries t))))) (\<lambda>_.
     change (\<lambda>t. t\<lparr> gt_entries := gt_entries t @
       [\<lparr> gp_id = i, gp_parent_id = Some RESOURCE_GROUP_FOREGROUND, gp_name = stored 24 name, gp_name_len = length name,
          gp_cpu_shares = cpu_shares, gp_memory_limit_pages = memory_limit_pages,
          gp_max_cpu_utilization_permille = 0, gp_allow_realtime = False, gp_memory_low_watermark_bytes = 0,
          gp_memory_high_watermark_bytes = sat_mul memory_limit_pages 4096, gp_memory_used_bytes = 0,
          gp_max_render_budget_percent = 0, gp_max_vram_bytes = 0, gp_reserved_render_budget_percent = 0,
          gp_reserved_vram_bytes = 0 \<rparr>] \<rparr>)))))"

definition take_group_id :: "(resource_group_table, u32) op" where
  "take_group_id t = (t\<lparr> gt_next_resource_group_id := sat_add (gt_next_resource_group_id t) 1 \<rparr>,
     Inr (gt_next_resource_group_id t))"

definition group_create ::
    "service_site allocator \<Rightarrow> u8 list \<Rightarrow> u32 \<Rightarrow> u64 \<Rightarrow> (resource_group_table, resource_group_record) op" where
  "group_create al name cpu_shares memory_limit_pages =
     seq take_group_id (\<lambda>i.
     seq (group_insert al i name cpu_shares memory_limit_pages) (\<lambda>_.
     look (\<lambda>t. ok_or InvalidHandle (group_get t i))))"

text \<open>The limits that the second version of the protocol sets.\<close>

record group_limits =
  gl_cpu_shares :: u32
  gl_max_cpu_utilization_permille :: u16
  gl_allow_realtime :: bool
  gl_memory_low_watermark_bytes :: u64
  gl_memory_high_watermark_bytes :: u64
  gl_max_render_budget_percent :: u8
  gl_max_vram_bytes :: u64

definition limits_invalid :: "group_limits \<Rightarrow> bool" where
  "limits_invalid l \<longleftrightarrow> gl_cpu_shares l = 0 \<or> gl_max_cpu_utilization_permille l > 1000 \<or>
     gl_max_render_budget_percent l > 100 \<or>
     gl_memory_high_watermark_bytes l \<noteq> 0 \<and> gl_memory_low_watermark_bytes l > gl_memory_high_watermark_bytes l"

definition apply_limits :: "group_limits \<Rightarrow> resource_group_record \<Rightarrow> resource_group_record" where
  "apply_limits l g = g\<lparr> gp_cpu_shares := gl_cpu_shares l,
     gp_max_cpu_utilization_permille := gl_max_cpu_utilization_permille l, gp_allow_realtime := gl_allow_realtime l,
     gp_memory_low_watermark_bytes := gl_memory_low_watermark_bytes l,
     gp_memory_high_watermark_bytes := gl_memory_high_watermark_bytes l,
     gp_max_render_budget_percent := gl_max_render_budget_percent l, gp_max_vram_bytes := gl_max_vram_bytes l \<rparr>"

definition create_v2 ::
    "service_site allocator \<Rightarrow> u8 list \<Rightarrow> u32 option \<Rightarrow> group_limits \<Rightarrow> (resource_group_table, resource_group_record) op" where
  "create_v2 al name parent_id l =
     seq (look (\<lambda>t. guard_or InvalidArgs (\<not> (limits_invalid l \<or>
            (case parent_id of None \<Rightarrow> False | Some i \<Rightarrow> group_get t i = None))))) (\<lambda>_.
     seq take_group_id (\<lambda>i.
     seq (group_insert al i name (gl_cpu_shares l) 0) (\<lambda>_.
     seq (look (\<lambda>t. guard_or NoMemory (gt_entries t \<noteq> []))) (\<lambda>_.
     seq (look (\<lambda>t. Inr ((apply_limits l (last (gt_entries t)))\<lparr>
            gp_parent_id := (case parent_id of None \<Rightarrow> Some RESOURCE_GROUP_FOREGROUND | Some p \<Rightarrow> Some p) \<rparr>))) (\<lambda>g.
     seq (change (\<lambda>t. t\<lparr> gt_entries := butlast (gt_entries t) @ [g] \<rparr>)) (\<lambda>_. give g))))))"

definition group_update ::
    "u32 \<Rightarrow> (resource_group_record \<Rightarrow> resource_group_record) \<Rightarrow> (resource_group_table, resource_group_record) op" where
  "group_update i f =
     seq (look (\<lambda>t. ok_or InvalidHandle (group_get t i))) (\<lambda>g.
     seq (change (\<lambda>t. t\<lparr> gt_entries := upd_first (\<lambda>g. gp_id g = i) f (gt_entries t) \<rparr>)) (\<lambda>_. give (f g)))"

definition set_limits :: "u32 \<Rightarrow> u32 \<Rightarrow> u64 \<Rightarrow> (resource_group_table, resource_group_record) op" where
  "set_limits i cpu_shares memory_limit_pages =
     seq (require (cpu_shares \<noteq> 0) InvalidArgs) (\<lambda>_.
     group_update i (\<lambda>g. g\<lparr> gp_cpu_shares := cpu_shares, gp_memory_limit_pages := memory_limit_pages \<rparr>))"

definition set_limits_v2 :: "u32 \<Rightarrow> group_limits \<Rightarrow> (resource_group_table, resource_group_record) op" where
  "set_limits_v2 i l = seq (require (\<not> limits_invalid l) InvalidArgs) (\<lambda>_. group_update i (apply_limits l))"

section \<open>Walks towards the root\<close>

text \<open>
  The loops \<open>while let Some(id) = ancestor\<close> of the budget operations. One checks
  each group on the way and one updates it. A cycle of parents would keep them
  running forever, which is the value \<open>None\<close>; what an operation returns then is left
  unspecified. In a table without cycles both return
  (\<open>check_walk_returns\<close> and \<open>update_walk_returns\<close> below).
\<close>

partial_function (option) check_walk ::
    "(resource_group_record \<Rightarrow> bool) \<Rightarrow> resource_group_record list \<Rightarrow> u32 option \<Rightarrow> (kernel_service_status + unit) option" where
  "check_walk ok es ancestor =
     (case ancestor of
        None \<Rightarrow> Some (Inr ())
      | Some i \<Rightarrow>
          (case List.find (\<lambda>g. gp_id g = i) es of
             None \<Rightarrow> Some (Inl InvalidHandle)
           | Some g \<Rightarrow> if ok g then check_walk ok es (gp_parent_id g) else Some (Inl ResourceExhausted)))"

partial_function (option) update_walk ::
    "(resource_group_record \<Rightarrow> resource_group_record) \<Rightarrow> u32 option \<Rightarrow> resource_group_record list \<Rightarrow>
      (resource_group_record list \<times> (kernel_service_status + unit)) option" where
  "update_walk f ancestor es =
     (case ancestor of
        None \<Rightarrow> Some (es, Inr ())
      | Some i \<Rightarrow>
          (case List.find (\<lambda>g. gp_id g = i) es of
             None \<Rightarrow> Some (es, Inl InvalidHandle)
           | Some g \<Rightarrow> update_walk f (gp_parent_id g) (upd_first (\<lambda>g. gp_id g = i) f es)))"

definition check_groups :: "(resource_group_record \<Rightarrow> bool) \<Rightarrow> u32 \<Rightarrow> (resource_group_table, unit) op" where
  "check_groups ok i = look (\<lambda>t. the (check_walk ok (gt_entries t) (Some i)))"

definition update_groups :: "(resource_group_record \<Rightarrow> resource_group_record) \<Rightarrow> u32 \<Rightarrow> (resource_group_table, unit) op" where
  "update_groups f i = within gt_entries (\<lambda>es t. t\<lparr> gt_entries := es \<rparr>)
     (\<lambda>es. the (update_walk f (Some i) es))"

lemma check_walk_at [simp]:
  "check_walk ok es None = Some (Inr ())"
  "check_walk ok es (Some i) =
     (case List.find (\<lambda>g. gp_id g = i) es of
        None \<Rightarrow> Some (Inl InvalidHandle)
      | Some g \<Rightarrow> if ok g then check_walk ok es (gp_parent_id g) else Some (Inl ResourceExhausted))"
  by (subst check_walk.simps, simp)+

lemma update_walk_at [simp]:
  "update_walk f None es = Some (es, Inr ())"
  "update_walk f (Some i) es =
     (case List.find (\<lambda>g. gp_id g = i) es of
        None \<Rightarrow> Some (es, Inl InvalidHandle)
      | Some g \<Rightarrow> update_walk f (gp_parent_id g) (upd_first (\<lambda>g. gp_id g = i) f es))"
  by (subst update_walk.simps, simp)+

fun ancestor_loop :: "resource_group_table \<Rightarrow> nat \<Rightarrow> u32 option \<Rightarrow> u32 list \<Rightarrow> u32 list" where
  "ancestor_loop t fuel None result = result"
| "ancestor_loop t 0 (Some current) result = []"
| "ancestor_loop t (Suc fuel) (Some current) result =
     (case group_get t current of
        None \<Rightarrow> []
      | Some g \<Rightarrow> if length (result @ [current]) > 32 then []
                  else ancestor_loop t fuel (gp_parent_id g) (result @ [current]))"

text \<open>This loop stops by itself after 33 groups.\<close>

definition ancestor_ids :: "resource_group_table \<Rightarrow> u32 \<Rightarrow> u32 list" where
  "ancestor_ids t i = ancestor_loop t 33 (Some i) []"

definition render_ok :: "u8 \<Rightarrow> u64 \<Rightarrow> resource_group_record \<Rightarrow> bool" where
  "render_ok percent vram g \<longleftrightarrow>
     \<not> (gp_max_render_budget_percent g \<noteq> 0 \<and>
          unat (gp_reserved_render_budget_percent g) + unat percent > unat (gp_max_render_budget_percent g) \<or>
        gp_max_vram_bytes g \<noteq> 0 \<and> sat_add (gp_reserved_vram_bytes g) vram > gp_max_vram_bytes g)"

definition reserve_gpu :: "service_site allocator \<Rightarrow> u32 \<Rightarrow> u8 \<Rightarrow> u64 \<Rightarrow> (resource_group_table, gpu_reservation_record) op" where
  "reserve_gpu al group_id percent vram =
     seq (look (\<lambda>t. guard_or InvalidArgs (\<not> (percent > 100 \<or> group_get t group_id = None)))) (\<lambda>_.
     seq (check_groups (render_ok percent vram) group_id) (\<lambda>_.
     seq (look (\<lambda>t. Inr \<lparr> gr_id = gt_next_reservation_id t, gr_group_id = group_id, gr_render_budget_percent = percent,
            gr_vram_bytes = vram \<rparr>)) (\<lambda>reservation.
     seq (change (\<lambda>t. t\<lparr> gt_next_reservation_id := sat_add (gt_next_reservation_id t) 1 \<rparr>)) (\<lambda>_.
     seq (look (\<lambda>t. guard_or NoMemory (al SiteReservations (length (gt_reservations t))))) (\<lambda>_.
     seq (update_groups (\<lambda>g. g\<lparr>
            gp_reserved_render_budget_percent := sat_add (gp_reserved_render_budget_percent g) percent,
            gp_reserved_vram_bytes := sat_add (gp_reserved_vram_bytes g) vram \<rparr>) group_id) (\<lambda>_.
     seq (change (\<lambda>t. t\<lparr> gt_reservations := gt_reservations t @ [reservation] \<rparr>)) (\<lambda>_. give reservation)))))))"

definition memory_ok :: "u64 \<Rightarrow> resource_group_record \<Rightarrow> bool" where
  "memory_ok bytes g \<longleftrightarrow>
     \<not> (gp_memory_high_watermark_bytes g \<noteq> 0 \<and>
        sat_add (gp_memory_used_bytes g) bytes > gp_memory_high_watermark_bytes g)"

definition charge_memory :: "u32 \<Rightarrow> u64 \<Rightarrow> (resource_group_table, unit) op" where
  "charge_memory group_id bytes =
     seq (look (\<lambda>t. guard_or InvalidArgs (\<not> (bytes = 0 \<or> group_get t group_id = None)))) (\<lambda>_.
     seq (check_groups (memory_ok bytes) group_id) (\<lambda>_.
     update_groups (\<lambda>g. g\<lparr> gp_memory_used_bytes := sat_add (gp_memory_used_bytes g) bytes \<rparr>) group_id))"

definition release_memory :: "u32 \<Rightarrow> u64 \<Rightarrow> (resource_group_table, unit) op" where
  "release_memory group_id bytes =
     seq (look (\<lambda>t. guard_or InvalidArgs (\<not> (bytes = 0 \<or> group_get t group_id = None)))) (\<lambda>_.
     update_groups (\<lambda>g. g\<lparr> gp_memory_used_bytes := sat_sub (gp_memory_used_bytes g) bytes \<rparr>) group_id)"

definition release_gpu :: "u64 \<Rightarrow> (resource_group_table, unit) op" where
  "release_gpu reservation_id =
     seq (look (\<lambda>t. ok_or InvalidHandle (position (\<lambda>r. gr_id r = reservation_id) (gt_reservations t)))) (\<lambda>index.
     seq (look (\<lambda>t. Inr (gt_reservations t ! index))) (\<lambda>reservation.
     seq (change (\<lambda>t. t\<lparr> gt_reservations := swap_remove index (gt_reservations t) \<rparr>)) (\<lambda>_.
     update_groups (\<lambda>g. g\<lparr>
       gp_reserved_render_budget_percent := sat_sub (gp_reserved_render_budget_percent g) (gr_render_budget_percent reservation),
       gp_reserved_vram_bytes := sat_sub (gp_reserved_vram_bytes g) (gr_vram_bytes reservation) \<rparr>) (gr_group_id reservation))))"

section \<open>A table without cycles\<close>

text \<open>Groups are added below groups that exist, so a parent stands before its children.\<close>

definition parents_first :: "resource_group_record list \<Rightarrow> bool" where
  "parents_first es \<longleftrightarrow> (\<forall>k<length es. \<forall>p. gp_parent_id (es ! k) = Some p \<longrightarrow> p \<in> gp_id ` set (take k es))"

definition group_tree_ok :: "resource_group_table \<Rightarrow> bool" where
  "group_tree_ok t \<longleftrightarrow> distinct (map gp_id (gt_entries t)) \<and> parents_first (gt_entries t) \<and>
     RESOURCE_GROUP_FOREGROUND \<in> gp_id ` set (gt_entries t)"

text \<open>The groups that a walk from \<open>v\<close> visits.\<close>

inductive climbs :: "resource_group_record list \<Rightarrow> u32 option \<Rightarrow> resource_group_record list \<Rightarrow> bool" for es where
  top: "climbs es None []"
| up: "List.find (\<lambda>g. gp_id g = i) es = Some g \<Longrightarrow> climbs es (gp_parent_id g) gs \<Longrightarrow> climbs es (Some i) (g # gs)"

inductive ancestor :: "resource_group_record list \<Rightarrow> u32 \<Rightarrow> u32 \<Rightarrow> bool" for es i where
  self: "ancestor es i i"
| parent: "ancestor es i j \<Longrightarrow> g \<in> set es \<Longrightarrow> gp_id g = j \<Longrightarrow> gp_parent_id g = Some p \<Longrightarrow> ancestor es i p"

lemma climbs_exists:
  assumes d: "distinct (map gp_id es)" and pf: "parents_first es"
  shows "k < length es \<Longrightarrow> \<exists>gs. climbs es (Some (gp_id (es ! k))) gs \<and> length gs \<le> Suc k \<and>
    set gs \<subseteq> set (take (Suc k) es) \<and> distinct (map gp_id gs)"
proof (induction k rule: less_induct)
  case (less k)
  let ?g = "es ! k"
  have f: "List.find (\<lambda>g. gp_id g = gp_id ?g) es = Some ?g" using less.prems by (simp add: find_key_iff [OF d])
  have tk: "take (Suc k) es = take k es @ [?g]" using less.prems by (rule take_Suc_conv_app_nth)
  show ?case
  proof (cases "gp_parent_id ?g")
    case None
    have "climbs es (Some (gp_id ?g)) [?g]" by (rule climbs.up [OF f]) (simp add: None climbs.top)
    with tk show ?thesis by (intro exI [of _ "[?g]"]) simp
  next
    case (Some p)
    then have "p \<in> gp_id ` set (take k es)" using pf less.prems by (simp add: parents_first_def)
    then obtain j where j: "j < k" "p = gp_id (es ! j)" by (auto simp: in_set_conv_nth)
    then obtain gs where gs: "climbs es (Some p) gs" "length gs \<le> Suc j" "set gs \<subseteq> set (take (Suc j) es)" "distinct (map gp_id gs)"
      using less.IH [of j] less.prems by auto
    have sub: "set gs \<subseteq> set (take k es)" using gs(3) set_take_subset_set_take [of "Suc j" k es] j(1) by auto
    have "distinct (map gp_id (take (Suc k) es))" using distinct_take [OF d, of "Suc k"] by (simp add: take_map)
    then have "gp_id ?g \<notin> gp_id ` set (take k es)" unfolding tk by simp
    with sub have "gp_id ?g \<notin> gp_id ` set gs" by blast
    moreover have "climbs es (Some (gp_id ?g)) (?g # gs)" by (rule climbs.up [OF f]) (simp add: Some gs(1))
    ultimately show ?thesis using gs j(1) sub tk by (intro exI [of _ "?g # gs"]) auto
  qed
qed

lemma group_tree_ok_climbs:
  assumes "group_tree_ok t" and "group_get t i = Some g"
  obtains gs where "climbs (gt_entries t) (Some i) gs" "length gs \<le> length (gt_entries t)" "distinct (map gp_id gs)"
    "set gs \<subseteq> set (gt_entries t)"
proof -
  have "g \<in> set (gt_entries t)" "gp_id g = i" using assms(2) by (auto simp: group_get_def dest: find_Some_in)
  then obtain k where k: "k < length (gt_entries t)" "gp_id (gt_entries t ! k) = i" by (auto simp: in_set_conv_nth)
  from climbs_exists [OF _ _ k(1)] assms(1) obtain gs where gs: "climbs (gt_entries t) (Some i) gs" "length gs \<le> Suc k"
    "set gs \<subseteq> set (take (Suc k) (gt_entries t))" "distinct (map gp_id gs)"
    unfolding group_tree_ok_def k(2) by blast
  with k(1) that [of gs] set_take_subset [of "Suc k" "gt_entries t"] show thesis by auto
qed

lemma climbs_ancestor:
  assumes "distinct (map gp_id es)" and "climbs es (Some i) gs"
  shows "gp_id ` set gs = {j. ancestor es i j}"
proof -
  have down: "gp_id g \<in> {j. ancestor es a j}" if "climbs es v gs" "v = Some b" "ancestor es a b" "g \<in> set gs" for v a b g gs
    using that
  proof (induction arbitrary: b rule: climbs.induct)
    case (up i g' gs)
    have g': "g' \<in> set es" "gp_id g' = i" using find_Some_in [OF up.hyps(1)] by auto
    show ?case
    proof (cases "g = g'")
      case True
      with g' up.prems show ?thesis by simp
    next
      case False
      with up.prems(3) have "g \<in> set gs" by simp
      moreover from this up.hyps(2) obtain p where "gp_parent_id g' = Some p" by (cases "gp_parent_id g'") (auto elim: climbs.cases)
      ultimately show ?thesis using up.IH [of p] up.prems(1,2) g' by (auto intro: ancestor.parent)
    qed
  qed simp
  have self: "\<exists>g\<in>set gs. gp_id g = i" using assms(2) by cases (auto dest: find_Some_in)
  have closed: "\<exists>h\<in>set gs. gp_id h = p" if "climbs es v gs" "g \<in> set gs" "gp_parent_id g = Some p" for v g p gs
    using that
  proof (induction rule: climbs.induct)
    case (up i g' gs)
    show ?case
    proof (cases "g = g'")
      case True
      with up.hyps(2) up.prems(2) have "climbs es (Some p) gs" by simp
      then show ?thesis by cases (auto dest: find_Some_in)
    next
      case False
      with up show ?thesis by auto
    qed
  qed simp
  have sub: "set gs \<subseteq> set es" using assms(2) by (induction rule: climbs.induct) (auto dest: find_Some_in)
  have "\<exists>g\<in>set gs. gp_id g = j" if "ancestor es i j" for j
    using that
  proof (induction rule: ancestor.induct)
    case (parent j g p)
    then obtain h where h: "h \<in> set gs" "gp_id h = j" by auto
    then have "h = g" using distinct_key_eq [OF assms(1)] sub parent.hyps(2,3) by blast
    with h closed [OF assms(2)] parent.hyps(4) show ?case by blast
  qed (rule self)
  with down [OF assms(2) refl ancestor.self] show ?thesis by auto
qed

section \<open>What the walks do\<close>

lemma check_walk_climbs:
  "climbs es v gs \<Longrightarrow> check_walk ok es v = Some (if \<forall>g\<in>set gs. ok g then Inr () else Inl ResourceExhausted)"
  by (induction rule: climbs.induct) auto

lemma climbs_map:
  "climbs es v gs \<Longrightarrow> (\<And>g. gp_id (h g) = gp_id g) \<Longrightarrow> (\<And>g. g \<in> set gs \<Longrightarrow> h g = g) \<Longrightarrow> climbs (map h es) v gs"
proof (induction rule: climbs.induct)
  case (up i g gs)
  have "List.find (\<lambda>g. gp_id g = i) (map h es) = Some g"
    using up.hyps(1) up.prems find_map_key [of gp_id h i es] by simp
  then show ?case using up by (auto intro: climbs.up)
qed (rule climbs.top)

lemma update_walk_climbs:
  assumes f: "\<And>g. gp_id (f g) = gp_id g" "\<And>g. gp_parent_id (f g) = gp_parent_id g"
  shows "climbs es v gs \<Longrightarrow> distinct (map gp_id es) \<Longrightarrow> distinct (map gp_id gs) \<Longrightarrow>
    update_walk f v es = Some (map (\<lambda>g. if gp_id g \<in> gp_id ` set gs then f g else g) es, Inr ())"
proof (induction gs arbitrary: v es)
  case Nil
  from Nil(1) show ?case by cases simp
next
  case (Cons g gs)
  from Cons.prems(1) obtain i where v: "v = Some i" "List.find (\<lambda>g. gp_id g = i) es = Some g" "climbs es (gp_parent_id g) gs"
    by cases auto
  then have i: "gp_id g = i" by (auto dest: find_Some_in)
  let ?h = "\<lambda>g. if gp_id g = i then f g else g"
  have u: "upd_first (\<lambda>g. gp_id g = i) f es = map ?h es" by (rule upd_first_distinct [OF Cons.prems(2)])
  have c: "climbs (map ?h es) (gp_parent_id g) gs"
    using v(3) Cons.prems(3) f(1) i by (intro climbs_map) (auto simp: image_iff)
  have "map gp_id (map ?h es) = map gp_id es" by (simp add: f(1))
  with Cons.prems(2) have dm: "distinct (map gp_id (map ?h es))" by metis
  have "update_walk f (gp_parent_id g) (map ?h es) =
      Some (map (\<lambda>g. if gp_id g \<in> gp_id ` set gs then f g else g) (map ?h es), Inr ())"
    using Cons.prems(3) by (intro Cons.IH [OF c dm]) auto
  moreover have "map (\<lambda>g. if gp_id g \<in> gp_id ` set gs then f g else g) (map ?h es) =
      map (\<lambda>x. if gp_id x \<in> gp_id ` set (g # gs) then f x else x) es"
    using Cons.prems(3) i by (auto simp: f(1))
  ultimately show ?case using v(1,2) u by simp
qed

lemma update_groups_run:
  assumes ok: "group_tree_ok t" and g: "group_get t i = Some g"
    and f: "\<And>g. gp_id (f g) = gp_id g" "\<And>g. gp_parent_id (f g) = gp_parent_id g"
  shows "update_groups f i t =
    (t\<lparr> gt_entries := map (\<lambda>g. if ancestor (gt_entries t) i (gp_id g) then f g else g) (gt_entries t) \<rparr>, Inr ())"
proof -
  have d: "distinct (map gp_id (gt_entries t))" using ok by (simp add: group_tree_ok_def)
  obtain gs where gs: "climbs (gt_entries t) (Some i) gs" "length gs \<le> length (gt_entries t)" "distinct (map gp_id gs)"
    using group_tree_ok_climbs [OF ok g] by blast
  have "gp_id ` set gs = {j. ancestor (gt_entries t) i j}" by (rule climbs_ancestor [OF d gs(1)])
  then have "update_walk f (Some i) (gt_entries t) =
    Some (map (\<lambda>g. if ancestor (gt_entries t) i (gp_id g) then f g else g) (gt_entries t), Inr ())"
    using update_walk_climbs [of f, OF f gs(1) d gs(3)] by simp
  then show ?thesis by (simp only: update_groups_def within_def prod.case option.sel)
qed

lemma check_groups_run:
  assumes ok: "group_tree_ok t" and g: "group_get t i = Some g"
  shows "check_groups p i t =
    (t, if \<forall>g\<in>set (gt_entries t). ancestor (gt_entries t) i (gp_id g) \<longrightarrow> p g then Inr () else Inl ResourceExhausted)"
proof -
  have d: "distinct (map gp_id (gt_entries t))" using ok by (simp add: group_tree_ok_def)
  obtain gs where gs: "climbs (gt_entries t) (Some i) gs" "length gs \<le> length (gt_entries t)" "set gs \<subseteq> set (gt_entries t)"
    using group_tree_ok_climbs [OF ok g] by blast
  have a: "gp_id ` set gs = {j. ancestor (gt_entries t) i j}" by (rule climbs_ancestor [OF d gs(1)])
  have "h \<in> set gs" if "h \<in> set (gt_entries t)" "ancestor (gt_entries t) i (gp_id h)" for h
  proof -
    have "gp_id h \<in> gp_id ` set gs" using a that(2) by simp
    then obtain h' where "h' \<in> set gs" "gp_id h' = gp_id h" by auto
    with distinct_key_eq [OF d] gs(3) that(1) show ?thesis by (metis subsetD)
  qed
  with a gs(3) have "(\<forall>g\<in>set gs. p g) \<longleftrightarrow> (\<forall>g\<in>set (gt_entries t). ancestor (gt_entries t) i (gp_id g) \<longrightarrow> p g)"
    by blast
  with check_walk_climbs [OF gs(1), of p] show ?thesis
    by (simp add: check_groups_def op_run del: check_walk_at)
qed

text \<open>In a table without cycles the walks return, from whatever group they start.\<close>

lemma check_walk_returns:
  assumes "group_tree_ok t"
  shows "\<exists>r. check_walk p (gt_entries t) (Some i) = Some r"
proof (cases "group_get t i")
  case (Some g)
  then obtain gs where "climbs (gt_entries t) (Some i) gs" using group_tree_ok_climbs [OF assms] by blast
  then show ?thesis using check_walk_climbs by blast
qed (simp add: group_get_def)

lemma update_walk_returns:
  assumes "group_tree_ok t" and f: "\<And>g. gp_id (f g) = gp_id g" "\<And>g. gp_parent_id (f g) = gp_parent_id g"
  shows "\<exists>r. update_walk f (Some i) (gt_entries t) = Some r"
proof (cases "group_get t i")
  case (Some g)
  then obtain gs where "climbs (gt_entries t) (Some i) gs" "distinct (map gp_id gs)"
    using group_tree_ok_climbs [OF assms(1)] by blast
  with assms(1) update_walk_climbs [of f, OF f] show ?thesis unfolding group_tree_ok_def by blast
qed (simp add: group_get_def)

lemma charge_memory_run:
  assumes "group_tree_ok t"
  shows "charge_memory i b t =
    (if b = 0 \<or> group_get t i = None then (t, Inl InvalidArgs)
     else if \<exists>g\<in>set (gt_entries t). ancestor (gt_entries t) i (gp_id g) \<and> \<not> memory_ok b g then (t, Inl ResourceExhausted)
     else (t\<lparr> gt_entries := map (\<lambda>g. if ancestor (gt_entries t) i (gp_id g)
       then g\<lparr> gp_memory_used_bytes := sat_add (gp_memory_used_bytes g) b \<rparr> else g) (gt_entries t) \<rparr>, Inr ()))"
proof (cases "b = 0 \<or> group_get t i = None")
  case True
  then show ?thesis by (auto simp: charge_memory_def seq_def op_run guard_or_def)
next
  case False
  then obtain g where g: "group_get t i = Some g" by auto
  with False check_groups_run [OF assms g, of "memory_ok b"] update_groups_run [OF assms g]
  show ?thesis by (auto simp: charge_memory_def seq_def op_run guard_or_def)
qed

lemma release_memory_run:
  assumes "group_tree_ok t" and "b \<noteq> 0" and "group_get t i = Some g"
  shows "release_memory i b t = (t\<lparr> gt_entries := map (\<lambda>g. if ancestor (gt_entries t) i (gp_id g)
       then g\<lparr> gp_memory_used_bytes := sat_sub (gp_memory_used_bytes g) b \<rparr> else g) (gt_entries t) \<rparr>, Inr ())"
  using assms update_groups_run [OF assms(1,3)] by (simp add: release_memory_def seq_def op_run guard_or_def)

section \<open>The operations keep the tree\<close>

definition group_shape :: "resource_group_record list \<Rightarrow> (u32 \<times> u32 option) list" where
  "group_shape es = map (\<lambda>g. (gp_id g, gp_parent_id g)) es"

lemma group_shape_ids: "map gp_id es = map fst (group_shape es)" "gp_id ` set es = fst ` set (group_shape es)"
  by (simp_all add: group_shape_def image_image)

lemma group_shape_parents:
  "parents_first es \<longleftrightarrow> (\<forall>k<length (group_shape es). \<forall>p. snd (group_shape es ! k) = Some p \<longrightarrow>
    p \<in> fst ` set (take k (group_shape es)))"
  by (auto simp: parents_first_def group_shape_def take_map image_image)

lemma group_tree_ok_shape: "group_shape (gt_entries t') = group_shape (gt_entries t) \<Longrightarrow> group_tree_ok t' = group_tree_ok t"
  by (simp add: group_tree_ok_def group_shape_ids group_shape_parents)

lemma group_shape_upd_first:
  "(\<And>g. gp_id (f g) = gp_id g) \<Longrightarrow> (\<And>g. gp_parent_id (f g) = gp_parent_id g) \<Longrightarrow>
    group_shape (upd_first p f es) = group_shape es"
  by (simp add: group_shape_def map_upd_first)

lemma keeps_update_groups [keeps_intros]:
  assumes f: "\<And>g. gp_id (f g) = gp_id g" "\<And>g. gp_parent_id (f g) = gp_parent_id g"
  shows "keeps group_tree_ok (update_groups f i)"
proof (rule holdsI)
  fix t t' r assume ok: "group_tree_ok t" and run: "update_groups f i t = (t', r)"
  have "group_shape (gt_entries t') = group_shape (gt_entries t)"
  proof (cases "group_get t i")
    case None
    with run show ?thesis by (auto simp: update_groups_def within_def group_get_def)
  next
    case (Some g)
    from run have "t' = t\<lparr> gt_entries := map (\<lambda>g. if ancestor (gt_entries t) i (gp_id g) then f g else g) (gt_entries t) \<rparr>"
      unfolding update_groups_run [of t i g f, OF ok Some f] by simp
    then show ?thesis by (simp add: group_shape_def f)
  qed
  from group_tree_ok_shape [OF this] ok show "group_tree_ok t' \<and> (\<forall>x. r = Inr x \<longrightarrow> True)" by simp
qed

lemma keeps_check_groups [keeps_intros]: "keeps I (check_groups p i)"
  by (simp add: check_groups_def keeps_basic)

lemma keeps_groups_other [keeps_intros]:
  "keeps group_tree_ok (change (\<lambda>t. t\<lparr> gt_reservations := r t \<rparr>))"
  "keeps group_tree_ok (change (\<lambda>t. t\<lparr> gt_next_reservation_id := n t \<rparr>))"
  "keeps group_tree_ok take_group_id"
  by (simp_all add: holds_def op_run group_tree_ok_def take_group_id_def)

lemma keeps_group_update [keeps_intros]:
  "(\<And>g. gp_id (f g) = gp_id g) \<Longrightarrow> (\<And>g. gp_parent_id (f g) = gp_parent_id g) \<Longrightarrow> keeps group_tree_ok (group_update i f)"
  unfolding group_update_def
  by (intro keeps_intros) (simp add: group_tree_ok_shape [of "t\<lparr> gt_entries := upd_first p f (gt_entries t) \<rparr>" t for t p] group_shape_upd_first)

lemma keeps_budget_ops:
  "keeps group_tree_ok (charge_memory i b)" "keeps group_tree_ok (release_memory i b)" "keeps group_tree_ok (release_gpu r)"
  "keeps group_tree_ok (reserve_gpu al i pc v)" "keeps group_tree_ok (set_limits i sh pg)" "keeps group_tree_ok (set_limits_v2 i l)"
  unfolding charge_memory_def release_memory_def release_gpu_def reserve_gpu_def set_limits_def set_limits_v2_def
  by (intro keeps_intros; simp add: apply_limits_def)+

text \<open>A new group goes below a group that exists.\<close>

lemma group_tree_ok_append:
  assumes "group_tree_ok t" and "gp_id g \<notin> gp_id ` set (gt_entries t)"
    and "\<And>p. gp_parent_id g = Some p \<Longrightarrow> p \<in> gp_id ` set (gt_entries t)"
  shows "group_tree_ok (t\<lparr> gt_entries := gt_entries t @ [g] \<rparr>)"
  using assms by (auto simp: group_tree_ok_def parents_first_def nth_append less_Suc_eq)

lemma group_insert_cases:
  assumes "group_insert al i name sh pg t = (t', r)"
  obtains e where "t' = t" "r = Inl e"
  | g where "t' = t\<lparr> gt_entries := gt_entries t @ [g] \<rparr>" "r = Inr ()" "i \<notin> gp_id ` set (gt_entries t)" "gp_id g = i"
      "gp_parent_id g = Some RESOURCE_GROUP_FOREGROUND"
proof -
  define g where "g = \<lparr> gp_id = i, gp_parent_id = Some RESOURCE_GROUP_FOREGROUND, gp_name = stored 24 name, gp_name_len = length name,
          gp_cpu_shares = sh, gp_memory_limit_pages = pg,
          gp_max_cpu_utilization_permille = 0, gp_allow_realtime = False, gp_memory_low_watermark_bytes = 0,
          gp_memory_high_watermark_bytes = sat_mul pg 4096, gp_memory_used_bytes = 0,
          gp_max_render_budget_percent = 0, gp_max_vram_bytes = 0, gp_reserved_render_budget_percent = 0,
          gp_reserved_vram_bytes = 0 \<rparr>"
  have m: "list_ex (\<lambda>g. gp_id g = i) (gt_entries t) \<longleftrightarrow> i \<in> gp_id ` set (gt_entries t)" by (auto simp: list_ex_iff)
  have "group_insert al i name sh pg t =
      (if i = 0 \<or> name = [] \<or> length name > 24 \<or> sh = 0 then (t, Inl InvalidArgs)
       else if list_ex (group_named name) (gt_entries t) then (t, Inl AlreadyExists)
       else if i \<in> gp_id ` set (gt_entries t) then (t, Inl AlreadyExists)
       else if \<not> al SiteGroups (length (gt_entries t)) then (t, Inl NoMemory)
       else (t\<lparr> gt_entries := gt_entries t @ [g] \<rparr>, Inr ()))"
    unfolding group_insert_def g_def [symmetric] by (simp add: seq_def op_run require_run guard_or_def m)
  moreover have "gp_id g = i" "gp_parent_id g = Some RESOURCE_GROUP_FOREGROUND" by (simp_all add: g_def)
  ultimately show thesis using assms that by (auto split: if_splits)
qed

lemma group_tree_ok_create: "keeps group_tree_ok (group_create al name sh pg)"
  unfolding group_create_def
proof (intro keeps_seq keeps_groups_other keeps_basic)
  fix i show "keeps group_tree_ok (group_insert al i name sh pg)"
  proof (rule holdsI)
    fix t t' r assume ok: "group_tree_ok t" and run: "group_insert al i name sh pg t = (t', r)"
    from run show "group_tree_ok t' \<and> (\<forall>x. r = Inr x \<longrightarrow> True)"
    proof (cases rule: group_insert_cases)
      case (2 g)
      have "RESOURCE_GROUP_FOREGROUND \<in> gp_id ` set (gt_entries t)" using ok by (simp add: group_tree_ok_def)
      with 2 group_tree_ok_append [OF ok, of g] show ?thesis by simp
    qed (use ok in simp)
  qed
qed

lemma group_tree_ok_create_v2: "keeps group_tree_ok (create_v2 al name p l)"
proof (rule holdsI)
  fix t t' r assume ok: "group_tree_ok t" and run: "create_v2 al name p l t = (t', r)"
  let ?i = "gt_next_resource_group_id t" and ?t1 = "t\<lparr> gt_next_resource_group_id := sat_add (gt_next_resource_group_id t) 1 \<rparr>"
  obtain t2 r2 where ins: "group_insert al ?i name (gl_cpu_shares l) 0 ?t1 = (t2, r2)" by fastforce
  have ok1: "group_tree_ok ?t1" using ok by (simp add: group_tree_ok_def)
  from ins show "group_tree_ok t' \<and> (\<forall>x. r = Inr x \<longrightarrow> True)"
  proof (cases rule: group_insert_cases)
    case (1 e)
    with run ins ok ok1 show ?thesis
      by (auto simp: create_v2_def seq_def op_run guard_or_def take_group_id_def split: if_splits)
  next
    case (2 g)
    let ?g = "(apply_limits l g)\<lparr> gp_parent_id := (case p of None \<Rightarrow> Some RESOURCE_GROUP_FOREGROUND | Some p \<Rightarrow> Some p) \<rparr>"
    have "t' = t \<or> t' = ?t1\<lparr> gt_entries := gt_entries ?t1 @ [?g] \<rparr> \<and> (\<forall>q. p = Some q \<longrightarrow> group_get t q \<noteq> None)"
      using run ins 2(1,2) by (auto simp: create_v2_def seq_def op_run guard_or_def take_group_id_def split: if_splits option.splits)
    moreover have "group_tree_ok (?t1\<lparr> gt_entries := gt_entries ?t1 @ [?g] \<rparr>)" if "\<forall>q. p = Some q \<longrightarrow> group_get t q \<noteq> None"
    proof (rule group_tree_ok_append [OF ok1])
      show "gp_id ?g \<notin> gp_id ` set (gt_entries ?t1)" using 2(3,4) by (simp add: apply_limits_def)
      have "RESOURCE_GROUP_FOREGROUND \<in> gp_id ` set (gt_entries t)" using ok by (simp add: group_tree_ok_def)
      moreover have "q \<in> gp_id ` set (gt_entries t)" if "group_get t q \<noteq> None" for q
        using that unfolding group_get_def by (simp only: find_key_None [of gp_id] not_not)
      ultimately show "q \<in> gp_id ` set (gt_entries ?t1)" if "gp_parent_id ?g = Some q" for q
        using that \<open>\<forall>q. p = Some q \<longrightarrow> group_get t q \<noteq> None\<close> by (auto split: option.splits)
    qed
    ultimately show ?thesis using ok by auto
  qed
qed

lemma parents_first_snoc:
  "parents_first (es @ [g]) \<longleftrightarrow> parents_first es \<and> (\<forall>p. gp_parent_id g = Some p \<longrightarrow> p \<in> gp_id ` set es)"
  by (auto simp: parents_first_def nth_append less_Suc_eq)

lemma parents_first_four: "parents_first [a, b, c, d] \<longleftrightarrow> parents_first [] \<and> gp_parent_id a = None \<and>
    (\<forall>p. gp_parent_id b = Some p \<longrightarrow> p \<in> {gp_id a}) \<and> (\<forall>p. gp_parent_id c = Some p \<longrightarrow> p \<in> {gp_id a, gp_id b}) \<and>
    (\<forall>p. gp_parent_id d = Some p \<longrightarrow> p \<in> {gp_id a, gp_id b, gp_id c})"
  using parents_first_snoc [of "[]" a] parents_first_snoc [of "[a]" b] parents_first_snoc [of "[a, b]" c]
    parents_first_snoc [of "[a, b, c]" d] by (cases "gp_parent_id a") auto

lemma group_tree_ok_with_defaults: "group_tree_ok with_defaults"
  by (simp add: group_tree_ok_def with_defaults_def default_group_def resource_group_ids parents_first_four)
    (simp add: parents_first_def)

section \<open>Reachable tables\<close>

inductive groups_reachable :: "resource_group_table \<Rightarrow> bool" where
  start: "groups_reachable with_defaults"
| create: "groups_reachable t \<Longrightarrow> groups_reachable (fst (group_create al name sh pg t))"
| create_v2: "groups_reachable t \<Longrightarrow> groups_reachable (fst (create_v2 al name p l t))"
| limits: "groups_reachable t \<Longrightarrow> groups_reachable (fst (set_limits i sh pg t))"
| limits_v2: "groups_reachable t \<Longrightarrow> groups_reachable (fst (set_limits_v2 i l t))"
| reserve: "groups_reachable t \<Longrightarrow> groups_reachable (fst (reserve_gpu al i pc v t))"
| release_gpu: "groups_reachable t \<Longrightarrow> groups_reachable (fst (release_gpu q t))"
| charge: "groups_reachable t \<Longrightarrow> groups_reachable (fst (charge_memory i b t))"
| release: "groups_reachable t \<Longrightarrow> groups_reachable (fst (release_memory i b t))"

lemma groups_reachable_ok: "groups_reachable t \<Longrightarrow> group_tree_ok t"
  by (induction rule: groups_reachable.induct)
    (auto intro: group_tree_ok_with_defaults holdsD [OF group_tree_ok_create] holdsD [OF group_tree_ok_create_v2]
      holdsD [OF keeps_budget_ops(1)] holdsD [OF keeps_budget_ops(2)] holdsD [OF keeps_budget_ops(3)]
      holdsD [OF keeps_budget_ops(4)] holdsD [OF keeps_budget_ops(5)] holdsD [OF keeps_budget_ops(6)])

text \<open>
  C37. Charging memory is all or nothing, and what it does is known on every input. In
  every table the kernel can build from the default groups, a charge of no bytes or
  to an unknown group fails with \<open>InvalidArgs\<close>. Otherwise it fails with
  \<open>ResourceExhausted\<close> exactly when the group or a group above it has a high
  watermark that the charge would pass. In both cases the table stays exactly as it was. In every
  other case the charge succeeds, adds the bytes to the group and to each group
  above it and to no other, and every charged group with a high watermark stays at
  or below it. The walk to the root returns.
\<close>

theorem charge_memory_all_or_nothing:
  assumes "groups_reachable t"
  shows "let up = \<lambda>g. ancestor (gt_entries t) i (gp_id g);
      full = \<lambda>g. gp_memory_high_watermark_bytes g \<noteq> 0 \<and>
        sat_add (gp_memory_used_bytes g) b > gp_memory_high_watermark_bytes g
    in (\<exists>r. check_walk (memory_ok b) (gt_entries t) (Some i) = Some r) \<and>
      charge_memory i b t =
        (if b = 0 \<or> group_get t i = None then (t, Inl InvalidArgs)
         else if \<exists>g\<in>set (gt_entries t). up g \<and> full g then (t, Inl ResourceExhausted)
         else (t\<lparr> gt_entries := map (\<lambda>g. if up g
           then g\<lparr> gp_memory_used_bytes := sat_add (gp_memory_used_bytes g) b \<rparr> else g) (gt_entries t) \<rparr>, Inr ())) \<and>
      (snd (charge_memory i b t) = Inr () \<longrightarrow>
        (\<forall>g\<in>set (gt_entries (fst (charge_memory i b t))). up g \<longrightarrow> gp_memory_high_watermark_bytes g \<noteq> 0 \<longrightarrow>
          gp_memory_used_bytes g \<le> gp_memory_high_watermark_bytes g))"
proof -
  note ok = groups_reachable_ok [OF assms]
  have m: "(\<not> memory_ok b g) = (gp_memory_high_watermark_bytes g \<noteq> 0 \<and>
    sat_add (gp_memory_used_bytes g) b > gp_memory_high_watermark_bytes g)" for g by (simp add: memory_ok_def)
  note run = charge_memory_run [OF ok, of i b, unfolded m]
  show ?thesis
    unfolding Let_def
    by (intro conjI check_walk_returns [OF ok] run) (auto simp: run not_less split: if_splits)
qed

lemma ancestor_shape:
  assumes "group_shape es = group_shape es'"
  shows "ancestor es i j = ancestor es' i j"
proof -
  have "ancestor es' i j" if "ancestor es i j" "group_shape es = group_shape es'" for es es'
    using that
  proof (induction rule: ancestor.induct)
    case (parent j g p)
    from parent.hyps(2) have "(gp_id g, gp_parent_id g) \<in> set (group_shape es)" by (simp add: group_shape_def)
    then obtain h where "h \<in> set es'" "gp_id h = j" "gp_parent_id h = Some p"
      unfolding parent.prems parent.hyps(3,4) by (auto simp: group_shape_def)
    with parent show ?case by (auto intro: ancestor.parent)
  qed (rule ancestor.self)
  with assms show ?thesis by metis
qed

text \<open>
  C38. Releasing undoes charging. After a charge that succeeded without reaching the top of a 64-bit
  counter, releasing the same number of bytes from the same group restores
  the table.
\<close>

theorem charge_release_roundtrip:
  assumes "groups_reachable t" and "charge_memory i b t = (t', Inr ())"
    and "\<forall>g\<in>set (gt_entries t). unat (gp_memory_used_bytes g) + unat b < 2 ^ 64"
  shows "release_memory i b t' = (t, Inr ())"
proof -
  note ok = groups_reachable_ok [OF assms(1)]
  let ?a = "\<lambda>g. ancestor (gt_entries t) i (gp_id g)"
  let ?c = "\<lambda>g. if ?a g then g\<lparr> gp_memory_used_bytes := sat_add (gp_memory_used_bytes g) b \<rparr> else g"
  let ?r = "\<lambda>g. if ?a g then g\<lparr> gp_memory_used_bytes := sat_sub (gp_memory_used_bytes g) b \<rparr> else g"
  have run: "b \<noteq> 0" "group_get t i \<noteq> None" "t' = t\<lparr> gt_entries := map ?c (gt_entries t) \<rparr>"
    using assms(2) unfolding charge_memory_run [OF ok] by (auto split: if_splits)
  have sh: "group_shape (gt_entries t') = group_shape (gt_entries t)" using run(3) by (auto simp: group_shape_def)
  have "group_tree_ok t'" using ok group_tree_ok_shape [OF sh] by simp
  moreover obtain g where "group_get t' i = Some g"
    using run(2) find_map_key [of gp_id ?c i "gt_entries t"] by (auto simp: group_get_def run(3))
  ultimately have "release_memory i b t' = (t'\<lparr> gt_entries := map ?r (gt_entries t') \<rparr>, Inr ())"
    using release_memory_run [of t' b i g] run(1) ancestor_shape [OF sh] by simp
  moreover have "sat_sub (sat_add u b) b = u" if "unat u + unat b < 2 ^ 64" for u
    using that by (simp add: word_unat_eq_iff unat_sat_sub unat_sat_add)
  then have "map ?r (gt_entries t') = gt_entries t" using assms(3) by (auto simp: run(3) intro!: map_idI)
  ultimately show ?thesis by (simp add: run(3))
qed

text \<open>A charge of one page to the foreground group goes to the system group as well.\<close>

lemma charge_example: "charge_memory 2 4096 with_defaults =
  (fst (charge_memory 2 4096 with_defaults), Inr ())"
  by (simp add: charge_memory_def seq_def op_run guard_or_def group_get_def with_defaults_def default_group_def
      resource_group_ids check_groups_def memory_ok_def update_groups_def within_def)

lemma gt_entries_set: "gt_entries (t\<lparr> gt_entries := es \<rparr>) = es"
  by simp

lemma in_map_if: "x \<in> set xs \<Longrightarrow> p x \<Longrightarrow> f x \<in> set (map (\<lambda>x. if p x then f x else x) xs)"
  by force

theorem charge_memory_all_or_nothing_witness:
  "\<exists>g\<in>set (gt_entries (fst (charge_memory 2 4096 with_defaults))). gp_id g = 1 \<and> gp_memory_used_bytes g = 4096"
proof -
  let ?g = "default_group RESOURCE_GROUP_SYSTEM None SYSTEM_NAME 6 2048 1000 True"
  have "ancestor (gt_entries with_defaults) 2 1"
    by (rule ancestor.parent [OF ancestor.self, of "default_group RESOURCE_GROUP_FOREGROUND (Some RESOURCE_GROUP_SYSTEM) FOREGROUND_NAME 10 1024 0 True"])
      (simp_all add: with_defaults_def default_group_def resource_group_ids)
  then have a: "ancestor (gt_entries with_defaults) 2 (gp_id ?g)" by (simp add: default_group_def resource_group_ids)
  have e: "gt_entries (fst (charge_memory 2 4096 with_defaults)) = map (\<lambda>g. if ancestor (gt_entries with_defaults) 2 (gp_id g)
      then g\<lparr> gp_memory_used_bytes := sat_add (gp_memory_used_bytes g) 4096 \<rparr> else g) (gt_entries with_defaults)"
    using charge_memory_all_or_nothing [OF groups_reachable.start, of 2 4096, unfolded Let_def, THEN conjunct2, THEN conjunct1] charge_example
    by (auto simp only: prod.inject sum.distinct gt_entries_set fst_conv split: if_splits)
  have "?g \<in> set (gt_entries with_defaults)" by (simp add: with_defaults_def)
  with a have "?g\<lparr> gp_memory_used_bytes := sat_add (gp_memory_used_bytes ?g) 4096 \<rparr> \<in>
      set (gt_entries (fst (charge_memory 2 4096 with_defaults)))" unfolding e by (rule in_map_if [rotated])
  then show ?thesis by (rule bexI [rotated]) (simp add: default_group_def resource_group_ids sat_add_def)
qed

theorem charge_release_roundtrip_witness:
  "release_memory 2 4096 (fst (charge_memory 2 4096 with_defaults)) = (with_defaults, Inr ())"
  by (rule charge_release_roundtrip [OF groups_reachable.start charge_example])
    (simp add: with_defaults_def default_group_def)

end
