(* ===== verification/System_Tables.thy ===== *)
theory System_Tables
  imports Resource_Groups Time_Abi
begin

text \<open>
  The remaining tables of the control plane: processes, jobs, address spaces
  and interrupts (\<open>kernel_services/system.rs\<close>), scheduling profiles
  (\<open>kernel_services/scheduler.rs\<close>), the clock (\<open>kernel_services/time.rs\<close>), the power
  log (\<open>kernel_services/power.rs\<close>) and the address-space identifiers
  (\<open>cpu_features.rs\<close>).
\<close>

section \<open>Processes, jobs and address spaces\<close>

datatype process_state = PsCreated | PsRunning | PsSuspended | PsExited

record process_record =
  ps_id :: u64
  ps_name :: "u8 list"
  ps_name_len :: nat
  ps_package_id :: "u8 list"
  ps_package_id_len :: nat
  ps_hardware_access :: hardware_access
  ps_resource_group_id :: u32
  ps_job_id :: u64
  ps_vm_space_id :: u64
  ps_main_thread_id :: u64
  ps_state :: process_state
  ps_root_channel_handle :: "handle option"

record process_table =
  pt_entries :: "process_record list"
  pt_next_process_id :: u64

definition process_table_new :: process_table where
  "process_table_new = \<lparr> pt_entries = [], pt_next_process_id = 1 \<rparr>"

definition insert_in_job ::
    "service_site allocator \<Rightarrow> u8 list \<Rightarrow> u32 \<Rightarrow> u64 \<Rightarrow> u8 list \<Rightarrow> hardware_access \<Rightarrow> u64 \<Rightarrow> (process_table, u64) op" where
  "insert_in_job al name resource_group_id vm_space_id package_id hardware_access job_id t =
     (if name = [] \<or> length name > 64 \<or> length package_id > 96 \<or> vm_space_id = 0 then (t, Inl InvalidArgs)
      else if \<not> al SiteProcesses (length (pt_entries t)) then (t, Inl NoMemory)
      else let i = pt_next_process_id t
           in (t\<lparr> pt_next_process_id := sat_add i 1, pt_entries := pt_entries t @
                 [\<lparr> ps_id = i, ps_name = stored 64 name, ps_name_len = length name, ps_package_id = stored 96 package_id,
                    ps_package_id_len = length package_id, ps_hardware_access = hardware_access,
                    ps_resource_group_id = resource_group_id, ps_job_id = job_id, ps_vm_space_id = vm_space_id,
                    ps_main_thread_id = 0, ps_state = PsCreated, ps_root_channel_handle = None \<rparr>] \<rparr>, Inr i))"

definition process_insert ::
    "service_site allocator \<Rightarrow> u8 list \<Rightarrow> u32 \<Rightarrow> u64 \<Rightarrow> u8 list \<Rightarrow> hardware_access \<Rightarrow> (process_table, u64) op" where
  "process_insert al name resource_group_id vm_space_id package_id hardware_access =
     insert_in_job al name resource_group_id vm_space_id package_id hardware_access 0"

definition process_get :: "process_table \<Rightarrow> u64 \<Rightarrow> process_record option" where
  "process_get t i = List.find (\<lambda>p. ps_id p = i) (pt_entries t)"

definition process_upd :: "u64 \<Rightarrow> (process_record \<Rightarrow> process_record) \<Rightarrow> (process_table, unit) op" where
  "process_upd i f =
     seq (look (\<lambda>t. ok_or InvalidHandle (process_get t i))) (\<lambda>_.
     change (\<lambda>t. t\<lparr> pt_entries := upd_first (\<lambda>p. ps_id p = i) f (pt_entries t) \<rparr>))"

definition set_main_thread :: "u64 \<Rightarrow> u64 \<Rightarrow> (process_table, unit) op" where
  "set_main_thread i thread_id = process_upd i (\<lambda>p. p\<lparr> ps_main_thread_id := thread_id, ps_state := PsRunning \<rparr>)"

definition process_set_state :: "u64 \<Rightarrow> process_state \<Rightarrow> (process_table, unit) op" where
  "process_set_state i state = process_upd i (\<lambda>p. p\<lparr> ps_state := state \<rparr>)"

record job_record =
  jb_id :: u64
  jb_name :: "u8 list"
  jb_name_len :: nat
  jb_package_id :: "u8 list"
  jb_package_id_len :: nat
  jb_resource_group_id :: u32
  jb_hardware_access :: hardware_access
  jb_realtime_scheduling :: bool
  jb_max_processes :: u16

record job_table =
  jt_entries :: "job_record list"
  jt_next_job_id :: u64

definition job_table_new :: job_table where
  "job_table_new = \<lparr> jt_entries = [], jt_next_job_id = 1 \<rparr>"

definition job_create ::
    "service_site allocator \<Rightarrow> u8 list \<Rightarrow> u8 list \<Rightarrow> u32 \<Rightarrow> hardware_access \<Rightarrow> bool \<Rightarrow> u16 \<Rightarrow> (job_table, u64) op" where
  "job_create al name package_id resource_group_id hardware_access realtime_scheduling max_processes t =
     (if name = [] \<or> length name > 64 \<or> package_id = [] \<or> length package_id > 96 \<or> resource_group_id = 0 \<or>
           max_processes = 0 then (t, Inl InvalidArgs)
      else if \<not> al SiteJobs (length (jt_entries t)) then (t, Inl NoMemory)
      else let i = jt_next_job_id t
           in (t\<lparr> jt_next_job_id := sat_add i 1, jt_entries := jt_entries t @
                 [\<lparr> jb_id = i, jb_name = stored 64 name, jb_name_len = length name, jb_package_id = stored 96 package_id,
                    jb_package_id_len = length package_id, jb_resource_group_id = resource_group_id,
                    jb_hardware_access = hardware_access, jb_realtime_scheduling = realtime_scheduling,
                    jb_max_processes = max_processes \<rparr>] \<rparr>, Inr i))"

definition job_get :: "job_table \<Rightarrow> u64 \<Rightarrow> job_record option" where
  "job_get t i = List.find (\<lambda>j. jb_id j = i) (jt_entries t)"

record vm_space_record =
  vs_id :: u64
  vs_process_id :: u64
  vs_root_table_phys :: u64
  vs_asid :: u16

record vm_space_table =
  st_entries :: "vm_space_record list"
  st_next_vm_space_id :: u64

definition vm_space_table_new :: vm_space_table where
  "vm_space_table_new = \<lparr> st_entries = [], st_next_vm_space_id = 1 \<rparr>"

definition vm_space_insert :: "service_site allocator \<Rightarrow> u64 \<Rightarrow> u64 \<Rightarrow> u16 \<Rightarrow> (vm_space_table, u64) op" where
  "vm_space_insert al process_id root_table_phys asid t =
     (if process_id = 0 then (t, Inl InvalidArgs)
      else if \<not> al SiteVmSpaces (length (st_entries t)) then (t, Inl NoMemory)
      else let i = st_next_vm_space_id t
           in (t\<lparr> st_next_vm_space_id := sat_add i 1, st_entries := st_entries t @
                 [\<lparr> vs_id = i, vs_process_id = process_id, vs_root_table_phys = root_table_phys, vs_asid = asid \<rparr>] \<rparr>, Inr i))"

definition vm_space_get :: "vm_space_table \<Rightarrow> u64 \<Rightarrow> vm_space_record option" where
  "vm_space_get t i = List.find (\<lambda>v. vs_id v = i) (st_entries t)"

definition vm_space_for_process :: "vm_space_table \<Rightarrow> u64 \<Rightarrow> vm_space_record option" where
  "vm_space_for_process t process_id = List.find (\<lambda>v. vs_process_id v = process_id) (st_entries t)"

definition vm_space_set_process :: "u64 \<Rightarrow> u64 \<Rightarrow> vm_space_table \<Rightarrow> vm_space_table" where
  "vm_space_set_process i process_id t =
     t\<lparr> st_entries := upd_first (\<lambda>v. vs_id v = i) (\<lambda>v. v\<lparr> vs_process_id := process_id \<rparr>) (st_entries t) \<rparr>"

section \<open>Interrupts\<close>

record interrupt_record =
  ir_id :: u64
  ir_irq_number :: u32
  ir_flags :: u32
  ir_masked :: bool
  ir_awaiting_ack :: bool
  ir_window_started_ns :: u64
  ir_events_in_window :: u32
  ir_flood_limit_per_second :: u32

definition DEFAULT_INTERRUPT_FLOOD_LIMIT_PER_SECOND :: u32 where
  "DEFAULT_INTERRUPT_FLOOD_LIMIT_PER_SECOND = 100000"

datatype interrupt_delivery = Signaled u64 | MaskedDelivery | FloodLimited u64 | NotBound

record interrupt_table =
  it_entries :: "interrupt_record list"
  it_next_interrupt_id :: u64

definition interrupt_table_new :: interrupt_table where
  "interrupt_table_new = \<lparr> it_entries = [], it_next_interrupt_id = 1 \<rparr>"

definition interrupt_insert :: "service_site allocator \<Rightarrow> u32 \<Rightarrow> u32 \<Rightarrow> (interrupt_table, u64) op" where
  "interrupt_insert al irq_number flags t =
     (if list_ex (\<lambda>r. ir_irq_number r = irq_number) (it_entries t) then (t, Inl AlreadyExists)
      else if \<not> al SiteInterrupts (length (it_entries t)) then (t, Inl NoMemory)
      else let i = it_next_interrupt_id t
           in (t\<lparr> it_next_interrupt_id := sat_add i 1, it_entries := it_entries t @
                 [\<lparr> ir_id = i, ir_irq_number = irq_number, ir_flags = flags, ir_masked = False, ir_awaiting_ack = False,
                    ir_window_started_ns = 0, ir_events_in_window = 0,
                    ir_flood_limit_per_second = DEFAULT_INTERRUPT_FLOOD_LIMIT_PER_SECOND \<rparr>] \<rparr>, Inr i))"

definition interrupt_record_of :: "interrupt_table \<Rightarrow> u64 \<Rightarrow> interrupt_record option" where
  "interrupt_record_of t i = List.find (\<lambda>r. ir_id r = i) (it_entries t)"

definition interrupt_upd ::
    "u64 \<Rightarrow> (interrupt_record \<Rightarrow> bool) \<Rightarrow> (interrupt_record \<Rightarrow> interrupt_record) \<Rightarrow> (interrupt_table, unit) op" where
  "interrupt_upd i allowed f =
     seq (look (\<lambda>t. ok_or InvalidHandle (interrupt_record_of t i))) (\<lambda>r.
     seq (require (allowed r) InvalidArgs) (\<lambda>_.
     change (\<lambda>t. t\<lparr> it_entries := upd_first (\<lambda>r. ir_id r = i) f (it_entries t) \<rparr>)))"

definition set_flood_limit :: "u64 \<Rightarrow> u32 \<Rightarrow> (interrupt_table, unit) op" where
  "set_flood_limit i limit =
     seq (require (\<not> (limit = 0 \<or> limit > 10000000)) InvalidArgs) (\<lambda>_.
     interrupt_upd i (\<lambda>_. True) (\<lambda>r. r\<lparr> ir_flood_limit_per_second := limit \<rparr>))"

text \<open>The accounting of one delivery: a window of a second counts its events.\<close>

definition count_event :: "u64 \<Rightarrow> interrupt_record \<Rightarrow> interrupt_record" where
  "count_event now_ns r =
     (let r = (if sat_sub now_ns (ir_window_started_ns r) \<ge> 1000000000
               then r\<lparr> ir_window_started_ns := now_ns, ir_events_in_window := 0 \<rparr> else r)
      in r\<lparr> ir_events_in_window := sat_add (ir_events_in_window r) 1 \<rparr>)"

definition deliver :: "u32 \<Rightarrow> u64 \<Rightarrow> interrupt_table \<Rightarrow> interrupt_table \<times> interrupt_delivery" where
  "deliver irq_number now_ns t =
     (case List.find (\<lambda>r. ir_irq_number r = irq_number) (it_entries t) of
        None \<Rightarrow> (t, NotBound)
      | Some r \<Rightarrow>
          if ir_masked r \<or> ir_awaiting_ack r then (t, MaskedDelivery)
          else let r' = count_event now_ns r;
                   put = (\<lambda>q. t\<lparr> it_entries := upd_first (\<lambda>r. ir_irq_number r = irq_number) (\<lambda>_. q) (it_entries t) \<rparr>)
               in if ir_events_in_window r' > ir_flood_limit_per_second r'
                  then (put (r'\<lparr> ir_masked := True \<rparr>), FloodLimited (ir_id r'))
                  else (put (r'\<lparr> ir_masked := True, ir_awaiting_ack := True \<rparr>), Signaled (ir_id r')))"

definition acknowledge :: "u64 \<Rightarrow> (interrupt_table, unit) op" where
  "acknowledge i = interrupt_upd i ir_awaiting_ack (\<lambda>r. r\<lparr> ir_awaiting_ack := False, ir_masked := False \<rparr>)"

definition mask_irq :: "u64 \<Rightarrow> bool \<Rightarrow> (interrupt_table, unit) op" where
  "mask_irq i masked = interrupt_upd i (\<lambda>r. \<not> (\<not> masked \<and> ir_awaiting_ack r)) (\<lambda>r. r\<lparr> ir_masked := masked \<rparr>)"

section \<open>Scheduling profiles\<close>

record profile_record =
  pf_id :: u64
  pf_owner_process_id :: u64
  pf_profile :: scheduling_profile

record profile_table =
  xt_entries :: "profile_record list"
  xt_next_profile_id :: u64

definition profile_table_new :: profile_table where
  "profile_table_new = \<lparr> xt_entries = [], xt_next_profile_id = 1 \<rparr>"

definition profile_insert :: "service_site allocator \<Rightarrow> u64 \<Rightarrow> scheduling_profile \<Rightarrow> (profile_table, u64) op" where
  "profile_insert al owner_process_id profile t =
     (if owner_process_id = 0 then (t, Inl InvalidArgs)
      else if \<not> al SiteProfiles (length (xt_entries t)) then (t, Inl NoMemory)
      else let i = xt_next_profile_id t
           in (t\<lparr> xt_next_profile_id := sat_add i 1, xt_entries := xt_entries t @
                 [\<lparr> pf_id = i, pf_owner_process_id = owner_process_id, pf_profile = profile \<rparr>] \<rparr>, Inr i))"

definition profile_get :: "profile_table \<Rightarrow> u64 \<Rightarrow> profile_record option" where
  "profile_get t i = List.find (\<lambda>p. pf_id p = i) (xt_entries t)"

definition validate_profile_request ::
    "scheduling_profile \<Rightarrow> hardware_access \<Rightarrow> kernel_service_status + scheduling_profile" where
  "validate_profile_request profile hardware_access =
     (case profile of
        Fair fair \<Rightarrow>
          if fp_priority fair = 0 \<or> fp_weight fair = 0 then Inl InvalidArgs
          else Inr (Fair (if hardware_access \<noteq> Direct \<and> fp_priority fair > 127 then fair\<lparr> fp_priority := 127 \<rparr> else fair))
      | Deadline deadline \<Rightarrow>
          if hardware_access \<noteq> Direct then Inl AccessDenied
          else if \<not> deadline_valid deadline then Inl InvalidArgs
          else Inr (Deadline deadline))"

definition scheduler_status :: "scheduler_error \<Rightarrow> kernel_service_status" where
  "scheduler_status e =
     (case e of
        Full \<Rightarrow> NoMemory
      | InvalidTask \<Rightarrow> InvalidArgs
      | scheduler_error.AlreadyExists \<Rightarrow> AlreadyExists
      | scheduler_error.AccessDenied \<Rightarrow> AccessDenied
      | scheduler_error.ResourceExhausted \<Rightarrow> ResourceExhausted)"

section \<open>Clock, power and address-space identifiers\<close>

record clock_state =
  ck_monotonic_nanos :: u64
  ck_slew :: slew_state
  ck_vdso_vmo_id :: u64

definition clock_state_new :: clock_state where
  "clock_state_new = \<lparr> ck_monotonic_nanos = 0, ck_slew = slew_new, ck_vdso_vmo_id = 0 \<rparr>"

definition set_monotonic_nanos :: "u64 \<Rightarrow> clock_state \<Rightarrow> clock_state" where
  "set_monotonic_nanos nanos c = (if nanos > ck_monotonic_nanos c then c\<lparr> ck_monotonic_nanos := nanos \<rparr> else c)"

definition adjust_realtime :: "int \<Rightarrow> int \<Rightarrow> clock_state \<Rightarrow> clock_state \<times> kernel_service_status" where
  "adjust_realtime offset_delta_ns slew_rate_ppm c =
     (case adjust (ck_slew c) (ck_monotonic_nanos c) offset_delta_ns slew_rate_ppm of
        Inr slew \<Rightarrow> (c\<lparr> ck_slew := slew \<rparr>, Ok)
      | Inl _ \<Rightarrow> (c, InvalidArgs))"

definition realtime_nanos :: "clock_state \<Rightarrow> u64 option" where
  "realtime_nanos c = realtime_at (ck_slew c) (ck_monotonic_nanos c)"

definition clock_snapshot :: "clock_state \<Rightarrow> u64 \<Rightarrow> u64 \<Rightarrow> time_page_snapshot" where
  "clock_snapshot c base_ticks tick_frequency_hz =
     \<lparr> tp_base_ticks = base_ticks, tp_tick_frequency_hz = tick_frequency_hz, tp_base_monotonic_ns = ck_monotonic_nanos c,
       tp_realtime_offset_ns = ss_realtime_offset_ns (ck_slew c),
       tp_slew_start_monotonic_ns = ss_slew_start_monotonic_ns (ck_slew c),
       tp_slew_remaining_ns = ss_slew_remaining_ns (ck_slew c), tp_slew_rate_ppm = ss_slew_rate_ppm (ck_slew c) \<rparr>"

datatype system_power_state = Active | SuspendToRam | SuspendToDisk | Reboot | Poweroff

record power_transition_record =
  px_requested :: system_power_state
  px_accepted :: bool

record asid_allocator =
  as_next :: u16
  as_max :: u16

datatype asid_support = AsidNone | Bits8 | Bits16

definition support_max_asid :: "asid_support \<Rightarrow> u16" where
  "support_max_asid s = (case s of AsidNone \<Rightarrow> 0 | Bits8 \<Rightarrow> 255 | Bits16 \<Rightarrow> 65535)"

definition asid_disabled :: asid_allocator where
  "asid_disabled = \<lparr> as_next = 0, as_max = 0 \<rparr>"

definition asid_new :: "asid_support \<Rightarrow> asid_allocator" where
  "asid_new support = \<lparr> as_next = (if support = AsidNone then 0 else 1), as_max = support_max_asid support \<rparr>"

definition asid_allocate :: "asid_allocator \<Rightarrow> asid_allocator \<times> u16 option" where
  "asid_allocate a =
     (if as_max a = 0 then (a, Some 0)
      else if as_next a = 0 then (a, None)
      else (a\<lparr> as_next := (if as_next a = as_max a then 1 else as_next a + 1) \<rparr>, Some (as_next a)))"

section \<open>The tables hand out increasing identifiers\<close>

interpretation processes: id_table pt_entries pt_next_process_id ps_id process_get
    "\<lambda>(name, g, sp, pkg, hw, job). insert_in_job al name g sp pkg hw job"
    "\<lambda>(name, g, sp, pkg, hw, job) i. \<lparr> ps_id = i, ps_name = stored 64 name, ps_name_len = length name,
       ps_package_id = stored 96 pkg, ps_package_id_len = length pkg, ps_hardware_access = hw, ps_resource_group_id = g,
       ps_job_id = job, ps_vm_space_id = sp, ps_main_thread_id = 0, ps_state = PsCreated, ps_root_channel_handle = None \<rparr>"
    for al
  by unfold_locales (auto simp: process_get_def insert_in_job_def Let_def split: if_splits)

interpretation jobs: id_table jt_entries jt_next_job_id jb_id job_get
    "\<lambda>(name, pkg, g, hw, rt, n). job_create al name pkg g hw rt n"
    "\<lambda>(name, pkg, g, hw, rt, n) i. \<lparr> jb_id = i, jb_name = stored 64 name, jb_name_len = length name,
       jb_package_id = stored 96 pkg, jb_package_id_len = length pkg, jb_resource_group_id = g, jb_hardware_access = hw,
       jb_realtime_scheduling = rt, jb_max_processes = n \<rparr>"
    for al
  by unfold_locales (auto simp: job_get_def job_create_def Let_def split: if_splits)

interpretation vm_spaces: id_table st_entries st_next_vm_space_id vs_id vm_space_get
    "\<lambda>(p, root, asid). vm_space_insert al p root asid"
    "\<lambda>(p, root, asid) i. \<lparr> vs_id = i, vs_process_id = p, vs_root_table_phys = root, vs_asid = asid \<rparr>"
    for al
  by unfold_locales (auto simp: vm_space_get_def vm_space_insert_def Let_def split: if_splits)

interpretation profiles: id_table xt_entries xt_next_profile_id pf_id profile_get
    "\<lambda>(owner, p). profile_insert al owner p"
    "\<lambda>(owner, p) i. \<lparr> pf_id = i, pf_owner_process_id = owner, pf_profile = p \<rparr>"
    for al
  by unfold_locales (auto simp: profile_get_def profile_insert_def Let_def split: if_splits)

interpretation interrupts: id_table it_entries it_next_interrupt_id ir_id interrupt_record_of
    "\<lambda>(irq, flags). interrupt_insert al irq flags"
    "\<lambda>(irq, flags) i. \<lparr> ir_id = i, ir_irq_number = irq, ir_flags = flags, ir_masked = False, ir_awaiting_ack = False,
       ir_window_started_ns = 0, ir_events_in_window = 0,
       ir_flood_limit_per_second = DEFAULT_INTERRUPT_FLOOD_LIMIT_PER_SECOND \<rparr>"
    for al
  by unfold_locales (auto simp: interrupt_record_of_def interrupt_insert_def Let_def split: if_splits)

end
