(* ===== verification/Spec2Isabelle.thy ===== *)
theory Spec2Isabelle
  imports Sched_Defects Sched_Behave Snapshot_Roundtrip Ipc_Ring Frames Mmu_Aarch64 Mmu_X86_64 Transplant Hardware Time_Page
    Handles Tasks Channels Mappings System_Tables
begin

text \<open>
  Verification of the bexos kernel core.

  The program is the portable core of an operating-system kernel in Rust
  (\<open>src/kernel/core/src\<close>).
\<close>

end
